(* ===== verification/Serveza_Prelude.thy ===== *)
theory Serveza_Prelude
  imports Main "HOL-Library.Word" "HOL-Library.Multiset"
begin

text \<open>
  What every component shares: the machine integer types of the C++ sources, the generic
  notion of a reachable state with the interface of an inductive invariant, and lemmas on
  lists, multisets and 64-bit counters.
\<close>

type_synonym u16 = "16 word"
type_synonym u64 = "64 word"
type_synonym usize = "64 word"

text \<open>
  A transition system is a predicate for its initial states and a step relation.  The
  listeners and the server are transition systems: a step is one call of the public
  interface or one handler run by the executor.
\<close>

inductive reachable :: "('s \<Rightarrow> bool) \<Rightarrow> ('s \<Rightarrow> 's \<Rightarrow> bool) \<Rightarrow> 's \<Rightarrow> bool"
  for init :: "'s \<Rightarrow> bool" and step :: "'s \<Rightarrow> 's \<Rightarrow> bool" where
  reach_init: "init s \<Longrightarrow> reachable init step s"
| reach_step: "reachable init step s \<Longrightarrow> step s t \<Longrightarrow> reachable init step t"

locale inductive_invariant =
  fixes init :: "'s \<Rightarrow> bool"
    and step :: "'s \<Rightarrow> 's \<Rightarrow> bool"
    and inv :: "'s \<Rightarrow> bool"
  assumes base: "init s \<Longrightarrow> inv s"
    and preserved: "inv s \<Longrightarrow> step s t \<Longrightarrow> inv t"
begin

lemma holds: "reachable init step s \<Longrightarrow> inv s"
  by (induction rule: reachable.induct) (auto intro: base preserved)

lemma holds_after: "inv s \<Longrightarrow> step\<^sup>*\<^sup>* s t \<Longrightarrow> inv t"
  by (rotate_tac, induction rule: rtranclp_induct) (auto intro: preserved)

end

lemma reachable_rtranclp: "reachable init step s \<Longrightarrow> step\<^sup>*\<^sup>* s t \<Longrightarrow> reachable init step t"
  by (rotate_tac, induction rule: rtranclp_induct) (auto intro: reach_step)

text \<open>
  A script is a sequence of actions; it runs if every action is enabled when its turn comes.
\<close>

fun run_script :: "('a \<Rightarrow> 's \<Rightarrow> bool) \<Rightarrow> ('a \<Rightarrow> 's \<Rightarrow> 's) \<Rightarrow> 'a list \<Rightarrow> 's \<Rightarrow> 's option" where
  "run_script enabled perform [] s = Some s"
| "run_script enabled perform (x # xs) s =
     (if enabled x s then run_script enabled perform xs (perform x s) else None)"

lemma run_script_steps:
  assumes "\<And>x s. enabled x s \<Longrightarrow> step s (perform x s)"
  shows "run_script enabled perform xs s = Some t \<Longrightarrow> step\<^sup>*\<^sup>* s t"
proof (induction xs arbitrary: s)
  case (Cons x xs)
  then have "step s (perform x s)" and "step\<^sup>*\<^sup>* (perform x s) t"
    by (auto intro: assms split: if_splits)
  then show ?case by (rule converse_rtranclp_into_rtranclp)
qed simp

lemma run_script_append:
  "run_script enabled perform xs s = Some t \<Longrightarrow>
     run_script enabled perform (xs @ ys) s = run_script enabled perform ys t"
  by (induction xs arbitrary: s) (auto split: if_splits)

lemma run_script_inv:
  "run_script enabled perform xs s = Some t \<Longrightarrow> P s \<Longrightarrow>
     (\<And>x s. P s \<Longrightarrow> enabled x s \<Longrightarrow> P (perform x s)) \<Longrightarrow> P t"
  by (induction xs arbitrary: s) (auto split: if_splits)

lemma run_script_restrict:
  "run_script enabled perform xs s = Some t \<Longrightarrow> list_all P xs \<Longrightarrow>
     run_script (\<lambda>x s. enabled x s \<and> P x) perform xs s = Some t"
  by (induction xs arbitrary: s) (auto split: if_splits)

lemma run_script_map:
  "run_script (\<lambda>x s. P x \<and> enabled (f x) s) (\<lambda>x. perform (f x)) xs s = Some t \<Longrightarrow>
     run_script enabled perform (map f xs) s = Some t \<and> (\<forall>x \<in> set xs. P x)"
  by (induction xs arbitrary: s) (auto split: if_splits)

text \<open>
  Work that can always be finished: in every active state some action is enabled that keeps
  the invariant and brings the state closer to rest.
\<close>

locale drainable =
  fixes enabled :: "'a \<Rightarrow> 's \<Rightarrow> bool"
    and perform :: "'a \<Rightarrow> 's \<Rightarrow> 's"
    and inv :: "'s \<Rightarrow> bool"
    and active :: "'s \<Rightarrow> bool"
    and rank :: "'s \<Rightarrow> nat"
  assumes progress: "inv s \<Longrightarrow> active s \<Longrightarrow>
    \<exists>x. enabled x s \<and> inv (perform x s) \<and> (active (perform x s) \<longrightarrow> rank (perform x s) < rank s)"
begin

lemma drains:
  "inv s \<Longrightarrow> \<exists>xs t. length xs \<le> Suc (rank s) \<and> run_script enabled perform xs s = Some t \<and> inv t \<and> \<not> active t"
proof (induction "rank s" arbitrary: s rule: less_induct)
  case less
  show ?case
  proof (cases "active s")
    case True
    with progress [OF less.prems] obtain x where x: "enabled x s" "inv (perform x s)"
      "active (perform x s) \<Longrightarrow> rank (perform x s) < rank s" by blast
    show ?thesis
    proof (cases "active (perform x s)")
      case True
      from less.hyps [OF x(3) [OF this] x(2)] obtain xs t where
        "length xs \<le> Suc (rank (perform x s))" "run_script enabled perform xs (perform x s) = Some t"
        "inv t" "\<not> active t" by blast
      with x(1,3) True show ?thesis by (intro exI [of _ "x # xs"] exI [of _ t]) auto
    next
      case False
      with x show ?thesis by (intro exI [of _ "[x]"] exI [of _ "perform x s"]) simp
    qed
  next
    case False
    with less.prems show ?thesis by (intro exI [of _ "[]"] exI [of _ s]) simp
  qed
qed

end

text \<open>
  What a component promises about the completion handlers it is given: the ledger of the
  handlers held and completed changes only by the handlers an action submits.
\<close>

locale exactly_once =
  fixes enabled :: "'a \<Rightarrow> 's \<Rightarrow> bool"
    and perform :: "'a \<Rightarrow> 's \<Rightarrow> 's"
    and inv :: "'s \<Rightarrow> bool"
    and held :: "'s \<Rightarrow> 'h multiset"
    and completed :: "'s \<Rightarrow> 'h multiset"
    and submitted :: "'a \<Rightarrow> 'h multiset"
  assumes keeps_inv: "inv s \<Longrightarrow> enabled x s \<Longrightarrow> inv (perform x s)"
    and balance: "inv s \<Longrightarrow> enabled x s \<Longrightarrow>
      held (perform x s) + completed (perform x s) = held s + completed s + submitted x"
begin

lemma run_balance:
  "run_script enabled perform xs s = Some t \<Longrightarrow> inv s \<Longrightarrow>
     held t + completed t = held s + completed s + sum_list (map submitted xs)"
proof (induction xs arbitrary: s)
  case (Cons x xs)
  then have en: "enabled x s" and rest: "run_script enabled perform xs (perform x s) = Some t"
    by (auto split: if_splits)
  from Cons.IH [OF rest keeps_inv [OF Cons.prems(2) en]] balance [OF Cons.prems(2) en] show ?case
    by (simp add: ac_simps)
qed simp

lemma run_from_empty:
  assumes "run_script enabled perform xs s = Some t" and "inv s"
    and "held s = {#}" and "completed s = {#}"
  shows "completed t + held t = sum_list (map submitted xs)"
    and "held t = {#} \<Longrightarrow> completed t = sum_list (map submitted xs)"
  using run_balance [OF assms(1,2)] assms(3,4) by (simp_all add: add.commute)

end

text \<open>Lists used as bags of pending handlers.\<close>

lemma in_remove1: "t \<in> set xs \<Longrightarrow> t = u \<or> t \<in> set (remove1 u xs)"
  by (induction xs) auto

lemma set_remove1D: "x \<in> set (remove1 y xs) \<Longrightarrow> x \<in> set xs"
  by (meson notin_set_remove1)

lemma filter_remove1_other: "\<not> P x \<Longrightarrow> filter P (remove1 x xs) = filter P xs"
  by (induction xs) auto

lemma filter_remove1_same: "P x \<Longrightarrow> filter P (remove1 x xs) = remove1 x (filter P xs)"
  by (induction xs) auto

lemma mset_concat_map_remove1:
  "x \<in> set xs \<Longrightarrow> mset (concat (map f xs)) = mset (f x) + mset (concat (map f (remove1 x xs)))"
  by (induction xs) auto

lemma map_update_same: "f x = f (xs ! a) \<Longrightarrow> map f (xs[a := x]) = map f xs"
  by (metis list_update_id map_update)

text \<open>Unsigned 64-bit counters.\<close>

lemma unat_less_2p64: "unat (x :: 64 word) < 2 ^ 64"
  using unsigned_less [of x] by simp

lemma unat_plus_one: "(x :: 64 word) \<noteq> - 1 \<Longrightarrow> unat (x + 1) = unat x + 1"
  by (metis Suc_eq_plus1 unatSuc add.commute add_eq_0_iff minus_equation_iff)

lemma unat_of_nat_64: "n < 2 ^ 64 \<Longrightarrow> unat (of_nat n :: 64 word) = n"
  by (simp add: unsigned_of_nat take_bit_eq_mod)

end
