(* ===== verification/Serveza_Errors.thy ===== *)
theory Serveza_Errors
  imports Serveza_Prelude
begin

text \<open>
  Error codes, exceptions and their conversion (\<^verbatim>\<open>src/src/exception.cpp\<close>).

  A \<open>boost::system::error_code\<close> is either the default-constructed code, which is false in a
  condition, or one of the codes the sources name, or any other failing code.  An
  \<open>std::exception_ptr\<close> is null or holds an exception; the sources distinguish only
  \<open>boost::system::system_error\<close>, whose code they read, from everything else.
\<close>

datatype error_code =
    no_error
  | operation_aborted
  | connection_aborted
  | interrupted
  | try_again
  | would_block
  | no_descriptors
  | no_buffer_space
  | no_memory
  | io_error
  | timed_out
  | eof
  | connection_reset
  | end_of_stream
  | stream_truncated
  | other_error nat

definition failed :: "error_code \<Rightarrow> bool" where
  "failed ec \<longleftrightarrow> ec \<noteq> no_error"

datatype exn = system_error error_code | other_exception nat

type_synonym exception_ptr = "exn option"

definition exception_to_error :: "exception_ptr \<Rightarrow> error_code" where
  "exception_to_error ep =
     (case ep of
        None \<Rightarrow> no_error
      | Some (system_error code) \<Rightarrow> code
      | Some (other_exception _) \<Rightarrow> io_error)"

text \<open>
  The reporter is a possibly empty \<open>std::function\<close>.  A call gives the exception it throws,
  if any, and the new state of whatever it captures; the exception is swallowed.
\<close>

definition report_exception ::
    "(exception_ptr \<Rightarrow> 's \<Rightarrow> exception_ptr \<times> 's) option \<Rightarrow> exception_ptr \<Rightarrow> 's \<Rightarrow> 's" where
  "report_exception reporter ep s =
     (case reporter of
        None \<Rightarrow> s
      | Some r \<Rightarrow> (case r ep s of (thrown, s') \<Rightarrow> s'))"

text \<open>
  What a wait on an Asio timer delivers: success when the timer has expired, also when it was
  cancelled too late, and \<open>operation_aborted\<close> when it was cancelled.
\<close>

definition timer_delivers :: "bool \<Rightarrow> error_code \<Rightarrow> bool" where
  "timer_delivers cancelled ec \<longleftrightarrow> ec = no_error \<or> cancelled \<and> ec = operation_aborted"

lemma failed_simps [simp]:
  "\<not> failed no_error" "failed operation_aborted" "failed io_error" "failed timed_out"
  "failed eof" "failed connection_reset" "failed end_of_stream" "failed stream_truncated"
  by (simp_all add: failed_def)

lemma exception_to_error_simps [simp]:
  "exception_to_error None = no_error"
  "exception_to_error (Some (system_error c)) = c"
  "exception_to_error (Some (other_exception n)) = io_error"
  by (simp_all add: exception_to_error_def)

lemma report_exception_simps [simp]:
  "report_exception None ep s = s"
  "report_exception (Some r) ep s = snd (r ep s)"
  by (simp_all add: report_exception_def split: prod.split)

text \<open>The only exception that converts to success is a system error that carries success.\<close>

lemma exception_to_error_success_iff:
  "exception_to_error ep = no_error \<longleftrightarrow> ep = None \<or> ep = Some (system_error no_error)"
  by (auto simp: exception_to_error_def split: option.splits exn.splits)

end
