(* ===== verification/Serveza_Options.thy ===== *)
theory Serveza_Options
  imports Serveza_Errors "HOL-Library.Signed_Division"
begin

text \<open>
  Listener options, their validation, the classification of accept errors and the retry
  delay (\<^verbatim>\<open>src/include/serveza/listener_options.h\<close>, \<^verbatim>\<open>src/src/listener.cpp\<close>).

  \<open>std::chrono::milliseconds\<close> counts in a signed 64-bit integer: durations are integers
  here, and the one multiplication of the sources is checked, with \<open>None\<close> standing for the
  signed overflow that C++ leaves undefined.  \<open>std::size_t\<close> values are 64-bit words.
\<close>

record listener_options =
  listen_backlog :: int
  shutdown_grace_period :: int
  max_active_sessions :: usize
  accept_error_backoff :: int
  max_accept_error_backoff :: int
  max_consecutive_accept_errors :: usize
  v6_only :: bool
  reuse_address :: bool

text \<open>The argument says whether \<open>_WIN32\<close> is defined.\<close>

definition default_listener_options :: "bool \<Rightarrow> listener_options" where
  "default_listener_options win32 =
     \<lparr> listen_backlog = 128,
       shutdown_grace_period = 5000,
       max_active_sessions = 1024,
       accept_error_backoff = 100,
       max_accept_error_backoff = 5000,
       max_consecutive_accept_errors = 8,
       v6_only = True,
       reuse_address = (\<not> win32) \<rparr>"

datatype argument_error = invalid_argument string

definition validate_socket_options :: "listener_options \<Rightarrow> argument_error + unit" where
  "validate_socket_options options =
     (if shutdown_grace_period options < 0
      then Inl (invalid_argument ''shutdown_grace_period must not be negative'')
      else Inr ())"

definition validate_acceptor_options :: "listener_options \<Rightarrow> argument_error + unit" where
  "validate_acceptor_options options =
     (if listen_backlog options \<le> 0
      then Inl (invalid_argument ''listen_backlog must be greater than zero'')
      else case validate_socket_options options of
        Inl e \<Rightarrow> Inl e
      | Inr _ \<Rightarrow>
         if max_active_sessions options = 0
         then Inl (invalid_argument ''max_active_sessions must be greater than zero'')
         else if accept_error_backoff options < 0
         then Inl (invalid_argument ''accept_error_backoff must not be negative'')
         else if max_accept_error_backoff options < accept_error_backoff options
         then Inl (invalid_argument
                ''max_accept_error_backoff must not be less than accept_error_backoff'')
         else if max_consecutive_accept_errors options = 0
         then Inl (invalid_argument ''max_consecutive_accept_errors must be greater than zero'')
         else Inr ())"

definition is_transient_accept_error :: "error_code \<Rightarrow> bool" where
  "is_transient_accept_error ec \<longleftrightarrow>
     ec = connection_aborted \<or> ec = interrupted \<or>
     ec = try_again \<or> ec = would_block \<or>
     ec = no_descriptors \<or> ec = no_buffer_space \<or>
     ec = no_memory"

definition ms_times_two :: "int \<Rightarrow> int option" where
  "ms_times_two d = (if - (2 ^ 63) \<le> d * 2 \<and> d * 2 < 2 ^ 63 then Some (d * 2) else None)"

function retry_delay_loop :: "listener_options \<Rightarrow> nat \<Rightarrow> nat \<Rightarrow> int \<Rightarrow> int option" where
  "retry_delay_loop options consecutive_errors i delay =
     (if i < consecutive_errors \<and> delay < max_accept_error_backoff options
      then if delay > max_accept_error_backoff options sdiv 2
           then retry_delay_loop options consecutive_errors (Suc i)
                  (max_accept_error_backoff options)
           else case ms_times_two delay of
                  None \<Rightarrow> None
                | Some d \<Rightarrow> retry_delay_loop options consecutive_errors (Suc i) d
      else Some delay)"
  by pat_completeness auto
termination
  by (relation "measure (\<lambda>(options, n, i, delay). n - i)") auto

declare retry_delay_loop.simps [simp del]

definition accept_retry_delay :: "listener_options \<Rightarrow> usize \<Rightarrow> int option" where
  "accept_retry_delay options consecutive_errors =
     map_option (\<lambda>delay. min delay (max_accept_error_backoff options))
       (retry_delay_loop options (unat consecutive_errors) 1 (accept_error_backoff options))"

lemma validate_socket_options_ok_iff:
  "validate_socket_options opts = Inr u \<longleftrightarrow> 0 \<le> shutdown_grace_period opts"
  by (simp add: validate_socket_options_def)

lemma validate_acceptor_options_ok_iff:
  "validate_acceptor_options opts = Inr u \<longleftrightarrow>
     0 < listen_backlog opts \<and> 0 \<le> shutdown_grace_period opts \<and>
     0 < max_active_sessions opts \<and> 0 \<le> accept_error_backoff opts \<and>
     accept_error_backoff opts \<le> max_accept_error_backoff opts \<and>
     0 < max_consecutive_accept_errors opts"
  by (auto simp: validate_acceptor_options_def validate_socket_options_def word_neq_0_conv
      split: if_splits)

lemma sdiv_two_nonneg: "0 \<le> (m::int) \<Longrightarrow> m sdiv 2 = m div 2"
  by (simp add: signed_divide_int_def sgn_if)

lemma le_times_power_two: "0 \<le> (d::int) \<Longrightarrow> d \<le> d * 2 ^ k"
  by (metis mult_left_mono mult.right_neutral one_le_power one_le_numeral)

text \<open>
  One round of the loop doubles the delay and caps it: the comparison with half of the
  maximum is exactly the test that doubling would pass it.
\<close>

lemma retry_delay_loop_closed:
  assumes "0 \<le> d" and "d \<le> max_accept_error_backoff opts"
    and "max_accept_error_backoff opts < 2 ^ 63"
  shows "retry_delay_loop opts n i d =
           Some (min (d * 2 ^ (n - i)) (max_accept_error_backoff opts))"
  using assms
proof (induction opts n i d rule: retry_delay_loop.induct)
  case (1 opts n i d)
  let ?m = "max_accept_error_backoff opts"
  show ?case
  proof (cases "i < n \<and> d < ?m")
    case False
    then show ?thesis
      using "1.prems" le_times_power_two [of d "n - i"]
      by (auto simp: retry_delay_loop.simps [of opts n i d] min_def)
  next
    case True
    then have split: "n - i = Suc (n - Suc i)" by arith
    show ?thesis
    proof (cases "d > ?m sdiv 2")
      case big: True
      then have "?m < d * 2" using "1.prems" by (simp add: sdiv_two_nonneg)
      then have "?m \<le> d * 2 * 2 ^ (n - Suc i)"
        using "1.prems" le_times_power_two [of "d * 2" "n - Suc i"] by linarith
      moreover have "min (?m * 2 ^ (n - Suc i)) ?m = ?m"
        using "1.prems" le_times_power_two [of ?m "n - Suc i"] by (simp add: min_absorb2)
      ultimately show ?thesis
        using True big "1.IH"(1) "1.prems"
        by (simp add: retry_delay_loop.simps [of opts n i d] split min_absorb2 mult.assoc)
    next
      case False
      then have "d * 2 \<le> ?m" using "1.prems" by (simp add: sdiv_two_nonneg)
      moreover from this have "ms_times_two d = Some (d * 2)"
        using "1.prems" by (simp add: ms_times_two_def)
      ultimately show ?thesis
        using True False "1.IH"(2) [OF True False] "1.prems"
        by (simp add: retry_delay_loop.simps [of opts n i d] split mult_ac)
    qed
  qed
qed

text \<open>
  C27: for validated options whose maximal backoff fits the signed 64-bit count of
  \<open>std::chrono::milliseconds\<close>, the retry delay never overflows and is the exponential
  backoff capped by the maximum: after \<open>n\<close> consecutive errors the initial delay doubled
  \<open>n - 1\<close> times, or the maximal delay if that is smaller.
\<close>

theorem accept_retry_delay_closed:
  assumes "validate_acceptor_options opts = Inr ()"
    and "max_accept_error_backoff opts < 2 ^ 63"
  shows "accept_retry_delay opts n =
           Some (min (accept_error_backoff opts * 2 ^ (unat n - 1))
                     (max_accept_error_backoff opts))"
proof -
  have "0 \<le> accept_error_backoff opts"
    and "accept_error_backoff opts \<le> max_accept_error_backoff opts"
    using assms(1) by (simp_all add: validate_acceptor_options_ok_iff)
  with assms(2) show ?thesis
    by (simp add: accept_retry_delay_def retry_delay_loop_closed)
qed

theorem accept_retry_delay_closed_witness:
  "accept_retry_delay (default_listener_options False) 3 = Some 400 \<and>
   accept_retry_delay (default_listener_options False) 8 = Some 5000"
proof -
  let ?o = "default_listener_options False"
  have v: "validate_acceptor_options ?o = Inr ()"
    by (simp add: validate_acceptor_options_ok_iff default_listener_options_def)
  have m: "max_accept_error_backoff ?o < 2 ^ 63"
    by (simp add: default_listener_options_def)
  show ?thesis
    using accept_retry_delay_closed [OF v m, of 3] accept_retry_delay_closed [OF v m, of 8]
    by (simp add: default_listener_options_def)
qed

lemma accept_retry_delay_some:
  assumes "validate_acceptor_options opts = Inr ()"
    and "max_accept_error_backoff opts < 2 ^ 63"
  obtains d where "accept_retry_delay opts n = Some d"
    and "accept_error_backoff opts \<le> d" and "d \<le> max_accept_error_backoff opts"
proof -
  have b: "0 \<le> accept_error_backoff opts"
    and m: "accept_error_backoff opts \<le> max_accept_error_backoff opts"
    using assms(1) by (simp_all add: validate_acceptor_options_ok_iff)
  let ?d = "min (accept_error_backoff opts * 2 ^ (unat n - 1)) (max_accept_error_backoff opts)"
  have "accept_retry_delay opts n = Some ?d"
    using b m assms(2) by (simp add: accept_retry_delay_def retry_delay_loop_closed)
  moreover have "accept_error_backoff opts \<le> ?d"
    using b m le_times_power_two [OF b] by simp
  ultimately show thesis using that by simp
qed

end
