(* ===== verification/Serveza_Endpoint.thy ===== *)
theory Serveza_Endpoint
  imports Serveza_Prelude
begin

text \<open>
  Printable endpoints: \<open>endpoint_string\<close> of \<^verbatim>\<open>src/include/serveza/listener.h\<close>.

  The type traits \<open>has_ip_endpoint\<close> and \<open>has_path_endpoint\<close> select a branch at compile time
  from the members an endpoint type has; here an endpoint carries what the selected branch
  reads.  An address is given by its text, \<open>address().to_string()\<close>, and by \<open>is_v6()\<close>.
\<close>

datatype endpoint =
    ip_endpoint (ip_address: string) (ip_is_v6: bool) (ip_port: u16)
  | path_endpoint (endpoint_path: string)
  | opaque_endpoint

fun has_ip_endpoint :: "endpoint \<Rightarrow> bool" where
  "has_ip_endpoint (ip_endpoint _ _ _) = True"
| "has_ip_endpoint _ = False"

fun has_path_endpoint :: "endpoint \<Rightarrow> bool" where
  "has_path_endpoint (path_endpoint _) = True"
| "has_path_endpoint _ = False"

definition digit_char :: "nat \<Rightarrow> char" where
  "digit_char d = char_of (48 + d)"

fun nat_to_string :: "nat \<Rightarrow> string" where
  "nat_to_string n =
     (if n < 10 then [digit_char n] else nat_to_string (n div 10) @ [digit_char (n mod 10)])"

declare nat_to_string.simps [simp del]

definition bracket_address :: "string \<Rightarrow> string" where
  "bracket_address address =
     (if CHR '':'' \<in> set address then CHR ''['' # address @ '']'' else address)"

fun endpoint_string :: "endpoint \<Rightarrow> string" where
  "endpoint_string (ip_endpoint address v6 port) =
     bracket_address address @ '':'' @ nat_to_string (unat port)"
| "endpoint_string (path_endpoint path) = path"
| "endpoint_string opaque_endpoint = []"

text \<open>For evaluation a port is printed from its binary representation.\<close>

function int_to_string :: "int \<Rightarrow> string" where
  "int_to_string i =
     (if i < 10 then [digit_char (nat i)] else int_to_string (i div 10) @ [digit_char (nat (i mod 10))])"
  by auto

termination by (relation "measure nat") auto

declare int_to_string.simps [simp del]

lemma int_to_string_int: "int_to_string (int n) = nat_to_string n"
proof (induction n rule: nat_to_string.induct)
  case (1 n)
  have "int n div 10 = int (n div 10)" "int n mod 10 = int (n mod 10)" by (simp_all add: zdiv_int zmod_int)
  with 1 show ?case by (subst int_to_string.simps, subst nat_to_string.simps) (simp del: of_nat_div of_nat_mod)
qed

lemma endpoint_string_code [code]:
  "endpoint_string (ip_endpoint address v6 port) = bracket_address address @ '':'' @ int_to_string (uint port)"
  "endpoint_string (path_endpoint path) = path" "endpoint_string opaque_endpoint = []"
  by (simp_all flip: int_to_string_int)

text \<open>
  The reference for reading a printed endpoint back: the text after the last colon is the
  port (what the repository's own clients parse with \<open>rfind\<close> and \<open>stoul\<close>).
\<close>

definition after_last_colon :: "string \<Rightarrow> string" where
  "after_last_colon s = rev (takeWhile (\<lambda>c. c \<noteq> CHR '':'') (rev s))"

definition before_last_colon :: "string \<Rightarrow> string" where
  "before_last_colon s = rev (drop 1 (dropWhile (\<lambda>c. c \<noteq> CHR '':'') (rev s)))"

definition string_to_nat :: "string \<Rightarrow> nat" where
  "string_to_nat s = foldl (\<lambda>n c. n * 10 + (of_char c - 48)) 0 s"

lemma of_digit_char: "d < 10 \<Longrightarrow> (of_char (digit_char d) :: nat) = 48 + d"
  by (simp add: digit_char_def)

lemma digit_char_not_colon: "d < 10 \<Longrightarrow> digit_char d \<noteq> CHR '':''"
proof
  assume "d < 10" and "digit_char d = CHR '':''"
  then have "48 + d = of_char (CHR '':'')"
    using of_digit_char [of d] by metis
  with \<open>d < 10\<close> show False by simp
qed

lemma nat_to_string_no_colon: "CHR '':'' \<notin> set (nat_to_string n)"
proof (induction n rule: nat_to_string.induct)
  case (1 n)
  then show ?case
    using digit_char_not_colon [of n] digit_char_not_colon [of "n mod 10"]
    by (subst nat_to_string.simps) auto
qed

lemma string_to_nat_snoc: "string_to_nat (s @ [c]) = string_to_nat s * 10 + (of_char c - 48)"
  by (simp add: string_to_nat_def)

lemma string_to_nat_roundtrip: "string_to_nat (nat_to_string n) = n"
proof (induction n rule: nat_to_string.induct)
  case (1 n)
  show ?case
  proof (cases "n < 10")
    case True
    then show ?thesis
      by (subst nat_to_string.simps) (simp add: string_to_nat_def of_digit_char)
  next
    case False
    with 1 show ?thesis
      by (subst nat_to_string.simps) (simp add: string_to_nat_snoc of_digit_char)
  qed
qed

lemma takeWhile_append_stop: "(\<forall>x \<in> set xs. P x) \<Longrightarrow> \<not> P y \<Longrightarrow> takeWhile P (xs @ y # ys) = xs"
  by (simp add: takeWhile_append)

lemma dropWhile_append_stop:
  "(\<forall>x \<in> set xs. P x) \<Longrightarrow> \<not> P y \<Longrightarrow> dropWhile P (xs @ y # ys) = y # ys"
  by (simp add: dropWhile_append)

lemma split_at_last_colon:
  assumes "CHR '':'' \<notin> set t"
  shows "after_last_colon (s @ '':'' @ t) = t" and "before_last_colon (s @ '':'' @ t) = s"
proof -
  have all: "\<forall>c \<in> set (rev t). c \<noteq> CHR '':''" using assms by auto
  show "after_last_colon (s @ '':'' @ t) = t"
    using takeWhile_append_stop [OF all, where y = "CHR '':''" and ys = "rev s"]
    by (simp add: after_last_colon_def)
  show "before_last_colon (s @ '':'' @ t) = s"
    using dropWhile_append_stop [OF all, where y = "CHR '':''" and ys = "rev s"]
    by (simp add: before_last_colon_def)
qed

lemma bracket_address_inj: "bracket_address a = bracket_address b \<Longrightarrow> a = b"
  by (auto simp: bracket_address_def split: if_splits)


end
