(* ===== verification/Serveza_Status.thy ===== *)
theory Serveza_Status
  imports Serveza_Errors
begin

text \<open>
  Lifecycle states, status snapshots and events
  (\<^verbatim>\<open>listener_status.h\<close>, \<^verbatim>\<open>server_status.h\<close>, \<^verbatim>\<open>connection_info.h\<close> and \<^verbatim>\<open>observer.h\<close>).
  Both lifecycle enumerations are ordered by the place of a state in one generation.
\<close>

datatype listener_state =
    listener_idle | listener_starting | listener_running | listener_stopping | listener_stopped

datatype listener_stop_reason =
    reason_none | requested | completed | startup_failure | runtime_failure

record listener_status =
  ls_state :: listener_state
  ls_stop_reason :: listener_stop_reason
  ls_listener_id :: u64
  ls_generation :: u64
  ls_active_sessions :: usize
  ls_endpoint :: string
  ls_last_error :: error_code
  ls_last_exception :: exception_ptr

datatype server_state =
    server_idle | server_starting | server_running | server_stopping | server_stopped

record server_status =
  ss_state :: server_state
  ss_generation :: u64
  ss_active_sessions :: usize
  ss_ready :: bool
  ss_listeners :: "listener_status list"

record connection_info =
  ci_id :: u64
  ci_local_endpoint :: string
  ci_remote_endpoint :: string

definition no_connection :: connection_info where
  "no_connection = \<lparr> ci_id = 0, ci_local_endpoint = [], ci_remote_endpoint = [] \<rparr>"

datatype listener_event_type =
    state_changed | accept_failed | session_factory_failed | session_started
  | session_stopped | shutdown_forced

record listener_event =
  le_type :: listener_event_type
  le_status :: listener_status
  le_connection :: connection_info
  le_error :: error_code
  le_exception :: exception_ptr

datatype server_event_type = event_starting | event_running | event_stopping | event_stopped

record server_event =
  se_type :: server_event_type
  se_status :: server_status
  se_error :: error_code

fun listener_rank :: "listener_state \<Rightarrow> nat" where
  "listener_rank listener_idle = 0"
| "listener_rank listener_starting = 1"
| "listener_rank listener_running = 2"
| "listener_rank listener_stopping = 3"
| "listener_rank listener_stopped = 4"

instantiation listener_state :: linorder
begin

definition less_eq_listener_state :: "listener_state \<Rightarrow> listener_state \<Rightarrow> bool" where
  "a \<le> b \<longleftrightarrow> listener_rank a \<le> listener_rank b"

definition less_listener_state :: "listener_state \<Rightarrow> listener_state \<Rightarrow> bool" where
  "a < b \<longleftrightarrow> listener_rank a < listener_rank b"

instance
proof
  fix a b c :: listener_state
  show "a < b \<longleftrightarrow> a \<le> b \<and> \<not> b \<le> a"
    by (auto simp: less_eq_listener_state_def less_listener_state_def)
  show "a \<le> a" by (simp add: less_eq_listener_state_def)
  show "a \<le> b \<Longrightarrow> b \<le> c \<Longrightarrow> a \<le> c" by (simp add: less_eq_listener_state_def)
  show "a \<le> b \<Longrightarrow> b \<le> a \<Longrightarrow> a = b"
    by (cases a; cases b) (simp_all add: less_eq_listener_state_def)
  show "a \<le> b \<or> b \<le> a" by (auto simp: less_eq_listener_state_def)
qed

end

fun server_rank :: "server_state \<Rightarrow> nat" where
  "server_rank server_idle = 0"
| "server_rank server_starting = 1"
| "server_rank server_running = 2"
| "server_rank server_stopping = 3"
| "server_rank server_stopped = 4"

instantiation server_state :: linorder
begin

definition less_eq_server_state :: "server_state \<Rightarrow> server_state \<Rightarrow> bool" where
  "a \<le> b \<longleftrightarrow> server_rank a \<le> server_rank b"

definition less_server_state :: "server_state \<Rightarrow> server_state \<Rightarrow> bool" where
  "a < b \<longleftrightarrow> server_rank a < server_rank b"

instance
proof
  fix a b c :: server_state
  show "a < b \<longleftrightarrow> a \<le> b \<and> \<not> b \<le> a"
    by (auto simp: less_eq_server_state_def less_server_state_def)
  show "a \<le> a" by (simp add: less_eq_server_state_def)
  show "a \<le> b \<Longrightarrow> b \<le> c \<Longrightarrow> a \<le> c" by (simp add: less_eq_server_state_def)
  show "a \<le> b \<Longrightarrow> b \<le> a \<Longrightarrow> a = b"
    by (cases a; cases b) (simp_all add: less_eq_server_state_def)
  show "a \<le> b \<or> b \<le> a" by (auto simp: less_eq_server_state_def)
qed

end

lemmas listener_order = less_eq_listener_state_def less_listener_state_def
lemmas server_order = less_eq_server_state_def less_server_state_def

end
