(* ===== verification/Serveza_Listener.thy ===== *)
theory Serveza_Listener
  imports Serveza_Options Serveza_Endpoint Serveza_Status
begin

text \<open>
  What the two listener classes have in common: the data members and the private helpers
  that \<open>basic_acceptor_listener\<close> (\<^verbatim>\<open>listener.h\<close>) and \<open>basic_socket_listener\<close>
  (\<^verbatim>\<open>basic_socket_listener.h\<close>) declare identically.

  Beside the C++ members the record has what the class shares with Asio and its callers:
  \<^item> \<open>flags\<close>: the heap of \<open>std::atomic_bool\<close> objects created by \<open>make_shared\<close>, an operation
    knowing its own by its index;
  \<^item> \<open>slots\<close>: the cancellation callbacks installed with \<open>assign\<close> and not yet cleared, each
    named by the flag it sets and, for a wait, by the identifier of the wait;
  \<^item> \<open>pending\<close>: every function object handed to Asio that has not run yet;
  \<^item> \<open>completions\<close>: the completions scheduled with \<open>complete_on\<close>, in order;
  \<^item> \<open>events\<close>: the events passed to the observer registry, in order.
  Completion handlers have any type \<open>'h\<close>; function objects have the type \<open>'t\<close>.
\<close>

record 'h wait_operation =
  w_id :: u64
  w_cancelled :: nat
  w_handler :: 'h

record ('h, 't) listener_base =
  m_id :: u64
  m_observers :: bool
  m_configured_endpoint :: endpoint
  m_options :: listener_options
  m_endpoint :: string
  m_stop_reason :: listener_stop_reason
  m_last_error :: error_code
  m_last_exception :: exception_ptr
  m_state :: listener_state
  m_generation :: u64
  m_active_sessions :: usize
  m_next_waiter_id :: u64
  m_terminal_error :: error_code
  m_waiters :: "'h wait_operation list"
  flags :: "bool list"
  slots :: "(nat \<times> u64 option) list"
  pending :: "'t list"
  completions :: "('h \<times> error_code) list"
  events :: "listener_event list"

definition status_of :: "('h, 't, 'z) listener_base_scheme \<Rightarrow> listener_status" where
  "status_of l =
     \<lparr> ls_state = m_state l,
       ls_stop_reason = m_stop_reason l,
       ls_listener_id = m_id l,
       ls_generation = m_generation l,
       ls_active_sessions = m_active_sessions l,
       ls_endpoint = m_endpoint l,
       ls_last_error = m_last_error l,
       ls_last_exception = m_last_exception l \<rparr>"

definition emit ::
    "listener_event_type \<Rightarrow> connection_info \<Rightarrow> error_code \<Rightarrow> exception_ptr \<Rightarrow>
     ('h, 't, 'z) listener_base_scheme \<Rightarrow> ('h, 't, 'z) listener_base_scheme" where
  "emit type connection ec ep l =
     l\<lparr> events := events l @
          (if m_observers l
           then [\<lparr> le_type = type, le_status = status_of l, le_connection = connection,
                  le_error = ec, le_exception = ep \<rparr>]
           else []) \<rparr>"

definition transition_to ::
    "listener_state \<Rightarrow> ('h, 't, 'z) listener_base_scheme \<Rightarrow> ('h, 't, 'z) listener_base_scheme" where
  "transition_to value l = emit state_changed no_connection no_error None (l\<lparr> m_state := value \<rparr>)"

definition clear_diagnostics ::
    "('h, 't, 'z) listener_base_scheme \<Rightarrow> ('h, 't, 'z) listener_base_scheme" where
  "clear_diagnostics l =
     l\<lparr> m_stop_reason := reason_none, m_last_error := no_error, m_last_exception := None \<rparr>"

definition record_diagnostic ::
    "error_code \<Rightarrow> exception_ptr \<Rightarrow>
     ('h, 't, 'z) listener_base_scheme \<Rightarrow> ('h, 't, 'z) listener_base_scheme" where
  "record_diagnostic ec ep l = l\<lparr> m_last_error := ec, m_last_exception := ep \<rparr>"

definition set_stop_reason ::
    "listener_stop_reason \<Rightarrow> ('h, 't, 'z) listener_base_scheme \<Rightarrow> ('h, 't, 'z) listener_base_scheme" where
  "set_stop_reason reason l = l\<lparr> m_stop_reason := reason \<rparr>"

text \<open>The diagnostic part of \<open>finish\<close>: the first recorded failure is kept.\<close>

definition keep_first_error ::
    "error_code \<Rightarrow> ('h, 't, 'z) listener_base_scheme \<Rightarrow> ('h, 't, 'z) listener_base_scheme" where
  "keep_first_error ec l =
     l\<lparr> m_last_error := (if failed ec \<and> \<not> failed (m_last_error l) \<and> m_last_exception l = None
                         then ec else m_last_error l) \<rparr>"

text \<open>Calls into Asio: posting, completing and clearing a cancellation slot.\<close>

definition post :: "'t \<Rightarrow> ('h, 't, 'z) listener_base_scheme \<Rightarrow> ('h, 't, 'z) listener_base_scheme" where
  "post f l = l\<lparr> pending := pending l @ [f] \<rparr>"

definition complete ::
    "'h \<Rightarrow> error_code \<Rightarrow> ('h, 't, 'z) listener_base_scheme \<Rightarrow> ('h, 't, 'z) listener_base_scheme" where
  "complete h ec l = l\<lparr> completions := completions l @ [(h, ec)] \<rparr>"

definition clear_slot :: "nat \<Rightarrow> ('h, 't, 'z) listener_base_scheme \<Rightarrow> ('h, 't, 'z) listener_base_scheme" where
  "clear_slot c l = l\<lparr> slots := filter (\<lambda>slot. fst slot \<noteq> c) (slots l) \<rparr>"

text \<open>The loop over the waiters at the end of \<open>finish\<close>.\<close>

fun complete_waiters ::
    "'h wait_operation list \<Rightarrow> ('h, 't, 'z) listener_base_scheme \<Rightarrow> ('h, 't, 'z) listener_base_scheme" where
  "complete_waiters [] l = l"
| "complete_waiters (waiter # waiters) l =
     complete_waiters waiters
       (complete (w_handler waiter) (m_terminal_error l) (clear_slot (w_cancelled waiter) l))"

definition release_waiters ::
    "('h, 't, 'z) listener_base_scheme \<Rightarrow> ('h, 't, 'z) listener_base_scheme" where
  "release_waiters l = (complete_waiters (m_waiters l) l)\<lparr> m_waiters := [] \<rparr>"

text \<open>
  Both classes find a waiter by its identifier in \<open>cancel_wait\<close>: the first one is erased and
  completed with \<open>operation_aborted\<close>.
\<close>

definition cancel_wait ::
    "u64 \<Rightarrow> ('h, 't, 'z) listener_base_scheme \<Rightarrow> ('h, 't, 'z) listener_base_scheme" where
  "cancel_wait ident l =
     (case find (\<lambda>value. w_id value = ident) (m_waiters l) of
        None \<Rightarrow> l
      | Some operation \<Rightarrow>
          complete (w_handler operation) operation_aborted
            (clear_slot (w_cancelled operation)
               (l\<lparr> m_waiters := remove1 operation (m_waiters l) \<rparr>)))"

lemmas listener_helpers =
  emit_def transition_to_def clear_diagnostics_def record_diagnostic_def set_stop_reason_def
  keep_first_error_def post_def complete_def clear_slot_def

lemma complete_waiters_closed:
  "complete_waiters ws l =
     l\<lparr> completions := completions l @ map (\<lambda>w. (w_handler w, m_terminal_error l)) ws,
        slots := filter (\<lambda>slot. fst slot \<notin> w_cancelled ` set ws) (slots l) \<rparr>"
  by (induction ws arbitrary: l) (auto simp: complete_def clear_slot_def intro!: arg_cong [where f = "\<lambda>x. filter x _"])

lemma release_waiters_closed:
  "release_waiters l =
     l\<lparr> completions := completions l @ map (\<lambda>w. (w_handler w, m_terminal_error l)) (m_waiters l),
        slots := filter (\<lambda>slot. fst slot \<notin> w_cancelled ` set (m_waiters l)) (slots l),
        m_waiters := [] \<rparr>"
  by (simp add: release_waiters_def complete_waiters_closed)

end
