(* ===== verification/Serveza_Lifecycle.thy ===== *)
theory Serveza_Lifecycle
  imports Serveza_Listener
begin

text \<open>
  What a listener promises to its observers: an abstract machine with the lifecycle state, the
  generation and the number of sessions, and the relation between a listener and this
  machine.  \<open>advances\<close> says that what a listener did is a run of the machine whose labels are
  the events the listener emitted meanwhile.
\<close>

datatype lifecycle_event =
    Entered listener_state u64          \<comment> \<open>\<open>state_changed\<close>, with the new state and generation\<close>
  | Opened                              \<comment> \<open>\<open>session_started\<close>\<close>
  | Closed                              \<comment> \<open>\<open>session_stopped\<close>\<close>

record lifecycle =
  lc_state :: listener_state
  lc_generation :: u64
  lc_sessions :: nat
  lc_limit :: nat

inductive lifecycle_step :: "lifecycle \<Rightarrow> lifecycle_event \<Rightarrow> lifecycle \<Rightarrow> bool" where
  lc_start: "lc_state a = listener_idle \<or> lc_state a = listener_stopped \<Longrightarrow> lc_sessions a = 0 \<Longrightarrow>
    lifecycle_step a (Entered listener_starting (lc_generation a + 1))
      (a\<lparr> lc_state := listener_starting, lc_generation := lc_generation a + 1 \<rparr>)"
| lc_run: "lc_state a = listener_starting \<Longrightarrow>
    lifecycle_step a (Entered listener_running (lc_generation a)) (a\<lparr> lc_state := listener_running \<rparr>)"
| lc_stop: "lc_state a \<noteq> listener_stopping \<Longrightarrow> lc_state a \<noteq> listener_stopped \<Longrightarrow>
    lifecycle_step a (Entered listener_stopping (lc_generation a)) (a\<lparr> lc_state := listener_stopping \<rparr>)"
| lc_stopped: "lc_state a = listener_starting \<or> lc_state a = listener_stopping \<Longrightarrow> lc_sessions a = 0 \<Longrightarrow>
    lifecycle_step a (Entered listener_stopped (lc_generation a)) (a\<lparr> lc_state := listener_stopped \<rparr>)"
| lc_open: "lc_state a = listener_running \<Longrightarrow> lc_sessions a < lc_limit a \<Longrightarrow>
    lifecycle_step a Opened (a\<lparr> lc_sessions := lc_sessions a + 1 \<rparr>)"
| lc_close: "lc_state a = listener_running \<or> lc_state a = listener_stopping \<Longrightarrow> 0 < lc_sessions a \<Longrightarrow>
    lifecycle_step a Closed (a\<lparr> lc_sessions := lc_sessions a - 1 \<rparr>)"

inductive_cases lifecycle_stepE: "lifecycle_step a e b"

inductive lifecycle_run :: "lifecycle \<Rightarrow> lifecycle_event list \<Rightarrow> lifecycle \<Rightarrow> bool" where
  lc_done: "lifecycle_run a [] a"
| lc_more: "lifecycle_step a e b \<Longrightarrow> lifecycle_run b es c \<Longrightarrow> lifecycle_run a (e # es) c"

inductive_cases lifecycle_run_NilE: "lifecycle_run a [] b"
inductive_cases lifecycle_run_ConsE: "lifecycle_run a (e # es) b"

lemma lifecycle_run_append:
  "lifecycle_run a es b \<Longrightarrow> lifecycle_run b fs c \<Longrightarrow> lifecycle_run a (es @ fs) c"
  by (induction rule: lifecycle_run.induct) (auto intro: lc_more)

lemma lifecycle_run_single: "lifecycle_step a e b \<Longrightarrow> lifecycle_run a [e] b"
  by (rule lc_more [OF _ lc_done])

text \<open>What every trace of the machine satisfies.\<close>

lemma lifecycle_run_balance:
  "lifecycle_run a es b \<Longrightarrow>
     lc_sessions b + count_list es Closed = lc_sessions a + count_list es Opened"
  by (induction rule: lifecycle_run.induct) (auto elim!: lifecycle_stepE)

lemma lifecycle_run_limit: "lifecycle_run a es b \<Longrightarrow> lc_limit b = lc_limit a"
  by (induction rule: lifecycle_run.induct) (auto elim!: lifecycle_stepE)

definition fresh_lifecycle :: "nat \<Rightarrow> lifecycle" where
  "fresh_lifecycle limit =
     \<lparr> lc_state = listener_idle, lc_generation = 0, lc_sessions = 0, lc_limit = limit \<rparr>"

subsection \<open>Listeners seen through their events\<close>

fun lifecycle_event_of :: "listener_event_type \<Rightarrow> listener_status \<Rightarrow> lifecycle_event list" where
  "lifecycle_event_of state_changed s = [Entered (ls_state s) (ls_generation s)]"
| "lifecycle_event_of session_started s = [Opened]"
| "lifecycle_event_of session_stopped s = [Closed]"
| "lifecycle_event_of _ s = []"

definition observed :: "('h, 't, 'z) listener_base_scheme \<Rightarrow> lifecycle_event list" where
  "observed l = concat (map (\<lambda>e. lifecycle_event_of (le_type e) (le_status e)) (events l))"

definition lifecycle_of :: "nat \<Rightarrow> nat \<Rightarrow> ('h, 't, 'z) listener_base_scheme \<Rightarrow> lifecycle" where
  "lifecycle_of n limit l =
     \<lparr> lc_state = m_state l, lc_generation = m_generation l, lc_sessions = n, lc_limit = limit \<rparr>"

definition advances ::
    "(('h, 't, 'z) listener_base_scheme \<Rightarrow> lifecycle) \<Rightarrow>
     ('h, 't, 'z) listener_base_scheme \<Rightarrow> ('h, 't, 'z) listener_base_scheme \<Rightarrow> bool" where
  "advances view l l' \<longleftrightarrow>
     m_observers l' = m_observers l \<and>
     (\<exists>es. lifecycle_run (view l) es (view l') \<and>
       observed l' = observed l @ (if m_observers l then es else []))"

lemma advances_refl [simp]: "advances view l l"
  unfolding advances_def by (intro conjI exI [of _ "[]"]) (auto intro: lc_done)

lemma advances_trans [trans]:
  assumes "advances view l l'" and "advances view l' l''"
  shows "advances view l l''"
proof -
  obtain es fs where "lifecycle_run (view l) es (view l')" "lifecycle_run (view l') fs (view l'')"
    "observed l'' = observed l @ (if m_observers l then es @ fs else [])"
    using assms unfolding advances_def by (auto split: if_splits)
  then show ?thesis
    using assms unfolding advances_def by (metis lifecycle_run_append)
qed

lemma advances_quiet:
  "view l' = view l \<Longrightarrow> m_observers l' = m_observers l \<Longrightarrow> events l' = events l \<Longrightarrow> advances view l l'"
  unfolding advances_def by (intro conjI exI [of _ "[]"]) (auto simp: observed_def intro: lc_done)

text \<open>An event that reports a step of the machine, after a change that prepared it.\<close>

lemma advances_emit:
  assumes "lifecycle_run (view l) (lifecycle_event_of type (status_of l')) (view (emit type info ec ep l'))"
    and "m_observers l' = m_observers l" "events l' = events l"
  shows "advances view l (emit type info ec ep l')"
  using assms unfolding advances_def
  by (intro conjI exI [of _ "lifecycle_event_of type (status_of l')"])
    (auto simp: emit_def observed_def)

text \<open>The events of a listener that has observers are a trace of the machine.\<close>

definition traced ::
    "(('h, 't, 'z) listener_base_scheme \<Rightarrow> lifecycle) \<Rightarrow> ('h, 't, 'z) listener_base_scheme \<Rightarrow> bool" where
  "traced view l \<longleftrightarrow>
     (m_observers l \<longrightarrow>
      lifecycle_run (fresh_lifecycle (lc_limit (view l))) (observed l) (view l))"

lemma traced_fresh: "view l = fresh_lifecycle n \<Longrightarrow> observed l = [] \<Longrightarrow> traced view l"
  by (simp add: traced_def fresh_lifecycle_def lc_done)

lemma traced_advances:
  assumes "traced view l" and "advances view l l'"
  shows "traced view l'"
proof -
  obtain es where adv: "m_observers l' = m_observers l" "lifecycle_run (view l) es (view l')"
    "observed l' = observed l @ (if m_observers l then es else [])"
    using assms(2) unfolding advances_def by blast
  then show ?thesis
    using assms(1) lifecycle_run_limit [OF adv(2)] by (auto simp: traced_def intro: lifecycle_run_append)
qed

text \<open>
  The interface of the view of a listener class: it shows state and generation, and no other
  member that the shared helpers change.
\<close>

locale listener_view =
  fixes view :: "('h, 't, 'z) listener_base_scheme \<Rightarrow> lifecycle"
  assumes shows_state: "lc_state (view l) = m_state l" "lc_generation (view l) = m_generation l"
    and only_state: "listener_base.more l' = listener_base.more l \<Longrightarrow> m_options l' = m_options l \<Longrightarrow>
      view l' = (view l)\<lparr> lc_state := m_state l', lc_generation := m_generation l' \<rparr>"
begin

lemma view_state:
  assumes "listener_base.more l' = listener_base.more l" "m_options l' = m_options l"
    and "m_generation l' = m_generation l"
  shows "view l' = (view l)\<lparr> lc_state := m_state l' \<rparr>"
proof -
  have "view l' = (view l)\<lparr> lc_state := m_state l', lc_generation := lc_generation (view l) \<rparr>"
    using only_state [OF assms(1,2)] assms(3) by (simp add: shows_state)
  then show ?thesis by simp
qed

lemma view_unchanged:
  assumes "listener_base.more l' = listener_base.more l" "m_options l' = m_options l"
    and "m_state l' = m_state l" "m_generation l' = m_generation l"
  shows "view l' = view l"
  using view_state [OF assms(1,2,4)] assms(3) by (simp add: shows_state [symmetric])

lemma quiet_helpers [simp]:
  "advances view l (record_diagnostic ec ep l)"
  "advances view l (set_stop_reason reason l)"
  "advances view l (keep_first_error ec l)"
  "advances view l (post t l)"
  "advances view l (complete h ec l)"
  "advances view l (clear_slot c l)"
  "advances view l (clear_diagnostics l)"
  "advances view l (release_waiters l)"
  "advances view l (cancel_wait i l)"
  "advances view l (l\<lparr> m_terminal_error := ec \<rparr>)"
  "advances view l (l\<lparr> m_endpoint := e \<rparr>)"
  "advances view l (l\<lparr> m_waiters := ws \<rparr>)"
  "advances view l (l\<lparr> m_next_waiter_id := i \<rparr>)"
  "advances view l (l\<lparr> flags := fs \<rparr>)"
  "advances view l (l\<lparr> slots := ss \<rparr>)"
  "advances view l (l\<lparr> pending := ts \<rparr>)"
  by (auto simp: listener_helpers release_waiters_closed cancel_wait_def split: option.split
      intro!: advances_quiet view_unchanged)

lemma quiet_emit:
  assumes "lifecycle_event_of type (status_of l) = []"
  shows "advances view l (emit type info ec ep l)"
proof (rule advances_emit)
  have "view (emit type info ec ep l) = view l" by (rule view_unchanged) (simp_all add: emit_def)
  then show "lifecycle_run (view l) (lifecycle_event_of type (status_of l)) (view (emit type info ec ep l))"
    using assms by (simp add: lc_done)
qed simp_all

lemma transition_step:
  assumes "lifecycle_step (view l) (Entered st (m_generation l)) ((view l)\<lparr> lc_state := st \<rparr>)"
  shows "advances view l (transition_to st l)"
proof -
  have "view (transition_to st l) = (view l)\<lparr> lc_state := m_state (transition_to st l) \<rparr>"
    by (rule view_state) (simp_all add: transition_to_def emit_def)
  then have "view (transition_to st l) = (view l)\<lparr> lc_state := st \<rparr>"
    by (simp add: transition_to_def emit_def)
  with assms show ?thesis
    unfolding transition_to_def
    by (intro advances_emit) (simp_all add: status_of_def lifecycle_run_single)
qed

lemma enter_running: "m_state l = listener_starting \<Longrightarrow> advances view l (transition_to listener_running l)"
  using lc_run [of "view l"] by (intro transition_step) (simp add: shows_state)

lemma enter_stopping:
  "m_state l \<noteq> listener_stopping \<Longrightarrow> m_state l \<noteq> listener_stopped \<Longrightarrow>
     advances view l (transition_to listener_stopping l)"
  using lc_stop [of "view l"] by (intro transition_step) (simp add: shows_state)

lemma enter_stopped:
  "m_state l = listener_starting \<or> m_state l = listener_stopping \<Longrightarrow> lc_sessions (view l) = 0 \<Longrightarrow>
     advances view l (transition_to listener_stopped l)"
  using lc_stopped [of "view l"] by (intro transition_step) (simp add: shows_state)

lemma enter_starting:
  assumes "m_state l = listener_idle \<or> m_state l = listener_stopped" and "lc_sessions (view l) = 0"
    and "listener_base.more l' = listener_base.more l" "m_options l' = m_options l"
    and "m_generation l' = m_generation l + 1" "m_observers l' = m_observers l" "events l' = events l"
  shows "advances view l (transition_to listener_starting l')"
proof -
  let ?l = "transition_to listener_starting l'"
  have "view ?l = (view l)\<lparr> lc_state := m_state ?l, lc_generation := m_generation ?l \<rparr>"
    by (rule only_state) (use assms in \<open>simp_all add: transition_to_def emit_def\<close>)
  then have "view ?l = (view l)\<lparr> lc_state := listener_starting, lc_generation := lc_generation (view l) + 1 \<rparr>"
    using assms by (simp add: transition_to_def emit_def shows_state)
  moreover have "lifecycle_step (view l) (Entered listener_starting (lc_generation (view l) + 1))
      ((view l)\<lparr> lc_state := listener_starting, lc_generation := lc_generation (view l) + 1 \<rparr>)"
    by (rule lc_start) (use assms in \<open>simp_all add: shows_state\<close>)
  ultimately show ?thesis
    unfolding transition_to_def
    by (intro advances_emit) (use assms in \<open>simp_all add: status_of_def lifecycle_run_single shows_state\<close>)
qed

end

end
