(* ===== verification/Serveza_Connection.thy ===== *)
theory Serveza_Connection
  imports Serveza_Status
begin

text \<open>
  One accepted connection: \<open>connection_state\<close> of \<^verbatim>\<open>src/include/serveza/listener.h\<close>, the
  context it hands to the session, and the session adapters of \<^verbatim>\<open>callback_session.h\<close>,
  \<^verbatim>\<open>yield_session.h\<close> and \<^verbatim>\<open>awaitable_session.h\<close>.  \<open>session_state\<close> of
  \<^verbatim>\<open>basic_socket_listener.h\<close> has the same members and the same code.

  The session is user code.  What it can do to the connection is to report an exception
  through its context and to invoke its completion handler.
\<close>

record connection =
  conn_info :: connection_info
  conn_listener_id :: u64
  conn_socket_open :: bool
  conn_cancelled :: bool
  conn_ep :: exception_ptr
  conn_finished :: bool

definition new_connection :: "u64 \<Rightarrow> connection_info \<Rightarrow> connection" where
  "new_connection listener_id info =
     \<lparr> conn_info = info, conn_listener_id = listener_id, conn_socket_open = True,
       conn_cancelled = False, conn_ep = None, conn_finished = False \<rparr>"

definition close_now :: "connection \<Rightarrow> connection" where
  "close_now c = c\<lparr> conn_socket_open := False \<rparr>"

text \<open>
  \<open>finish\<close> gives the new state and what it passes to the owner's \<open>session_finished\<close>, once.
\<close>

definition connection_finish ::
    "error_code \<Rightarrow> exception_ptr \<Rightarrow> connection \<Rightarrow>
     connection \<times> (connection_info \<times> error_code \<times> exception_ptr) option" where
  "connection_finish ec ep c =
     (if conn_finished c then (c, None)
      else (close_now (c\<lparr> conn_finished := True \<rparr>), Some (conn_info c, ec, ep)))"

text \<open>The function object that \<open>start\<close> passes to \<open>async_run\<close> as completion handler.\<close>

definition connection_complete ::
    "error_code \<Rightarrow> connection \<Rightarrow>
     connection \<times> (connection_info \<times> error_code \<times> exception_ptr) option" where
  "connection_complete ec c = connection_finish ec (conn_ep c) (c\<lparr> conn_ep := None \<rparr>)"

text \<open>The function object that \<open>request_stop\<close> posts: cancel the session and the socket.\<close>

definition connection_cancel :: "connection \<Rightarrow> connection" where
  "connection_cancel c = c\<lparr> conn_cancelled := True \<rparr>"

text \<open>
  The reporter the constructor installs in the context stores the exception;
  \<open>session_context::report_exception\<close> goes through \<open>report_exception\<close>.
\<close>

definition store_exception :: "exception_ptr \<Rightarrow> connection \<Rightarrow> exception_ptr \<times> connection" where
  "store_exception ep c = (None, c\<lparr> conn_ep := ep \<rparr>)"

definition context_report_exception :: "exception_ptr \<Rightarrow> connection \<Rightarrow> connection" where
  "context_report_exception ep c = report_exception (Some store_exception) ep c"

text \<open>
  The adapters.  A callback session passes the handler through: the function completes with
  an error code of its own.  A stackful coroutine and an awaitable end with an exception
  pointer, null on a normal return: it is converted, reported and the handler is invoked.
\<close>

definition callback_session_complete ::
    "error_code \<Rightarrow> connection \<Rightarrow>
     connection \<times> (connection_info \<times> error_code \<times> exception_ptr) option" where
  "callback_session_complete ec c = connection_complete ec c"

definition yield_session_complete ::
    "exception_ptr \<Rightarrow> connection \<Rightarrow>
     connection \<times> (connection_info \<times> error_code \<times> exception_ptr) option" where
  "yield_session_complete ep c =
     (let ec = exception_to_error ep
      in connection_complete ec (context_report_exception ep c))"

definition awaitable_session_complete ::
    "exception_ptr \<Rightarrow> connection \<Rightarrow>
     connection \<times> (connection_info \<times> error_code \<times> exception_ptr) option" where
  "awaitable_session_complete ep c =
     (let ec = exception_to_error ep
      in connection_complete ec (context_report_exception ep c))"

text \<open>The reference: how a finished session is reported for the way its body ended.\<close>

fun session_outcome :: "exception_ptr \<Rightarrow> error_code \<times> exception_ptr" where
  "session_outcome None = (no_error, None)"
| "session_outcome (Some (system_error code)) = (code, Some (system_error code))"
| "session_outcome (Some (other_exception n)) = (io_error, Some (other_exception n))"

lemma context_report_exception_simp [simp]:
  "context_report_exception ep c = c\<lparr> conn_ep := ep \<rparr>"
  by (simp add: context_report_exception_def store_exception_def)

lemma connection_finish_result:
  "conn_info (fst (connection_finish ec ep c)) = conn_info c"
  "conn_finished (fst (connection_finish ec ep c))"
  "snd (connection_finish ec ep c) = (if conn_finished c then None else Some (conn_info c, ec, ep))"
  by (simp_all add: connection_finish_def close_now_def)

lemma connection_complete_result:
  "conn_info (fst (connection_complete ec c)) = conn_info c"
  "conn_finished (fst (connection_complete ec c))"
  "snd (connection_complete ec c) = (if conn_finished c then None else Some (conn_info c, ec, conn_ep c))"
  by (simp_all add: connection_complete_def connection_finish_result)

text \<open>
  A coroutine session that ends is reported to its listener with the error its exception
  converts to and with the exception itself, for both coroutine adapters alike; the socket
  is closed, and a connection that finished before reports nothing more.
\<close>

lemma coroutine_session_outcome:
  "yield_session_complete ep c =
     (if conn_finished c then (c\<lparr> conn_ep := None \<rparr>, None)
      else (c\<lparr> conn_ep := None, conn_finished := True, conn_socket_open := False \<rparr>,
            Some (conn_info c, session_outcome ep)))
   \<and> awaitable_session_complete ep c = yield_session_complete ep c"
  by (cases ep rule: session_outcome.cases)
    (simp_all add: yield_session_complete_def awaitable_session_complete_def
      connection_complete_def connection_finish_def close_now_def)

end
