(* ===== verification/Serveza_Acceptor.thy ===== *)
theory Serveza_Acceptor
  imports Serveza_Listener Serveza_Connection
begin

text \<open>
  The accepting listener: \<open>basic_acceptor_listener\<close> of \<^verbatim>\<open>src/include/serveza/listener.h\<close>.

  Every function object the class hands to Asio is a constructor of \<open>acceptor_task\<close>, with
  what the C++ lambda captures.  The results of the calls into Asio and into user code that
  one step makes are the fields of the record \<open>asio\<close>, an argument of the operations.
  Connections are heap objects: \<open>conns\<close> is the heap, a connection is named by its index,
  and \<open>m_sessions\<close> holds such names.
\<close>

datatype 'h acceptor_task =
    Start_task nat 'h                 \<comment> \<open>posted by \<open>do_async_start\<close>\<close>
  | Wait_task u64 nat 'h              \<comment> \<open>posted by \<open>do_async_wait\<close>\<close>
  | Cancel_wait_task u64              \<comment> \<open>posted by the cancellation callback of a wait\<close>
  | Stop_task                         \<comment> \<open>posted by \<open>request_stop\<close>\<close>
  | Accept_handler                    \<comment> \<open>passed to \<open>async_accept\<close>\<close>
  | Retry_handler bool "int option"   \<comment> \<open>waits on the retry timer: cancelled?, its delay\<close>
  | Shutdown_handler bool int         \<comment> \<open>waits on the shutdown timer: cancelled?, its delay\<close>
  | Session_finished_task connection_info error_code exception_ptr
  | Conn_start nat                    \<comment> \<open>\<open>connection->start()\<close>\<close>
  | Conn_cancel nat                   \<comment> \<open>posted by \<open>connection->request_stop()\<close>\<close>
  | Conn_force nat                    \<comment> \<open>posted by \<open>connection->force_close()\<close>\<close>
  | Conn_handler nat                  \<comment> \<open>the completion handler the session holds\<close>

record 'h acceptor = "('h, 'h acceptor_task) listener_base" +
  m_acceptor_open :: bool
  m_next_connection_id :: u64
  m_consecutive_accept_errors :: usize
  m_accept_pending :: bool
  m_sessions :: "nat list"
  conns :: "connection list"

record asio =
  r_ec :: error_code                       \<comment> \<open>the error passed to the handler that runs\<close>
  r_post :: exception_ptr                  \<comment> \<open>thrown by the post of an initiating function\<close>
  r_open :: error_code
  r_set_v6_only :: error_code
  r_set_reuse_address :: error_code
  r_bind :: error_code
  r_listen :: error_code
  r_local_endpoint :: "error_code \<times> endpoint"
  r_remote_endpoint :: "error_code \<times> endpoint"
  r_async_accept :: exception_ptr          \<comment> \<open>thrown while initiating an accept\<close>
  r_factory :: exception_ptr               \<comment> \<open>thrown while creating the session\<close>
  r_start_post :: bool                     \<comment> \<open>the post of the start of a session throws\<close>
  r_stop_post :: "nat \<Rightarrow> bool"             \<comment> \<open>the post of \<open>request_stop\<close> throws\<close>
  r_force_post :: "nat \<Rightarrow> bool"            \<comment> \<open>the post of \<open>force_close\<close> throws\<close>
  r_notify_owner :: "nat \<Rightarrow> bool"          \<comment> \<open>the owner is alive and its executor accepts the post\<close>
  r_async_run :: exception_ptr             \<comment> \<open>thrown by the session's \<open>async_run\<close>\<close>
  r_retry_timer :: exception_ptr           \<comment> \<open>thrown while arming the retry timer\<close>
  r_shutdown_timer :: exception_ptr        \<comment> \<open>thrown while arming the shutdown timer\<close>

definition all_succeed :: asio where
  "all_succeed =
     \<lparr> r_ec = no_error, r_post = None, r_open = no_error, r_set_v6_only = no_error,
       r_set_reuse_address = no_error, r_bind = no_error, r_listen = no_error,
       r_local_endpoint = (no_error, opaque_endpoint),
       r_remote_endpoint = (no_error, opaque_endpoint),
       r_async_accept = None, r_factory = None, r_start_post = False,
       r_stop_post = (\<lambda>_. False), r_force_post = (\<lambda>_. False), r_notify_owner = (\<lambda>_. True),
       r_async_run = None, r_retry_timer = None, r_shutdown_timer = None \<rparr>"

text \<open>The constructor: the members are initialised first, then the options are validated.\<close>

definition fresh_acceptor ::
    "u64 \<Rightarrow> bool \<Rightarrow> endpoint \<Rightarrow> listener_options \<Rightarrow> 'h acceptor" where
  "fresh_acceptor ident observers endpoint options =
     \<lparr> m_id = ident, m_observers = observers, m_configured_endpoint = endpoint,
       m_options = options, m_endpoint = endpoint_string endpoint,
       m_stop_reason = reason_none, m_last_error = no_error, m_last_exception = None,
       m_state = listener_idle, m_generation = 0, m_active_sessions = 0,
       m_next_waiter_id = 0, m_terminal_error = no_error, m_waiters = [],
       flags = [], slots = [], pending = [], completions = [], events = [],
       m_acceptor_open = False, m_next_connection_id = 0,
       m_consecutive_accept_errors = 0, m_accept_pending = False,
       m_sessions = [], conns = [] \<rparr>"

definition new_acceptor ::
    "u64 \<Rightarrow> bool \<Rightarrow> endpoint \<Rightarrow> listener_options \<Rightarrow> argument_error + 'h acceptor" where
  "new_acceptor ident observers endpoint options =
     (case validate_acceptor_options options of
        Inl e \<Rightarrow> Inl e
      | Inr _ \<Rightarrow> Inr (fresh_acceptor ident observers endpoint options))"

subsection \<open>Timers\<close>

text \<open>
  Cancelling a timer, or setting a new expiry, cancels the waits on it.  A wait that was
  cancelled completes with \<open>operation_aborted\<close>, or without error if it had expired before; a
  wait that was not cancelled completes without error.
\<close>

fun cancel_retry_wait :: "'h acceptor_task \<Rightarrow> 'h acceptor_task" where
  "cancel_retry_wait (Retry_handler c d) = Retry_handler True d"
| "cancel_retry_wait t = t"

fun cancel_shutdown_wait :: "'h acceptor_task \<Rightarrow> 'h acceptor_task" where
  "cancel_shutdown_wait (Shutdown_handler c d) = Shutdown_handler True d"
| "cancel_shutdown_wait t = t"

definition cancel_retry_timer :: "'h acceptor \<Rightarrow> 'h acceptor" where
  "cancel_retry_timer l = l\<lparr> pending := map cancel_retry_wait (pending l) \<rparr>"

definition cancel_shutdown_timer :: "'h acceptor \<Rightarrow> 'h acceptor" where
  "cancel_shutdown_timer l = l\<lparr> pending := map cancel_shutdown_wait (pending l) \<rparr>"

subsection \<open>Connections of the listener\<close>

definition notify_owner ::
    "nat \<Rightarrow> connection \<times> (connection_info \<times> error_code \<times> exception_ptr) option \<Rightarrow>
     asio \<Rightarrow> 'h acceptor \<Rightarrow> 'h acceptor" where
  "notify_owner a result r l =
     l\<lparr> conns := (conns l)[a := fst result],
        pending := pending l @
          (case snd result of
             Some (info, ec, ep) \<Rightarrow>
               if r_notify_owner r a then [Session_finished_task info ec ep] else []
           | None \<Rightarrow> []) \<rparr>"

definition conn_finish ::
    "nat \<Rightarrow> error_code \<Rightarrow> exception_ptr \<Rightarrow> asio \<Rightarrow> 'h acceptor \<Rightarrow> 'h acceptor" where
  "conn_finish a ec ep r l = notify_owner a (connection_finish ec ep (conns l ! a)) r l"

definition conn_force_close :: "asio \<Rightarrow> nat \<Rightarrow> 'h acceptor \<Rightarrow> 'h acceptor" where
  "conn_force_close r a l =
     (if r_force_post r a then conn_finish a operation_aborted None r l
      else post (Conn_force a) l)"

definition conn_request_stop :: "asio \<Rightarrow> nat \<Rightarrow> 'h acceptor \<Rightarrow> 'h acceptor" where
  "conn_request_stop r a l =
     (if r_stop_post r a then conn_force_close r a l else post (Conn_cancel a) l)"

definition conn_start :: "nat \<Rightarrow> asio \<Rightarrow> 'h acceptor \<Rightarrow> 'h acceptor" where
  "conn_start a r l =
     (let l1 = post (Conn_handler a) l
      in case r_async_run r of
           None \<Rightarrow> l1
         | Some e \<Rightarrow> conn_finish a (exception_to_error (Some e)) (Some e) r l1)"

subsection \<open>Stopping\<close>

definition acceptor_finish ::
    "error_code \<Rightarrow> listener_stop_reason \<Rightarrow> 'h acceptor \<Rightarrow> 'h acceptor" where
  "acceptor_finish ec reason l =
     (if m_state l = listener_stopped then l
      else let l = l\<lparr> m_terminal_error := ec \<rparr>;
               l = set_stop_reason reason l;
               l = keep_first_error ec l;
               l = l\<lparr> m_acceptor_open := False \<rparr>;
               l = cancel_retry_timer l;
               l = cancel_shutdown_timer l;
               l = transition_to listener_stopped l
           in release_waiters l)"

definition acceptor_maybe_finish :: "'h acceptor \<Rightarrow> 'h acceptor" where
  "acceptor_maybe_finish l =
     (if m_state l = listener_stopping \<and> \<not> m_accept_pending l \<and> m_sessions l = []
      then acceptor_finish (m_terminal_error l) (m_stop_reason l) l
      else l)"

text \<open>The part of \<open>begin_stop\<close> that stops a starting or running listener.\<close>

definition acceptor_enter_stopping ::
    "error_code \<Rightarrow> listener_stop_reason \<Rightarrow> 'h acceptor \<Rightarrow> 'h acceptor" where
  "acceptor_enter_stopping ec reason l =
     (let l = l\<lparr> m_terminal_error := ec \<rparr>;
          l = set_stop_reason reason l;
          l = transition_to listener_stopping l;
          l = l\<lparr> m_acceptor_open := False \<rparr>
      in cancel_retry_timer l)"

definition acceptor_arm_shutdown :: "asio \<Rightarrow> 'h acceptor \<Rightarrow> 'h acceptor" where
  "acceptor_arm_shutdown r l =
     (if m_sessions l = [] then l
      else case r_shutdown_timer r of
             None \<Rightarrow>
               post (Shutdown_handler False (shutdown_grace_period (m_options l)))
                 (cancel_shutdown_timer l)
           | Some _ \<Rightarrow> fold (conn_force_close r) (m_sessions l) l)"

definition acceptor_stop_sessions :: "asio \<Rightarrow> 'h acceptor \<Rightarrow> 'h acceptor" where
  "acceptor_stop_sessions r l =
     acceptor_arm_shutdown r (fold (conn_request_stop r) (m_sessions l) l)"

definition acceptor_begin_stop ::
    "error_code \<Rightarrow> listener_stop_reason \<Rightarrow> asio \<Rightarrow> 'h acceptor \<Rightarrow> 'h acceptor" where
  "acceptor_begin_stop ec reason r l =
     (if m_state l = listener_idle
      then let l = l\<lparr> m_terminal_error := ec \<rparr>;
               l = set_stop_reason reason l;
               l = transition_to listener_stopping l
           in acceptor_finish ec reason l
      else if m_state l \<noteq> listener_starting \<and> m_state l \<noteq> listener_running then l
      else acceptor_maybe_finish
             (acceptor_stop_sessions r (acceptor_enter_stopping ec reason l)))"

definition acceptor_stop_on_strand :: "asio \<Rightarrow> 'h acceptor \<Rightarrow> 'h acceptor" where
  "acceptor_stop_on_strand r l = acceptor_begin_stop no_error requested r l"

definition acceptor_shutdown_expired :: "error_code \<Rightarrow> asio \<Rightarrow> 'h acceptor \<Rightarrow> 'h acceptor" where
  "acceptor_shutdown_expired timer_ec r l =
     (if failed timer_ec then l
      else let l = record_diagnostic timed_out None l;
               l = emit shutdown_forced no_connection timed_out None l
           in fold (conn_force_close r) (m_sessions l) l)"

subsection \<open>Accepting\<close>

text \<open>The handling of an exception while an accept is initiated.\<close>

definition acceptor_accept_throws :: "exn \<Rightarrow> 'h acceptor \<Rightarrow> 'h acceptor" where
  "acceptor_accept_throws e l =
     (let l = l\<lparr> m_accept_pending := False \<rparr>;
          ec = exception_to_error (Some e);
          l = record_diagnostic ec (Some e) l
      in emit accept_failed no_connection ec (Some e) l)"

definition acceptor_accept_next ::
    "listener_stop_reason \<Rightarrow> asio \<Rightarrow> 'h acceptor \<Rightarrow> error_code \<times> 'h acceptor" where
  "acceptor_accept_next failure_reason r l =
     (if (m_state l \<noteq> listener_starting \<and> m_state l \<noteq> listener_running) \<or> m_accept_pending l
      then (no_error, acceptor_maybe_finish l)
      else if length (m_sessions l) \<ge> unat (max_active_sessions (m_options l))
      then (no_error, l)
      else let l = l\<lparr> m_accept_pending := True \<rparr>
           in case r_async_accept r of
                None \<Rightarrow> (no_error, post Accept_handler l)
              | Some e \<Rightarrow>
                  (exception_to_error (Some e),
                   acceptor_begin_stop (exception_to_error (Some e)) failure_reason r
                     (acceptor_accept_throws e l)))"

definition acceptor_report_accept_error :: "error_code \<Rightarrow> 'h acceptor \<Rightarrow> 'h acceptor" where
  "acceptor_report_accept_error accept_ec l =
     emit accept_failed no_connection accept_ec None (record_diagnostic accept_ec None l)"

definition acceptor_arm_retry :: "asio \<Rightarrow> 'h acceptor \<Rightarrow> 'h acceptor" where
  "acceptor_arm_retry r l =
     (case r_retry_timer r of
        None \<Rightarrow>
          post (Retry_handler False
                  (accept_retry_delay (m_options l) (m_consecutive_accept_errors l)))
            (cancel_retry_timer l)
      | Some e \<Rightarrow>
          acceptor_begin_stop (exception_to_error (Some e)) runtime_failure r
            (record_diagnostic (exception_to_error (Some e)) (Some e) l))"

definition acceptor_retry_accept :: "error_code \<Rightarrow> asio \<Rightarrow> 'h acceptor \<Rightarrow> 'h acceptor" where
  "acceptor_retry_accept accept_ec r l =
     (let l = acceptor_report_accept_error accept_ec l
      in if \<not> is_transient_accept_error accept_ec
         then acceptor_begin_stop accept_ec runtime_failure r l
         else let l = l\<lparr> m_consecutive_accept_errors := m_consecutive_accept_errors l + 1 \<rparr>
              in if m_consecutive_accept_errors l \<ge> max_consecutive_accept_errors (m_options l)
                 then acceptor_begin_stop accept_ec runtime_failure r l
                 else acceptor_arm_retry r l)"

definition acceptor_retry_expired :: "error_code \<Rightarrow> asio \<Rightarrow> 'h acceptor \<Rightarrow> 'h acceptor" where
  "acceptor_retry_expired ec r l =
     (if ec = operation_aborted then acceptor_maybe_finish l
      else if failed ec then acceptor_begin_stop ec runtime_failure r l
      else snd (acceptor_accept_next runtime_failure r l))"

definition printed_endpoint :: "error_code \<times> endpoint \<Rightarrow> string" where
  "printed_endpoint result = (if failed (fst result) then [] else endpoint_string (snd result))"

definition accepted_info :: "asio \<Rightarrow> 'h acceptor \<Rightarrow> connection_info" where
  "accepted_info r l =
     \<lparr> ci_id = m_next_connection_id l,
       ci_local_endpoint = printed_endpoint (r_local_endpoint r),
       ci_remote_endpoint = printed_endpoint (r_remote_endpoint r) \<rparr>"

definition acceptor_factory_failed :: "connection_info \<Rightarrow> exn \<Rightarrow> 'h acceptor \<Rightarrow> 'h acceptor" where
  "acceptor_factory_failed info e l =
     (let factory_ec = exception_to_error (Some e);
          l = record_diagnostic factory_ec (Some e) l
      in emit session_factory_failed info factory_ec (Some e) l)"

definition acceptor_add_session :: "connection_info \<Rightarrow> 'h acceptor \<Rightarrow> 'h acceptor" where
  "acceptor_add_session info l =
     (let a = length (conns l);
          l = l\<lparr> conns := conns l @ [new_connection (m_id l) info] \<rparr>;
          l = l\<lparr> m_sessions := m_sessions l @ [a] \<rparr>;
          l = l\<lparr> m_active_sessions := m_active_sessions l + 1 \<rparr>
      in emit session_started info no_error None l)"

definition acceptor_launch_session :: "nat \<Rightarrow> asio \<Rightarrow> 'h acceptor \<Rightarrow> 'h acceptor" where
  "acceptor_launch_session a r l =
     (if r_start_post r then conn_force_close r a l else post (Conn_start a) l)"

definition acceptor_accepted :: "error_code \<Rightarrow> asio \<Rightarrow> 'h acceptor \<Rightarrow> 'h acceptor" where
  "acceptor_accepted ec r l =
     (let l = l\<lparr> m_accept_pending := False \<rparr>
      in if m_state l \<noteq> listener_running then acceptor_maybe_finish l
         else if failed ec then acceptor_retry_accept ec r l
         else let l = l\<lparr> m_consecutive_accept_errors := 0,
                         m_next_connection_id := m_next_connection_id l + 1 \<rparr>;
                  info = accepted_info r l
              in snd (acceptor_accept_next runtime_failure r
                   (case r_factory r of
                      Some e \<Rightarrow> acceptor_factory_failed info e l
                    | None \<Rightarrow>
                        acceptor_launch_session (length (conns l)) r
                          (acceptor_add_session info l))))"

text \<open>The bookkeeping of a finished session: the first one with its identifier is erased.\<close>

definition acceptor_erase_session :: "connection_info \<Rightarrow> 'h acceptor \<Rightarrow> 'h acceptor" where
  "acceptor_erase_session info l =
     (case find (\<lambda>value. ci_id (conn_info (conns l ! value)) = ci_id info) (m_sessions l) of
        Some item \<Rightarrow>
          l\<lparr> m_sessions := remove1 item (m_sessions l),
             m_active_sessions := m_active_sessions l - 1 \<rparr>
      | None \<Rightarrow> l)"

definition acceptor_report_finished ::
    "connection_info \<Rightarrow> error_code \<Rightarrow> exception_ptr \<Rightarrow> 'h acceptor \<Rightarrow> 'h acceptor" where
  "acceptor_report_finished info ec ep l =
     emit session_stopped info ec ep
       (if ec \<noteq> operation_aborted \<and> (failed ec \<or> ep \<noteq> None)
        then record_diagnostic ec ep l else l)"

definition acceptor_session_finished ::
    "connection_info \<Rightarrow> error_code \<Rightarrow> exception_ptr \<Rightarrow> asio \<Rightarrow> 'h acceptor \<Rightarrow> 'h acceptor" where
  "acceptor_session_finished info ec ep r l =
     (let l = acceptor_report_finished info ec ep (acceptor_erase_session info l)
      in acceptor_maybe_finish
           (if m_state l = listener_running
            then snd (acceptor_accept_next runtime_failure r l) else l))"

subsection \<open>Starting\<close>

text \<open>The chain of calls that configure the acceptor, each made only if no earlier one failed.\<close>

definition acceptor_configure :: "endpoint \<Rightarrow> asio \<Rightarrow> error_code" where
  "acceptor_configure configured r =
     (let ec = r_open r;
          ec = (if has_ip_endpoint configured
                then let ec = (if \<not> failed ec \<and> ip_is_v6 configured then r_set_v6_only r else ec)
                     in if \<not> failed ec then r_set_reuse_address r else ec
                else ec);
          ec = (if \<not> failed ec then r_bind r else ec)
      in if \<not> failed ec then r_listen r else ec)"

definition acceptor_enter_starting :: "'h acceptor \<Rightarrow> 'h acceptor" where
  "acceptor_enter_starting l =
     (let l = l\<lparr> m_generation := m_generation l + 1 \<rparr>;
          l = l\<lparr> m_terminal_error := no_error \<rparr>;
          l = clear_diagnostics l
      in transition_to listener_starting l)"

definition acceptor_publish_endpoint :: "asio \<Rightarrow> 'h acceptor \<Rightarrow> 'h acceptor" where
  "acceptor_publish_endpoint r l =
     l\<lparr> m_endpoint := (if failed (fst (r_local_endpoint r)) then m_endpoint l
                       else endpoint_string (snd (r_local_endpoint r))) \<rparr>"

definition acceptor_start_on_strand :: "'h \<Rightarrow> asio \<Rightarrow> 'h acceptor \<Rightarrow> 'h acceptor" where
  "acceptor_start_on_strand handler r l =
     (if m_state l = listener_running then complete handler no_error l
      else if m_state l \<noteq> listener_idle \<and> m_state l \<noteq> listener_stopped
      then complete handler operation_aborted l
      else let l = (acceptor_enter_starting l)\<lparr> m_acceptor_open := \<not> failed (r_open r) \<rparr>;
               ec = acceptor_configure (m_configured_endpoint l) r
           in if failed ec
              then acceptor_finish ec startup_failure (complete handler ec l)
              else let accepting = acceptor_accept_next startup_failure r
                                     (acceptor_publish_endpoint r l)
                   in if failed (fst accepting)
                      then complete handler (fst accepting) (snd accepting)
                      else complete handler no_error
                             (transition_to listener_running (snd accepting)))"

subsection \<open>Initiating functions and cancellation\<close>

text \<open>
  \<open>connected\<close> says whether a cancellation slot is associated with the handler.  When the post
  throws, the handler is completed on its associated executor.
\<close>

definition acceptor_do_async_start :: "'h \<Rightarrow> bool \<Rightarrow> asio \<Rightarrow> 'h acceptor \<Rightarrow> 'h acceptor" where
  "acceptor_do_async_start handler connected r l =
     (let cancelled = length (flags l);
          l = l\<lparr> flags := flags l @ [False] \<rparr>;
          l = (if connected then l\<lparr> slots := slots l @ [(cancelled, None)] \<rparr> else l)
      in case r_post r of
           None \<Rightarrow> post (Start_task cancelled handler) l
         | Some e \<Rightarrow> complete handler (exception_to_error (Some e)) l)"

definition acceptor_start_task :: "nat \<Rightarrow> 'h \<Rightarrow> asio \<Rightarrow> 'h acceptor \<Rightarrow> 'h acceptor" where
  "acceptor_start_task cancelled handler r l =
     (let l = clear_slot cancelled l
      in if flags l ! cancelled then complete handler operation_aborted l
         else acceptor_start_on_strand handler r l)"

definition acceptor_do_async_wait :: "'h \<Rightarrow> bool \<Rightarrow> asio \<Rightarrow> 'h acceptor \<Rightarrow> 'h acceptor" where
  "acceptor_do_async_wait handler connected r l =
     (let ident = m_next_waiter_id l + 1;
          l = l\<lparr> m_next_waiter_id := ident \<rparr>;
          cancelled = length (flags l);
          l = l\<lparr> flags := flags l @ [False] \<rparr>;
          l = (if connected then l\<lparr> slots := slots l @ [(cancelled, Some ident)] \<rparr> else l)
      in case r_post r of
           None \<Rightarrow> post (Wait_task ident cancelled handler) l
         | Some e \<Rightarrow> complete handler (exception_to_error (Some e)) (clear_slot cancelled l))"

definition acceptor_wait_task :: "u64 \<Rightarrow> nat \<Rightarrow> 'h \<Rightarrow> 'h acceptor \<Rightarrow> 'h acceptor" where
  "acceptor_wait_task ident cancelled handler l =
     (if flags l ! cancelled
      then complete handler operation_aborted (clear_slot cancelled l)
      else if m_state l = listener_stopped
      then complete handler (m_terminal_error l) (clear_slot cancelled l)
      else l\<lparr> m_waiters := m_waiters l @
                [\<lparr> w_id = ident, w_cancelled = cancelled, w_handler = handler \<rparr>] \<rparr>)"

text \<open>
  The callbacks installed in a slot, run by emitting a cancellation whose type is not
  \<open>none\<close>.  The listener is alive while the slot of one of its waits is installed, and a
  post that throws there is dropped.
\<close>

definition acceptor_emit_cancellation :: "nat \<times> u64 option \<Rightarrow> asio \<Rightarrow> 'h acceptor \<Rightarrow> 'h acceptor" where
  "acceptor_emit_cancellation slot r l =
     (let l = l\<lparr> flags := (flags l)[fst slot := True] \<rparr>
      in case snd slot of
           None \<Rightarrow> l
         | Some ident \<Rightarrow>
             (case r_post r of None \<Rightarrow> post (Cancel_wait_task ident) l | Some _ \<Rightarrow> l))"

definition acceptor_request_stop :: "asio \<Rightarrow> 'h acceptor \<Rightarrow> 'h acceptor" where
  "acceptor_request_stop r l =
     (if m_state l = listener_stopped then l
      else case r_post r of None \<Rightarrow> post Stop_task l | Some _ \<Rightarrow> l)"

subsection \<open>Runs\<close>

fun run_task :: "'h acceptor_task \<Rightarrow> asio \<Rightarrow> 'h acceptor \<Rightarrow> 'h acceptor" where
  "run_task (Start_task cancelled handler) r l = acceptor_start_task cancelled handler r l"
| "run_task (Wait_task ident cancelled handler) r l = acceptor_wait_task ident cancelled handler l"
| "run_task (Cancel_wait_task ident) r l = cancel_wait ident l"
| "run_task Stop_task r l = acceptor_stop_on_strand r l"
| "run_task Accept_handler r l = acceptor_accepted (r_ec r) r l"
| "run_task (Retry_handler c d) r l = acceptor_retry_expired (r_ec r) r l"
| "run_task (Shutdown_handler c d) r l = acceptor_shutdown_expired (r_ec r) r l"
| "run_task (Session_finished_task info ec ep) r l = acceptor_session_finished info ec ep r l"
| "run_task (Conn_start a) r l = conn_start a r l"
| "run_task (Conn_cancel a) r l = l\<lparr> conns := (conns l)[a := connection_cancel (conns l ! a)] \<rparr>"
| "run_task (Conn_force a) r l = conn_finish a operation_aborted None r l"
| "run_task (Conn_handler a) r l = notify_owner a (connection_complete (r_ec r) (conns l ! a)) r l"

datatype 'h acceptor_action =
    Call_async_start 'h bool
  | Call_async_wait 'h bool
  | Call_request_stop
  | Emit_cancellation "nat \<times> u64 option"
  | Report_exception nat exception_ptr
  | Run "'h acceptor_task"

fun acceptor_enabled :: "'h acceptor_action \<Rightarrow> asio \<Rightarrow> 'h acceptor \<Rightarrow> bool" where
  "acceptor_enabled (Emit_cancellation slot) r l = (slot \<in> set (slots l))"
| "acceptor_enabled (Report_exception a ep) r l = (a < length (conns l))"
| "acceptor_enabled (Run t) r l =
     (t \<in> set (pending l) \<and>
      (case t of
         Retry_handler c d \<Rightarrow> timer_delivers c (r_ec r)
       | Shutdown_handler c d \<Rightarrow> timer_delivers c (r_ec r)
       | _ \<Rightarrow> True))"
| "acceptor_enabled _ r l = True"

fun acceptor_do :: "'h acceptor_action \<Rightarrow> asio \<Rightarrow> 'h acceptor \<Rightarrow> 'h acceptor" where
  "acceptor_do (Call_async_start handler connected) r l =
     acceptor_do_async_start handler connected r l"
| "acceptor_do (Call_async_wait handler connected) r l =
     acceptor_do_async_wait handler connected r l"
| "acceptor_do Call_request_stop r l = acceptor_request_stop r l"
| "acceptor_do (Emit_cancellation slot) r l = acceptor_emit_cancellation slot r l"
| "acceptor_do (Report_exception a ep) r l =
     l\<lparr> conns := (conns l)[a := context_report_exception ep (conns l ! a)] \<rparr>"
| "acceptor_do (Run t) r l = run_task t r (l\<lparr> pending := remove1 t (pending l) \<rparr>)"

text \<open>
  Asio's exceptions carry an error.  An exception from the initiation of an accept that
  converted to success would be taken for success.
\<close>

definition asio_throws_errors :: "asio \<Rightarrow> bool" where
  "asio_throws_errors r \<longleftrightarrow>
     (r_async_accept r \<noteq> None \<longrightarrow> failed (exception_to_error (r_async_accept r)))"

inductive acceptor_step :: "'h acceptor \<Rightarrow> 'h acceptor \<Rightarrow> bool" where
  acceptor_stepI: "asio_throws_errors r \<Longrightarrow> acceptor_enabled x r l \<Longrightarrow>
     acceptor_step l (acceptor_do x r l)"

inductive_cases acceptor_stepE: "acceptor_step l l'"

definition acceptor_init :: "'h acceptor \<Rightarrow> bool" where
  "acceptor_init l \<longleftrightarrow>
     (\<exists>ident observers endpoint options. new_acceptor ident observers endpoint options = Inr l)"

lemma acceptor_initE:
  assumes "acceptor_init l"
  obtains ident observers endpoint options where
    "validate_acceptor_options options = Inr ()"
    "l = fresh_acceptor ident observers endpoint options"
proof -
  obtain i ob e opts where "new_acceptor i ob e opts = Inr l"
    using assms by (auto simp: acceptor_init_def)
  then show thesis
    by (cases "validate_acceptor_options opts") (auto simp: new_acceptor_def intro: that)
qed

text \<open>Scripts: actions with the answers of the environment.\<close>

definition script_enabled :: "'h acceptor_action \<times> asio \<Rightarrow> 'h acceptor \<Rightarrow> bool" where
  "script_enabled xr l \<longleftrightarrow> asio_throws_errors (snd xr) \<and> acceptor_enabled (fst xr) (snd xr) l"

definition script_do :: "'h acceptor_action \<times> asio \<Rightarrow> 'h acceptor \<Rightarrow> 'h acceptor" where
  "script_do xr l = acceptor_do (fst xr) (snd xr) l"

definition acceptor_run ::
    "('h acceptor_action \<times> asio) list \<Rightarrow> 'h acceptor \<Rightarrow> 'h acceptor option" where
  "acceptor_run = run_script script_enabled script_do"

lemma acceptor_run_simps [simp]:
  "acceptor_run [] l = Some l"
  "acceptor_run ((x, r) # script) l =
     (if asio_throws_errors r \<and> acceptor_enabled x r l
      then acceptor_run script (acceptor_do x r l) else None)"
  by (simp_all add: acceptor_run_def script_enabled_def script_do_def)

lemma acceptor_run_steps: "acceptor_run script l = Some l' \<Longrightarrow> acceptor_step\<^sup>*\<^sup>* l l'"
  unfolding acceptor_run_def
  by (erule run_script_steps [rotated]) (simp add: script_enabled_def script_do_def acceptor_stepI)

lemma acceptor_run_reachable:
  assumes "new_acceptor ident observers endpoint options = Inr l"
    and "acceptor_run script l = Some l'"
  shows "reachable acceptor_init acceptor_step l'"
  using assms acceptor_run_steps [OF assms(2)]
  by (intro reachable_rtranclp [OF reach_init]) (auto simp: acceptor_init_def)

text \<open>
  Example runs: a listener for two sessions on a path, started; and the same listener with
  one session, told to stop.
\<close>

definition example_options :: listener_options where
  "example_options = (default_listener_options False)\<lparr> max_active_sessions := 2 \<rparr>"

definition example_start :: "(nat acceptor_action \<times> asio) list" where
  "example_start =
     [(Call_async_start 1 True, all_succeed), (Run (Start_task 0 1), all_succeed),
      (Call_async_wait 2 True, all_succeed), (Run (Wait_task 1 1 2), all_succeed),
      (Run Accept_handler, all_succeed)]"

definition example_stop :: "(nat acceptor_action \<times> asio) list" where
  "example_stop =
     [(Run (Conn_start 0), all_succeed), (Call_request_stop, all_succeed),
      (Run Stop_task, all_succeed)]"

definition example_drain :: "(nat acceptor_action \<times> asio) list" where
  "example_drain =
     [(Run Accept_handler, all_succeed\<lparr> r_ec := operation_aborted \<rparr>),
      (Run (Conn_cancel 0), all_succeed), (Run (Conn_handler 0), all_succeed),
      (Run (Session_finished_task \<lparr> ci_id = 1, ci_local_endpoint = [], ci_remote_endpoint = [] \<rparr>
              no_error None), all_succeed)]"

definition example_acceptor :: "(nat acceptor_action \<times> asio) list \<Rightarrow> nat acceptor" where
  "example_acceptor script =
     the (acceptor_run script (fresh_acceptor 7 True (path_endpoint ''/run/s'') example_options))"

lemma example_options_valid: "validate_acceptor_options example_options = Inr ()"
  by code_simp

lemma example_acceptor_reachable:
  assumes "acceptor_run script (fresh_acceptor 7 True (path_endpoint ''/run/s'') example_options) \<noteq> None"
  shows "reachable acceptor_init acceptor_step (example_acceptor script)"
  using assms
  by (auto simp: example_acceptor_def new_acceptor_def example_options_valid
      intro!: acceptor_run_reachable [of 7 True "path_endpoint ''/run/s''" example_options])

lemma example_runs:
  "acceptor_run example_start
     (fresh_acceptor 7 True (path_endpoint ''/run/s'') example_options) \<noteq> None"
  "acceptor_run (example_start @ example_stop)
     (fresh_acceptor 7 True (path_endpoint ''/run/s'') example_options) \<noteq> None"
  "acceptor_run (example_start @ example_stop @ example_drain)
     (fresh_acceptor 7 True (path_endpoint ''/run/s'') example_options) \<noteq> None"
  by code_simp+

lemma example_states:
  "m_state (example_acceptor example_start) = listener_running"
  "m_state (example_acceptor (example_start @ example_stop)) = listener_stopping"
  "m_state (example_acceptor (example_start @ example_stop @ example_drain)) = listener_stopped"
  "m_sessions (example_acceptor example_start) = [0]"
  "max_active_sessions (m_options (example_acceptor example_start)) = 2"
  by code_simp+

end
