(* ===== verification/Serveza_Acceptor_Inv.thy ===== *)
theory Serveza_Acceptor_Inv
  imports Serveza_Acceptor
begin

text \<open>
  Invariants of the accepting listener.  \<open>counters_ok\<close> relates the counters, the session list
  and the outstanding accept; it holds even in the middle of a handler.  \<open>lifecycle_ok\<close> says
  what each lifecycle state promises between two handlers.
\<close>

abbreviation accept_handlers :: "'h acceptor \<Rightarrow> nat" where
  "accept_handlers l \<equiv> count_list (pending l) Accept_handler"

abbreviation retry_armed :: "'h acceptor \<Rightarrow> bool" where
  "retry_armed l \<equiv> (\<exists>d. Retry_handler False d \<in> set (pending l))"

abbreviation session_limit :: "'h acceptor \<Rightarrow> nat" where
  "session_limit l \<equiv> unat (max_active_sessions (m_options l))"

definition counters_ok :: "'h acceptor \<Rightarrow> bool" where
  "counters_ok l \<longleftrightarrow>
     0 < session_limit l \<and>
     m_active_sessions l = of_nat (length (m_sessions l)) \<and>
     length (m_sessions l) \<le> session_limit l \<and>
     (m_accept_pending l \<longrightarrow> length (m_sessions l) < session_limit l) \<and>
     accept_handlers l = (if m_accept_pending l then 1 else 0)"

definition drained :: "'h acceptor \<Rightarrow> bool" where
  "drained l \<longleftrightarrow> \<not> m_accept_pending l \<and> m_sessions l = []"

definition lifecycle_ok :: "'h acceptor \<Rightarrow> bool" where
  "lifecycle_ok l \<longleftrightarrow>
     (case m_state l of
        listener_idle \<Rightarrow> drained l \<and> \<not> m_acceptor_open l
      | listener_starting \<Rightarrow> False
      | listener_running \<Rightarrow>
          m_acceptor_open l \<and>
          (length (m_sessions l) < session_limit l \<longrightarrow> m_accept_pending l \<or> retry_armed l)
      | listener_stopping \<Rightarrow> \<not> drained l \<and> \<not> m_acceptor_open l
      | listener_stopped \<Rightarrow> drained l \<and> \<not> m_acceptor_open l \<and> m_waiters l = [])"

text \<open>Before \<open>maybe_finish\<close> a stopping listener may have nothing outstanding.\<close>

definition lifecycle_open :: "'h acceptor \<Rightarrow> bool" where
  "lifecycle_open l \<longleftrightarrow> lifecycle_ok l \<or> m_state l = listener_stopping \<and> \<not> m_acceptor_open l"

definition acceptor_inv :: "'h acceptor \<Rightarrow> bool" where
  "acceptor_inv l \<longleftrightarrow> counters_ok l \<and> lifecycle_ok l"

lemma count_list_map_other:
  "(\<And>t. f t = x \<longleftrightarrow> t = x) \<Longrightarrow> count_list (map f xs) x = count_list xs x"
  by (induction xs) auto

lemma cancel_wait_accept [simp]:
  "cancel_retry_wait t = Accept_handler \<longleftrightarrow> t = Accept_handler"
  "cancel_shutdown_wait t = Accept_handler \<longleftrightarrow> t = Accept_handler"
  by (cases t; simp)+

lemma count_cancelled [simp]:
  "count_list (map cancel_retry_wait ts) Accept_handler = count_list ts Accept_handler"
  "count_list (map cancel_shutdown_wait ts) Accept_handler = count_list ts Accept_handler"
  "count_list (map (cancel_shutdown_wait \<circ> cancel_retry_wait) ts) Accept_handler =
     count_list ts Accept_handler"
  by (simp_all add: count_list_map_other)

lemma cancel_shutdown_wait_retry:
  "cancel_shutdown_wait t = Retry_handler c d \<longleftrightarrow> t = Retry_handler c d"
  by (cases t) auto

lemma retry_in_cancelled_shutdown [simp]:
  "Retry_handler c d \<in> cancel_shutdown_wait ` set ts \<longleftrightarrow> Retry_handler c d \<in> set ts"
  by (metis cancel_shutdown_wait_retry image_iff)

text \<open>Stopping the sessions changes connections and adds function objects of connections only.\<close>

fun is_conn_task :: "'h acceptor_task \<Rightarrow> bool" where
  "is_conn_task (Session_finished_task _ _ _) = True"
| "is_conn_task (Conn_start _) = True"
| "is_conn_task (Conn_cancel _) = True"
| "is_conn_task (Conn_force _) = True"
| "is_conn_task (Conn_handler _) = True"
| "is_conn_task _ = False"

definition conn_change :: "'h acceptor \<Rightarrow> 'h acceptor \<Rightarrow> bool" where
  "conn_change l l' \<longleftrightarrow>
     (\<exists>cs ts. l' = l\<lparr> conns := cs, pending := pending l @ ts \<rparr> \<and> length cs = length (conns l) \<and>
        (\<forall>t \<in> set ts. is_conn_task t))"

lemma conn_change_refl [simp]: "conn_change l l"
  unfolding conn_change_def by (intro exI [of _ "conns l"] exI [of _ "[]"]) simp

lemma conn_change_trans [trans]: "conn_change l l' \<Longrightarrow> conn_change l' l'' \<Longrightarrow> conn_change l l''"
proof -
  assume "conn_change l l'" and "conn_change l' l''"
  then obtain cs ts cs' ts' where "l' = l\<lparr> conns := cs, pending := pending l @ ts \<rparr>"
    and "l'' = l'\<lparr> conns := cs', pending := pending l' @ ts' \<rparr>"
    and "length cs = length (conns l)" "length cs' = length (conns l')"
    and "\<forall>t \<in> set ts. is_conn_task t" "\<forall>t \<in> set ts'. is_conn_task t"
    unfolding conn_change_def by metis
  then show ?thesis
    unfolding conn_change_def by (intro exI [of _ cs'] exI [of _ "ts @ ts'"]) auto
qed

lemma conn_changeI:
  "length cs = length (conns l) \<Longrightarrow> (\<forall>t \<in> set ts. is_conn_task t) \<Longrightarrow>
     conn_change l (l\<lparr> conns := cs, pending := pending l @ ts \<rparr>)"
  unfolding conn_change_def by blast

lemma conn_change_post: "is_conn_task t \<Longrightarrow> conn_change l (post t l)"
  using conn_changeI [of "conns l" l "[t]"] by (simp add: post_def)

lemma conn_change_notify_owner: "conn_change l (notify_owner a res r l)"
  unfolding notify_owner_def by (rule conn_changeI) (auto split: option.splits)

lemma conn_change_ops [intro, simp]:
  "conn_change l (conn_finish a ec ep r l)"
  "conn_change l (conn_force_close r a l)"
  "conn_change l (conn_request_stop r a l)"
  by (simp_all add: conn_finish_def conn_force_close_def conn_request_stop_def
      conn_change_notify_owner conn_change_post)

lemma conn_change_start: "conn_change l (conn_start a r l)"
proof -
  have "conn_change l (post (Conn_handler a) l)" by (simp add: conn_change_post)
  then show ?thesis
    using conn_change_trans [OF _ conn_change_ops(1)]
    by (auto simp: conn_start_def Let_def split: option.split)
qed

lemma conn_change_fold:
  "(\<And>a l. conn_change l (f a l)) \<Longrightarrow> conn_change l (fold f as l)"
proof (induction as arbitrary: l)
  case (Cons a as)
  have "conn_change l (f a l)" by (rule Cons.prems)
  also have "conn_change (f a l) (fold f as (f a l))" using Cons.prems by (rule Cons.IH)
  finally show ?case by simp
qed simp

lemma conn_tasks:
  assumes "\<forall>t \<in> set ts. is_conn_task t"
  shows "Accept_handler \<notin> set ts" "Retry_handler c d \<notin> set ts" "Shutdown_handler c g \<notin> set ts"
    "count_list ts Accept_handler = 0"
  using assms by (auto simp: count_list_0_iff)

lemma conn_change_fields:
  assumes "conn_change l l'"
  shows "m_state l' = m_state l" "m_sessions l' = m_sessions l" "m_options l' = m_options l"
    "m_accept_pending l' = m_accept_pending l" "m_active_sessions l' = m_active_sessions l"
    "m_acceptor_open l' = m_acceptor_open l" "m_waiters l' = m_waiters l"
    "m_terminal_error l' = m_terminal_error l" "m_stop_reason l' = m_stop_reason l"
    "accept_handlers l' = accept_handlers l"
    "Retry_handler c d \<in> set (pending l') \<longleftrightarrow> Retry_handler c d \<in> set (pending l)"
    "Shutdown_handler c g \<in> set (pending l') \<longleftrightarrow> Shutdown_handler c g \<in> set (pending l)"
    "completions l' = completions l" "events l' = events l" "length (conns l') = length (conns l)"
proof -
  obtain cs ts where l': "l' = l\<lparr> conns := cs, pending := pending l @ ts \<rparr>"
    and cs: "length cs = length (conns l)" and ts: "\<forall>t \<in> set ts. is_conn_task t"
    using assms by (auto simp: conn_change_def)
  show "m_state l' = m_state l" "m_sessions l' = m_sessions l" "m_options l' = m_options l"
    "m_accept_pending l' = m_accept_pending l" "m_active_sessions l' = m_active_sessions l"
    "m_acceptor_open l' = m_acceptor_open l" "m_waiters l' = m_waiters l"
    "m_terminal_error l' = m_terminal_error l" "m_stop_reason l' = m_stop_reason l"
    "accept_handlers l' = accept_handlers l"
    "Retry_handler c d \<in> set (pending l') \<longleftrightarrow> Retry_handler c d \<in> set (pending l)"
    "Shutdown_handler c g \<in> set (pending l') \<longleftrightarrow> Shutdown_handler c g \<in> set (pending l)"
    "completions l' = completions l" "events l' = events l" "length (conns l') = length (conns l)"
    using conn_tasks [OF ts] cs
    by (simp_all add: l')
qed

lemmas conn_op_fields [simp] =
  conn_change_fields [OF conn_change_ops(1)] conn_change_fields [OF conn_change_ops(2)]
  conn_change_fields [OF conn_change_ops(3)] conn_change_fields [OF conn_change_start]
  conn_change_fields [OF conn_change_notify_owner]
  conn_change_fields [OF conn_change_fold [OF conn_change_ops(2)]]
  conn_change_fields [OF conn_change_fold [OF conn_change_ops(3)]]

subsection \<open>Stopping\<close>

lemmas timer_defs = cancel_retry_timer_def cancel_shutdown_timer_def

lemma acceptor_finish_stopped [simp]:
  "m_state l = listener_stopped \<Longrightarrow> acceptor_finish ec reason l = l"
  by (simp add: acceptor_finish_def)

lemma acceptor_finish_fields:
  assumes "m_state l \<noteq> listener_stopped"
  shows "m_state (acceptor_finish ec reason l) = listener_stopped"
    "m_sessions (acceptor_finish ec reason l) = m_sessions l"
    "m_options (acceptor_finish ec reason l) = m_options l"
    "m_accept_pending (acceptor_finish ec reason l) = m_accept_pending l"
    "m_active_sessions (acceptor_finish ec reason l) = m_active_sessions l"
    "\<not> m_acceptor_open (acceptor_finish ec reason l)"
    "m_waiters (acceptor_finish ec reason l) = []"
    "m_terminal_error (acceptor_finish ec reason l) = ec"
    "m_stop_reason (acceptor_finish ec reason l) = reason"
    "accept_handlers (acceptor_finish ec reason l) = accept_handlers l"
    "conns (acceptor_finish ec reason l) = conns l"
    "pending (acceptor_finish ec reason l) =
       map (cancel_shutdown_wait \<circ> cancel_retry_wait) (pending l)"
  using assms
  by (simp_all add: acceptor_finish_def Let_def listener_helpers timer_defs release_waiters_closed)

lemma counters_finish:
  "counters_ok l \<Longrightarrow> counters_ok (acceptor_finish ec reason l)"
  by (cases "m_state l = listener_stopped")
    (simp_all add: counters_ok_def acceptor_finish_fields)

lemma lifecycle_finish:
  "m_state l \<noteq> listener_stopped \<Longrightarrow> drained l \<Longrightarrow> lifecycle_ok (acceptor_finish ec reason l)"
  by (simp add: lifecycle_ok_def drained_def acceptor_finish_fields)

lemma counters_maybe_finish: "counters_ok l \<Longrightarrow> counters_ok (acceptor_maybe_finish l)"
  by (simp add: acceptor_maybe_finish_def counters_finish)

lemma lifecycle_maybe_finish: "lifecycle_open l \<Longrightarrow> lifecycle_ok (acceptor_maybe_finish l)"
  by (auto simp: acceptor_maybe_finish_def lifecycle_open_def drained_def lifecycle_finish)
    (auto simp: lifecycle_ok_def drained_def)

lemma acceptor_begin_stop_active:
  "m_state l = listener_starting \<or> m_state l = listener_running \<Longrightarrow>
     acceptor_begin_stop ec reason r l =
       acceptor_maybe_finish (acceptor_stop_sessions r (acceptor_enter_stopping ec reason l))"
  by (auto simp: acceptor_begin_stop_def)

lemma enter_stopping_fields [simp]:
  "m_state (acceptor_enter_stopping ec reason l) = listener_stopping"
  "m_sessions (acceptor_enter_stopping ec reason l) = m_sessions l"
  "m_options (acceptor_enter_stopping ec reason l) = m_options l"
  "m_accept_pending (acceptor_enter_stopping ec reason l) = m_accept_pending l"
  "m_active_sessions (acceptor_enter_stopping ec reason l) = m_active_sessions l"
  "\<not> m_acceptor_open (acceptor_enter_stopping ec reason l)"
  "m_waiters (acceptor_enter_stopping ec reason l) = m_waiters l"
  "m_terminal_error (acceptor_enter_stopping ec reason l) = ec"
  "m_stop_reason (acceptor_enter_stopping ec reason l) = reason"
  "conns (acceptor_enter_stopping ec reason l) = conns l"
  "completions (acceptor_enter_stopping ec reason l) = completions l"
  "pending (acceptor_enter_stopping ec reason l) = map cancel_retry_wait (pending l)"
  by (simp_all add: acceptor_enter_stopping_def Let_def listener_helpers timer_defs)

lemma stop_sessions_fields [simp]:
  "m_state (acceptor_stop_sessions r l) = m_state l"
  "m_sessions (acceptor_stop_sessions r l) = m_sessions l"
  "m_options (acceptor_stop_sessions r l) = m_options l"
  "m_accept_pending (acceptor_stop_sessions r l) = m_accept_pending l"
  "m_active_sessions (acceptor_stop_sessions r l) = m_active_sessions l"
  "m_acceptor_open (acceptor_stop_sessions r l) = m_acceptor_open l"
  "m_waiters (acceptor_stop_sessions r l) = m_waiters l"
  "m_terminal_error (acceptor_stop_sessions r l) = m_terminal_error l"
  "m_stop_reason (acceptor_stop_sessions r l) = m_stop_reason l"
  "completions (acceptor_stop_sessions r l) = completions l"
  "accept_handlers (acceptor_stop_sessions r l) = accept_handlers l"
  "length (conns (acceptor_stop_sessions r l)) = length (conns l)"
  by (simp_all add: acceptor_stop_sessions_def acceptor_arm_shutdown_def post_def timer_defs
      split: option.split)

lemma counters_begin_stop:
  assumes "counters_ok l"
  shows "counters_ok (acceptor_begin_stop ec reason r l)"
proof (cases "m_state l = listener_starting \<or> m_state l = listener_running")
  case True
  have "counters_ok (acceptor_stop_sessions r (acceptor_enter_stopping ec reason l))"
    using assms by (simp add: counters_ok_def)
  then show ?thesis by (simp add: acceptor_begin_stop_active [OF True] counters_maybe_finish)
next
  case False
  have "counters_ok (transition_to listener_stopping (set_stop_reason reason (l\<lparr> m_terminal_error := ec \<rparr>)))"
    using assms by (simp add: counters_ok_def listener_helpers)
  with False assms show ?thesis
    by (auto simp: acceptor_begin_stop_def Let_def intro: counters_finish)
qed

lemma lifecycle_begin_stop:
  assumes "m_state l = listener_starting \<or> m_state l = listener_running \<or> lifecycle_ok l"
  shows "lifecycle_ok (acceptor_begin_stop ec reason r l)"
proof (cases "m_state l = listener_starting \<or> m_state l = listener_running")
  case True
  then show ?thesis
    by (simp add: acceptor_begin_stop_active [OF True] lifecycle_maybe_finish lifecycle_open_def)
next
  case False
  with assms have ok: "lifecycle_ok l" by simp
  show ?thesis
  proof (cases "m_state l = listener_idle")
    case True
    with ok have "drained l" by (simp add: lifecycle_ok_def)
    with True show ?thesis
      unfolding acceptor_begin_stop_def Let_def
      by (simp add: lifecycle_finish drained_def listener_helpers)
  qed (use False ok in \<open>simp add: acceptor_begin_stop_def\<close>)
qed

subsection \<open>Accepting\<close>

text \<open>
  \<open>counters_ok\<close> and \<open>lifecycle_ok\<close> do not depend on diagnostics, events and completions.
\<close>

lemma counters_frame [simp]:
  "counters_ok (record_diagnostic ec ep l) = counters_ok l"
  "counters_ok (emit type info ec ep l) = counters_ok l"
  "counters_ok (complete h ec l) = counters_ok l"
  "counters_ok (transition_to st l) = counters_ok l"
  "counters_ok (clear_diagnostics l) = counters_ok l"
  "counters_ok (clear_slot c l) = counters_ok l"
  "counters_ok (acceptor_factory_failed info ex l) = counters_ok l"
  "counters_ok (acceptor_report_accept_error ec l) = counters_ok l"
  "counters_ok (acceptor_report_finished info ec ep l) = counters_ok l"
  "counters_ok (acceptor_enter_starting l) = counters_ok l"
  "counters_ok (acceptor_publish_endpoint r l) = counters_ok l"
  "counters_ok (l\<lparr> m_terminal_error := ec \<rparr>) = counters_ok l"
  "counters_ok (l\<lparr> m_acceptor_open := b \<rparr>) = counters_ok l"
  "counters_ok (l\<lparr> m_endpoint := e \<rparr>) = counters_ok l"
  "counters_ok (l\<lparr> m_generation := g \<rparr>) = counters_ok l"
  "counters_ok (l\<lparr> m_consecutive_accept_errors := n \<rparr>) = counters_ok l"
  "counters_ok (l\<lparr> m_next_connection_id := i \<rparr>) = counters_ok l"
  "counters_ok (l\<lparr> conns := cs \<rparr>) = counters_ok l"
  "counters_ok (l\<lparr> flags := fs \<rparr>) = counters_ok l"
  "counters_ok (l\<lparr> slots := ss \<rparr>) = counters_ok l"
  "counters_ok (l\<lparr> m_waiters := ws \<rparr>) = counters_ok l"
  "counters_ok (l\<lparr> m_next_waiter_id := i \<rparr>) = counters_ok l"
  by (simp_all add: counters_ok_def listener_helpers acceptor_factory_failed_def
      acceptor_report_accept_error_def acceptor_report_finished_def acceptor_enter_starting_def
      acceptor_publish_endpoint_def Let_def)

lemma lifecycle_frame [simp]:
  "lifecycle_ok (record_diagnostic ec ep l) = lifecycle_ok l"
  "lifecycle_ok (emit type info ec ep l) = lifecycle_ok l"
  "lifecycle_ok (complete h ec l) = lifecycle_ok l"
  "lifecycle_ok (clear_slot c l) = lifecycle_ok l"
  "lifecycle_ok (l\<lparr> conns := cs \<rparr>) = lifecycle_ok l"
  "lifecycle_ok (l\<lparr> flags := fs \<rparr>) = lifecycle_ok l"
  "lifecycle_ok (l\<lparr> slots := ss \<rparr>) = lifecycle_ok l"
  "lifecycle_ok (l\<lparr> m_next_waiter_id := i \<rparr>) = lifecycle_ok l"
  by (simp_all add: lifecycle_ok_def drained_def listener_helpers split: listener_state.split)

lemma helper_fields [simp]:
  "m_state (record_diagnostic ec ep l) = m_state l"
  "m_state (emit type info ec ep l) = m_state l"
  "m_state (complete h ec l) = m_state l"
  "m_state (transition_to st l) = st"
  "m_state (clear_slot c l) = m_state l"
  "m_state (post t l) = m_state l"
  "m_state (acceptor_factory_failed info e l) = m_state l"
  "m_state (acceptor_report_accept_error ec l) = m_state l"
  "m_state (acceptor_report_finished info ec ep l) = m_state l"
  "m_state (acceptor_accept_throws e l) = m_state l"
  "m_state (acceptor_enter_starting l) = listener_starting"
  "m_state (acceptor_publish_endpoint r l) = m_state l"
  by (simp_all add: listener_helpers acceptor_factory_failed_def acceptor_accept_throws_def
      acceptor_report_accept_error_def acceptor_report_finished_def acceptor_enter_starting_def
      acceptor_publish_endpoint_def Let_def)

lemma open_fields [simp]:
  "m_acceptor_open (record_diagnostic ec ep l) = m_acceptor_open l"
  "m_acceptor_open (emit type info ec ep l) = m_acceptor_open l"
  "m_acceptor_open (acceptor_factory_failed info e l) = m_acceptor_open l"
  "m_acceptor_open (acceptor_report_accept_error ec l) = m_acceptor_open l"
  "m_acceptor_open (acceptor_report_finished info ec ep l) = m_acceptor_open l"
  "m_acceptor_open (acceptor_publish_endpoint r l) = m_acceptor_open l"
  by (simp_all add: listener_helpers acceptor_factory_failed_def
      acceptor_report_accept_error_def acceptor_report_finished_def
      acceptor_publish_endpoint_def Let_def)

lemma accept_next_running:
  assumes "counters_ok l" and "m_state l = listener_running" and "m_acceptor_open l"
  shows "counters_ok (snd (acceptor_accept_next reason r l))"
    and "lifecycle_ok (snd (acceptor_accept_next reason r l))"
proof -
  consider (waiting) "m_accept_pending l" | (full) "\<not> m_accept_pending l" "length (m_sessions l) \<ge> session_limit l"
    | (go) "\<not> m_accept_pending l" "length (m_sessions l) < session_limit l" "r_async_accept r = None"
    | (throw) e where "\<not> m_accept_pending l" "length (m_sessions l) < session_limit l" "r_async_accept r = Some e"
    by fastforce
  then have "counters_ok (snd (acceptor_accept_next reason r l)) \<and>
      lifecycle_ok (snd (acceptor_accept_next reason r l))"
  proof cases
    case throw
    then show ?thesis
      using assms
      by (auto simp: acceptor_accept_next_def acceptor_accept_throws_def Let_def
          lifecycle_begin_stop intro!: counters_begin_stop) (simp add: counters_ok_def)
  qed (use assms in \<open>auto simp: acceptor_accept_next_def acceptor_maybe_finish_def Let_def
        lifecycle_ok_def counters_ok_def post_def\<close>)
  then show "counters_ok (snd (acceptor_accept_next reason r l))"
    and "lifecycle_ok (snd (acceptor_accept_next reason r l))" by simp_all
qed

lemma accept_next_inactive:
  assumes "m_state l \<noteq> listener_starting" and "m_state l \<noteq> listener_running"
  shows "acceptor_accept_next reason r l = (no_error, acceptor_maybe_finish l)"
  using assms by (simp add: acceptor_accept_next_def)

lemma inv_accept_next:
  assumes "acceptor_inv l"
  shows "acceptor_inv (snd (acceptor_accept_next reason r l))"
proof (cases "m_state l = listener_running")
  case True
  then show ?thesis
    using assms accept_next_running [of l] by (simp add: acceptor_inv_def lifecycle_ok_def)
next
  case False
  moreover have "m_state l \<noteq> listener_starting"
    using assms by (auto simp: acceptor_inv_def lifecycle_ok_def)
  ultimately show ?thesis
    using assms
    by (simp add: accept_next_inactive acceptor_inv_def counters_maybe_finish
        lifecycle_maybe_finish lifecycle_open_def)
qed

lemma inv_begin_stop: "acceptor_inv l \<Longrightarrow> acceptor_inv (acceptor_begin_stop ec reason r l)"
  by (simp add: acceptor_inv_def counters_begin_stop lifecycle_begin_stop)

lemma inv_maybe_finish: "acceptor_inv l \<Longrightarrow> acceptor_inv (acceptor_maybe_finish l)"
  by (simp add: acceptor_inv_def counters_maybe_finish lifecycle_maybe_finish lifecycle_open_def)

lemma inv_retry_expired: "acceptor_inv l \<Longrightarrow> acceptor_inv (acceptor_retry_expired ec r l)"
  by (simp add: acceptor_retry_expired_def inv_maybe_finish inv_begin_stop inv_accept_next)

lemma counters_post: "t \<noteq> Accept_handler \<Longrightarrow> counters_ok (post t l) = counters_ok l"
  by (simp add: counters_ok_def post_def)

lemma counters_conn_change: "conn_change l l' \<Longrightarrow> counters_ok l' = counters_ok l"
  by (simp add: counters_ok_def conn_change_fields)

lemma lifecycle_conn_change: "conn_change l l' \<Longrightarrow> lifecycle_ok l' = lifecycle_ok l"
  by (simp add: lifecycle_ok_def drained_def conn_change_fields split: listener_state.split)

lemma inv_conn_change: "conn_change l l' \<Longrightarrow> acceptor_inv l \<Longrightarrow> acceptor_inv l'"
  by (simp add: acceptor_inv_def counters_conn_change lifecycle_conn_change)

lemma inv_stop_running:
  "counters_ok l \<Longrightarrow> m_state l = listener_running \<Longrightarrow>
     acceptor_inv (acceptor_begin_stop ec reason r l)"
  by (simp add: acceptor_inv_def counters_begin_stop lifecycle_begin_stop)

lemma inv_arm_retry:
  assumes "counters_ok l" and "m_state l = listener_running" and "m_acceptor_open l"
  shows "acceptor_inv (acceptor_arm_retry r l)"
proof (cases "r_retry_timer r")
  case None
  with assms show ?thesis
    by (auto simp: acceptor_arm_retry_def acceptor_inv_def counters_ok_def lifecycle_ok_def
        post_def timer_defs)
next
  case (Some e)
  with assms show ?thesis by (simp add: acceptor_arm_retry_def inv_stop_running)
qed

lemma inv_retry_accept:
  "counters_ok l \<Longrightarrow> m_state l = listener_running \<Longrightarrow> m_acceptor_open l \<Longrightarrow>
     acceptor_inv (acceptor_retry_accept ec r l)"
  by (simp add: acceptor_retry_accept_def Let_def inv_stop_running inv_arm_retry)

lemma counters_accept_taken:
  assumes "counters_ok l" and "Accept_handler \<in> set (pending l)"
  shows "m_accept_pending l"
    and "counters_ok (l\<lparr> pending := remove1 Accept_handler (pending l), m_accept_pending := False \<rparr>)"
proof -
  have "0 < accept_handlers l" using assms(2) by (simp add: count_list_0_iff zero_less_iff_neq_zero)
  then show "m_accept_pending l" using assms(1) by (simp add: counters_ok_def split: if_splits)
  then show "counters_ok (l\<lparr> pending := remove1 Accept_handler (pending l), m_accept_pending := False \<rparr>)"
    using assms by (simp add: counters_ok_def count_list_remove1)
qed

lemma inv_accept_next_running:
  "counters_ok l \<Longrightarrow> m_state l = listener_running \<Longrightarrow> m_acceptor_open l \<Longrightarrow>
     acceptor_inv (snd (acceptor_accept_next reason r l))"
  using accept_next_running [of l reason r] by (simp add: acceptor_inv_def)

lemma counters_add_session:
  assumes "counters_ok l" and "\<not> m_accept_pending l" and "length (m_sessions l) < session_limit l"
  shows "counters_ok (acceptor_launch_session a r (acceptor_add_session info l))"
proof -
  have "conn_change (acceptor_add_session info l)
      (acceptor_launch_session a r (acceptor_add_session info l))"
    by (simp add: acceptor_launch_session_def conn_change_post)
  moreover have "counters_ok (acceptor_add_session info l)"
    using assms by (simp add: acceptor_add_session_def Let_def) (simp add: counters_ok_def)
  ultimately show ?thesis by (simp add: counters_conn_change)
qed

lemma launch_session_fields [simp]:
  "m_state (acceptor_launch_session a r (acceptor_add_session info l)) = m_state l"
  "m_acceptor_open (acceptor_launch_session a r (acceptor_add_session info l)) = m_acceptor_open l"
  by (simp_all add: acceptor_launch_session_def acceptor_add_session_def Let_def) (simp add: post_def)

lemma inv_accepted:
  assumes inv: "acceptor_inv l" and task: "Accept_handler \<in> set (pending l)"
  shows "acceptor_inv (acceptor_accepted ec r (l\<lparr> pending := remove1 Accept_handler (pending l) \<rparr>))"
proof -
  define l0 where
    "l0 = l\<lparr> pending := remove1 Accept_handler (pending l), m_accept_pending := False \<rparr>"
  have c: "counters_ok l" and lc: "lifecycle_ok l" using inv by (simp_all add: acceptor_inv_def)
  have was: "m_accept_pending l" and c0: "counters_ok l0"
    using counters_accept_taken [OF c task] by (simp_all add: l0_def)
  show ?thesis
  proof (cases "m_state l0 = listener_running")
    case False
    have "lifecycle_open l0"
      using lc was False by (auto simp: lifecycle_open_def lifecycle_ok_def drained_def l0_def
          split: listener_state.splits)
    with False c0 show ?thesis
      by (simp add: acceptor_accepted_def l0_def [symmetric] acceptor_inv_def
          counters_maybe_finish lifecycle_maybe_finish)
  next
    case True
    have open0: "m_acceptor_open l0" and room: "length (m_sessions l0) < session_limit l0"
      and none: "\<not> m_accept_pending l0"
      using True lc c was by (auto simp: lifecycle_ok_def counters_ok_def l0_def)
    then show ?thesis
      using True c0
      by (simp add: acceptor_accepted_def l0_def [symmetric] Let_def inv_retry_accept
          inv_accept_next_running counters_add_session split: option.split)
  qed
qed

lemma erase_session:
  assumes inv: "acceptor_inv l"
  shows "counters_ok (acceptor_erase_session info l)"
    and "m_state (acceptor_erase_session info l) = m_state l"
    and "m_acceptor_open (acceptor_erase_session info l) = m_acceptor_open l"
    and "m_state l \<noteq> listener_running \<Longrightarrow> lifecycle_open (acceptor_erase_session info l)"
proof -
  let ?l = "acceptor_erase_session info l"
  have "counters_ok ?l \<and> m_state ?l = m_state l \<and> m_acceptor_open ?l = m_acceptor_open l \<and>
    (lifecycle_open ?l \<or> m_state l = listener_running)"
  proof (cases "find (\<lambda>value. ci_id (conn_info (conns l ! value)) = ci_id info) (m_sessions l)")
    case None
    then show ?thesis using inv by (simp add: acceptor_erase_session_def acceptor_inv_def lifecycle_open_def)
  next
    case (Some item)
    then have item: "item \<in> set (m_sessions l)" by (auto simp: find_Some_iff)
    then have "length (m_sessions l) = Suc (length (remove1 item (m_sessions l)))"
      by (metis One_nat_def Suc_pred length_pos_if_in_set length_remove1)
    then have "counters_ok ?l"
      using inv Some by (auto simp: acceptor_erase_session_def acceptor_inv_def counters_ok_def)
    moreover have "m_state l = listener_running \<or> lifecycle_open ?l"
      using inv item Some
      by (auto simp: acceptor_erase_session_def acceptor_inv_def lifecycle_open_def
          lifecycle_ok_def drained_def split: listener_state.splits)
    ultimately show ?thesis using Some by (auto simp: acceptor_erase_session_def)
  qed
  then show "counters_ok ?l" "m_state ?l = m_state l" "m_acceptor_open ?l = m_acceptor_open l"
    "m_state l \<noteq> listener_running \<Longrightarrow> lifecycle_open ?l" by auto
qed

lemma lifecycle_open_report [simp]:
  "lifecycle_open (acceptor_report_finished info ec ep l) = lifecycle_open l"
  by (simp add: lifecycle_open_def) (simp add: acceptor_report_finished_def)

lemma inv_session_finished:
  assumes inv: "acceptor_inv l"
  shows "acceptor_inv (acceptor_session_finished info ec ep r l)"
proof -
  define l2 where "l2 = acceptor_report_finished info ec ep (acceptor_erase_session info l)"
  note erased = erase_session [OF inv]
  have l2: "counters_ok l2" "m_state l2 = m_state l" "m_acceptor_open l2 = m_acceptor_open l"
    using erased by (simp_all add: l2_def)
  show ?thesis
  proof (cases "m_state l = listener_running")
    case True
    then have "m_acceptor_open l2" using inv l2 by (simp add: acceptor_inv_def lifecycle_ok_def)
    then have "acceptor_inv (snd (acceptor_accept_next runtime_failure r l2))"
      using l2 True by (simp add: inv_accept_next_running)
    with True l2 show ?thesis
      by (simp add: acceptor_session_finished_def l2_def [symmetric] Let_def inv_maybe_finish)
  next
    case False
    with erased(4) [OF False, of info] l2 show ?thesis
      by (simp add: acceptor_session_finished_def l2_def [symmetric] Let_def acceptor_inv_def
          counters_maybe_finish lifecycle_maybe_finish) (simp add: l2_def lifecycle_maybe_finish)
  qed
qed

subsection \<open>Starting\<close>

lemma accept_next_starting:
  assumes "counters_ok l" and "m_state l = listener_starting" and "drained l"
    and "asio_throws_errors r"
  shows "counters_ok (snd (acceptor_accept_next reason r l))"
    and "failed (fst (acceptor_accept_next reason r l)) \<Longrightarrow>
      lifecycle_ok (snd (acceptor_accept_next reason r l))"
    and "\<not> failed (fst (acceptor_accept_next reason r l)) \<Longrightarrow>
      snd (acceptor_accept_next reason r l) = post Accept_handler (l\<lparr> m_accept_pending := True \<rparr>)"
proof -
  have room: "length (m_sessions l) < session_limit l" and none: "\<not> m_accept_pending l"
    using assms(1,3) by (simp_all add: counters_ok_def drained_def)
  show "counters_ok (snd (acceptor_accept_next reason r l))"
    using assms room none
    by (auto simp: acceptor_accept_next_def acceptor_accept_throws_def Let_def split: option.split
        intro!: counters_begin_stop)
      (auto simp: counters_ok_def post_def)
  show "failed (fst (acceptor_accept_next reason r l)) \<Longrightarrow>
      lifecycle_ok (snd (acceptor_accept_next reason r l))"
    using assms room none
    by (auto simp: acceptor_accept_next_def Let_def lifecycle_begin_stop split: option.splits)
  show "\<not> failed (fst (acceptor_accept_next reason r l)) \<Longrightarrow>
      snd (acceptor_accept_next reason r l) = post Accept_handler (l\<lparr> m_accept_pending := True \<rparr>)"
    using assms room none
    by (auto simp: acceptor_accept_next_def Let_def asio_throws_errors_def split: option.splits)
qed

lemma acceptor_configure_ok: "\<not> failed (acceptor_configure e r) \<Longrightarrow> \<not> failed (r_open r)"
  by (auto simp: acceptor_configure_def Let_def split: if_splits)

lemma drained_frame [simp]:
  "drained (acceptor_enter_starting l) = drained l"
  "drained (acceptor_publish_endpoint r l) = drained l"
  "drained (complete h ec l) = drained l"
  "drained (l\<lparr> m_acceptor_open := b \<rparr>) = drained l"
  by (simp_all add: drained_def acceptor_enter_starting_def acceptor_publish_endpoint_def
      listener_helpers Let_def)

lemma inv_start_on_strand:
  assumes inv: "acceptor_inv l" and asio: "asio_throws_errors r"
  shows "acceptor_inv (acceptor_start_on_strand handler r l)"
proof (cases "m_state l = listener_idle \<or> m_state l = listener_stopped")
  case False
  then show ?thesis using inv by (auto simp: acceptor_start_on_strand_def acceptor_inv_def)
next
  case fresh: True
  have drained: "drained l" and c: "counters_ok l"
    using inv fresh by (auto simp: acceptor_inv_def lifecycle_ok_def)
  define l1 where "l1 = (acceptor_enter_starting l)\<lparr> m_acceptor_open := \<not> failed (r_open r) \<rparr>"
  define ec where "ec = acceptor_configure (m_configured_endpoint l1) r"
  define l2 where "l2 = acceptor_publish_endpoint r l1"
  define n where "n = acceptor_accept_next startup_failure r l2"
  have l1: "counters_ok l1" "m_state l1 = listener_starting" "drained l1"
    "m_acceptor_open l1 = (\<not> failed (r_open r))"
    using c drained by (simp_all add: l1_def)
  have l2: "counters_ok l2" "m_state l2 = listener_starting" "drained l2"
    "m_acceptor_open l2 = (\<not> failed (r_open r))"
    using l1 by (simp_all add: l2_def)
  have eq: "acceptor_start_on_strand handler r l =
    (if failed ec then acceptor_finish ec startup_failure (complete handler ec l1)
     else if failed (fst n) then complete handler (fst n) (snd n)
     else complete handler no_error (transition_to listener_running (snd n)))"
    using fresh
    by (auto simp: acceptor_start_on_strand_def l1_def ec_def l2_def n_def Let_def)
  note next_accept = accept_next_starting [OF l2(1-3) asio, of startup_failure, folded n_def]
  show ?thesis
  proof (cases "failed ec")
    case True
    with l1 show ?thesis by (simp add: eq acceptor_inv_def counters_finish lifecycle_finish)
  next
    case ok: False
    then have opened: "m_acceptor_open l2"
      using l2(4) acceptor_configure_ok [of "m_configured_endpoint l1" r] by (simp add: ec_def)
    then have "lifecycle_ok (transition_to listener_running
        (post Accept_handler (l2\<lparr> m_accept_pending := True \<rparr>)))"
      by (simp add: lifecycle_ok_def listener_helpers)
    with ok next_accept show ?thesis
      by (cases "failed (fst n)") (simp_all add: eq acceptor_inv_def)
  qed
qed

subsection \<open>Every step keeps the invariant\<close>

lemma inv_other_task_taken:
  assumes "acceptor_inv l" and "t \<noteq> Accept_handler" and "\<And>d. t \<noteq> Retry_handler False d"
  shows "acceptor_inv (l\<lparr> pending := remove1 t (pending l) \<rparr>)"
proof -
  have "Retry_handler False d \<in> set (remove1 t (pending l)) \<longleftrightarrow>
      Retry_handler False d \<in> set (pending l)" for d
    using assms(3) [of d] by (metis in_set_remove1)
  with assms(1,2) show ?thesis
    by (simp add: acceptor_inv_def counters_ok_def lifecycle_ok_def drained_def count_list_remove1
        split: listener_state.splits)
qed

lemma inv_post:
  assumes "acceptor_inv l" and "t \<noteq> Accept_handler"
  shows "acceptor_inv (post t l)"
  using assms
  by (auto simp: acceptor_inv_def counters_ok_def lifecycle_ok_def drained_def post_def
      split: listener_state.splits)

lemma inv_complete [simp]: "acceptor_inv (complete h ec l) = acceptor_inv l"
  and inv_clear_slot [simp]: "acceptor_inv (clear_slot c l) = acceptor_inv l"
  and inv_flags [simp]: "acceptor_inv (l\<lparr> flags := fs \<rparr>) = acceptor_inv l"
  and inv_slots [simp]: "acceptor_inv (l\<lparr> slots := ss \<rparr>) = acceptor_inv l"
  and inv_conns [simp]: "acceptor_inv (l\<lparr> conns := cs \<rparr>) = acceptor_inv l"
  and inv_next_waiter [simp]: "acceptor_inv (l\<lparr> m_next_waiter_id := i \<rparr>) = acceptor_inv l"
  by (simp_all add: acceptor_inv_def)

lemma inv_waiters:
  assumes "acceptor_inv l" and "m_state l \<noteq> listener_stopped"
  shows "acceptor_inv (l\<lparr> m_waiters := ws \<rparr>)"
  using assms
  by (auto simp: acceptor_inv_def lifecycle_ok_def drained_def split: listener_state.splits)

lemma inv_cancel_wait:
  assumes "acceptor_inv l"
  shows "acceptor_inv (cancel_wait i l)"
proof (cases "m_state l = listener_stopped")
  case True
  with assms have "m_waiters l = []" by (simp add: acceptor_inv_def lifecycle_ok_def)
  with assms show ?thesis by (simp add: cancel_wait_def)
next
  case False
  with assms show ?thesis by (simp add: cancel_wait_def inv_waiters split: option.split)
qed

lemma inv_wait_task:
  "acceptor_inv l \<Longrightarrow> acceptor_inv (acceptor_wait_task i c h l)"
  by (simp add: acceptor_wait_task_def inv_waiters)

lemma inv_shutdown_expired:
  "acceptor_inv l \<Longrightarrow> acceptor_inv (acceptor_shutdown_expired ec r l)"
  by (auto simp: acceptor_shutdown_expired_def Let_def acceptor_inv_def
      counters_conn_change [OF conn_change_fold] lifecycle_conn_change [OF conn_change_fold])

lemma inv_retry_task:
  assumes inv: "acceptor_inv l" and deliver: "timer_delivers c ec"
  shows "acceptor_inv (acceptor_retry_expired ec r
           (l\<lparr> pending := remove1 (Retry_handler c d) (pending l) \<rparr>))"
    (is "acceptor_inv (acceptor_retry_expired ec r ?l)")
proof (cases c)
  case True
  then show ?thesis using inv by (simp add: inv_retry_expired inv_other_task_taken)
next
  case False
  with deliver have ec: "ec = no_error" by (simp add: timer_delivers_def)
  have "counters_ok ?l"
    using inv by (simp add: acceptor_inv_def counters_ok_def count_list_remove1)
  show ?thesis
  proof (cases "m_state l = listener_running")
    case True
    with inv have "m_acceptor_open ?l" by (simp add: acceptor_inv_def lifecycle_ok_def)
    with \<open>counters_ok ?l\<close> True accept_next_running [of ?l] ec show ?thesis
      by (simp add: acceptor_retry_expired_def acceptor_inv_def)
  next
    case False
    with inv \<open>counters_ok ?l\<close> have "acceptor_inv ?l"
      by (auto simp: acceptor_inv_def lifecycle_ok_def drained_def split: listener_state.splits)
    then show ?thesis by (rule inv_retry_expired)
  qed
qed

lemma inv_run_task:
  assumes inv: "acceptor_inv l" and asio: "asio_throws_errors r" and en: "acceptor_enabled (Run t) r l"
  shows "acceptor_inv (run_task t r (l\<lparr> pending := remove1 t (pending l) \<rparr>))"
proof -
  have taken: "acceptor_inv (l\<lparr> pending := remove1 t (pending l) \<rparr>)"
    if "t \<noteq> Accept_handler" "\<And>d. t \<noteq> Retry_handler False d"
    using inv_other_task_taken [OF inv that] .
  show ?thesis
  proof (cases t)
    case Accept_handler
    with inv en show ?thesis by (simp add: inv_accepted)
  next
    case (Retry_handler c d)
    with inv en show ?thesis by (simp add: inv_retry_task)
  qed (use taken asio in \<open>auto simp: acceptor_start_task_def inv_start_on_strand inv_wait_task
        inv_cancel_wait acceptor_stop_on_strand_def inv_begin_stop inv_shutdown_expired
        inv_session_finished Let_def
        intro: inv_conn_change [OF conn_change_start] inv_conn_change [OF conn_change_ops(1)]
          inv_conn_change [OF conn_change_notify_owner]\<close>)
qed

interpretation acceptor: inductive_invariant acceptor_init acceptor_step acceptor_inv
proof
  fix l l' :: "'h acceptor"
  show "acceptor_init l \<Longrightarrow> acceptor_inv l"
    by (erule acceptor_initE)
      (simp add: fresh_acceptor_def acceptor_inv_def counters_ok_def lifecycle_ok_def drained_def
        validate_acceptor_options_ok_iff unat_gt_0 word_gt_0)
  assume inv: "acceptor_inv l" and "acceptor_step l l'"
  from this(2) obtain x r where x: "asio_throws_errors r" "acceptor_enabled x r l"
    "l' = acceptor_do x r l"
    by (rule acceptor_stepE)
  show "acceptor_inv l'"
  proof (cases x)
    case (Run t)
    then show ?thesis using inv x by (simp add: inv_run_task)
  qed (use inv x in \<open>auto simp: acceptor_do_async_start_def acceptor_do_async_wait_def
        acceptor_request_stop_def acceptor_emit_cancellation_def Let_def inv_post
        split: option.split\<close>)
qed

subsection \<open>What the listener promises\<close>

text \<open>
  C2: in every reachable state the published number of active sessions is the length of the
  session list, it never exceeds \<open>max_active_sessions\<close>, at most one accept is
  outstanding, and none is outstanding once the limit is reached.
\<close>

theorem acceptor_backpressure:
  assumes "reachable acceptor_init acceptor_step l"
  shows "unat (ls_active_sessions (status_of l)) = length (m_sessions l)
    \<and> ls_active_sessions (status_of l) \<le> max_active_sessions (m_options l)
    \<and> count_list (pending l) Accept_handler = (if m_accept_pending l then 1 else 0)
    \<and> (length (m_sessions l) = unat (max_active_sessions (m_options l)) \<longrightarrow>
         Accept_handler \<notin> set (pending l))"
proof -
  have c: "counters_ok l" using acceptor.holds [OF assms] by (simp add: acceptor_inv_def)
  then have "unat (m_active_sessions l) = length (m_sessions l)"
    using unat_less_2p64 [of "max_active_sessions (m_options l)"]
    by (simp add: counters_ok_def unat_of_nat_64)
  with c show ?thesis
    by (auto simp: counters_ok_def status_of_def word_le_nat_alt count_list_0_iff [symmetric])
qed

theorem acceptor_backpressure_witness:
  "unat (ls_active_sessions (status_of (example_acceptor example_start))) = 1
   \<and> count_list (pending (example_acceptor example_start)) Accept_handler \<le> 1"
  using acceptor_backpressure [OF example_acceptor_reachable [OF example_runs(1)]]
  by (simp add: example_states)

text \<open>
  C11: a running listener with room for another session is never deaf: its acceptor is open
  and an accept is outstanding or a retry timer that was not cancelled is armed.
\<close>

theorem acceptor_never_deaf:
  assumes "reachable acceptor_init acceptor_step l" and "m_state l = listener_running"
    and "length (m_sessions l) < unat (max_active_sessions (m_options l))"
  shows "m_acceptor_open l
    \<and> (Accept_handler \<in> set (pending l) \<or> (\<exists>d. Retry_handler False d \<in> set (pending l)))"
proof -
  have "acceptor_inv l" using assms(1) by (rule acceptor.holds)
  with assms show ?thesis
    by (auto simp: acceptor_inv_def counters_ok_def lifecycle_ok_def count_list_0_iff [symmetric]
        split: if_splits)
qed

theorem acceptor_never_deaf_witness:
  "m_acceptor_open (example_acceptor example_start)
   \<and> (Accept_handler \<in> set (pending (example_acceptor example_start))
      \<or> (\<exists>d. Retry_handler False d \<in> set (pending (example_acceptor example_start))))"
  using acceptor_never_deaf [OF example_acceptor_reachable [OF example_runs(1)]]
  by (simp add: example_states)

text \<open>
  C15: a listener that is idle or stopped holds nothing: no session, no outstanding accept, a
  closed acceptor, an active count of zero, and, when stopped, no waiter left behind.
\<close>

theorem acceptor_stopped_is_clean:
  assumes "reachable acceptor_init acceptor_step l"
    and "m_state l = listener_idle \<or> m_state l = listener_stopped"
  shows "m_sessions l = [] \<and> ls_active_sessions (status_of l) = 0 \<and> \<not> m_acceptor_open l
    \<and> Accept_handler \<notin> set (pending l)
    \<and> (m_state l = listener_stopped \<longrightarrow> m_waiters l = [])"
proof -
  have "acceptor_inv l" using assms(1) by (rule acceptor.holds)
  with assms show ?thesis
    by (auto simp: acceptor_inv_def counters_ok_def lifecycle_ok_def drained_def status_of_def
        count_list_0_iff)
qed

theorem acceptor_stopped_is_clean_witness:
  "m_sessions (example_acceptor (example_start @ example_stop @ example_drain)) = []
   \<and> m_waiters (example_acceptor (example_start @ example_stop @ example_drain)) = []"
  using acceptor_stopped_is_clean [OF example_acceptor_reachable [OF example_runs(3)]]
  by (simp add: example_states)

end
