(* ===== verification/Serveza_Acceptor_Heap.thy ===== *)
theory Serveza_Acceptor_Heap
  imports Serveza_Acceptor_Inv
begin

text \<open>
  The sessions of the accepting listener.  Every connection that has not finished is in the
  session list and is driven by a function object; every finished one that is still in the
  list has its notification on the way.  While the listener is stopping, every unfinished
  session is about to be forced.

  Two assumptions on the environment: the listener outlives its connections and its strand
  accepts their notifications (\<open>r_notify_owner\<close>), and fewer than \<open>2\<^sup>6\<^sup>4\<close> connections are
  accepted, so that identifiers are not reused.
\<close>

inductive acceptor_live_step :: "'h acceptor \<Rightarrow> 'h acceptor \<Rightarrow> bool" where
  acceptor_live_stepI:
    "asio_throws_errors r \<Longrightarrow> \<forall>a. r_notify_owner r a \<Longrightarrow> m_next_connection_id l \<noteq> - 1 \<Longrightarrow>
     acceptor_enabled x r l \<Longrightarrow> acceptor_live_step l (acceptor_do x r l)"

inductive_cases acceptor_live_stepE: "acceptor_live_step l l'"

fun finished_ids :: "'h acceptor_task \<Rightarrow> u64 list" where
  "finished_ids (Session_finished_task info ec ep) = [ci_id info]"
| "finished_ids _ = []"

fun task_conns :: "'h acceptor_task \<Rightarrow> nat list" where
  "task_conns (Conn_start a) = [a]"
| "task_conns (Conn_cancel a) = [a]"
| "task_conns (Conn_force a) = [a]"
| "task_conns (Conn_handler a) = [a]"
| "task_conns _ = []"

abbreviation conn_ids :: "'h acceptor \<Rightarrow> u64 list" where
  "conn_ids l \<equiv> map (\<lambda>c. ci_id (conn_info c)) (conns l)"

abbreviation session_ids :: "'h acceptor \<Rightarrow> u64 multiset" where
  "session_ids l \<equiv> mset (map (\<lambda>a. conn_ids l ! a) (m_sessions l))"

definition live_ids :: "'h acceptor \<Rightarrow> u64 multiset" where
  "live_ids l =
     image_mset (\<lambda>c. ci_id (conn_info c)) (filter_mset (\<lambda>c. \<not> conn_finished c) (mset (conns l)))
     + mset (concat (map finished_ids (pending l)))"

definition unfinished :: "'h acceptor \<Rightarrow> nat \<Rightarrow> bool" where
  "unfinished l a \<longleftrightarrow> a < length (conns l) \<and> \<not> conn_finished (conns l ! a)"

definition addresses_ok :: "'h acceptor \<Rightarrow> bool" where
  "addresses_ok l \<longleftrightarrow>
     set (m_sessions l) \<subseteq> {..<length (conns l)} \<and>
     (\<forall>t \<in> set (pending l). set (task_conns t) \<subseteq> {..<length (conns l)})"

definition ids_ok :: "'h acceptor \<Rightarrow> bool" where
  "ids_ok l \<longleftrightarrow>
     distinct (conn_ids l) \<and> (\<forall>i \<in> set (conn_ids l). i \<le> m_next_connection_id l) \<and>
     session_ids l = live_ids l"

definition driven :: "'h acceptor \<Rightarrow> nat \<Rightarrow> bool" where
  "driven l a \<longleftrightarrow>
     Conn_start a \<in> set (pending l) \<or> Conn_handler a \<in> set (pending l) \<or>
     Conn_force a \<in> set (pending l)"

text \<open>
  Both parts of the invariant allow a set of exceptions: the connection whose function
  object is running.
\<close>

definition heap_ok :: "nat set \<Rightarrow> 'h acceptor \<Rightarrow> bool" where
  "heap_ok A l \<longleftrightarrow>
     addresses_ok l \<and> ids_ok l \<and> (\<forall>a. unfinished l a \<longrightarrow> a \<in> A \<or> driven l a)"

definition forced_ok :: "nat set \<Rightarrow> 'h acceptor \<Rightarrow> bool" where
  "forced_ok A l \<longleftrightarrow>
     (m_state l = listener_stopping \<longrightarrow>
      (\<exists>d. Shutdown_handler False d \<in> set (pending l)) \<or>
      (\<forall>a. unfinished l a \<longrightarrow> a \<in> A \<or> Conn_force a \<in> set (pending l)))"

definition heap_inv :: "nat set \<Rightarrow> 'h acceptor \<Rightarrow> bool" where
  "heap_inv A l \<longleftrightarrow> heap_ok A l \<and> forced_ok A l"

subsection \<open>Operations on connections\<close>

definition conn_effect :: "'h acceptor \<Rightarrow> 'h acceptor \<Rightarrow> bool" where
  "conn_effect l l' \<longleftrightarrow>
     conn_change l l' \<and> conn_ids l' = conn_ids l \<and> live_ids l' = live_ids l \<and>
     (\<forall>a. unfinished l' a \<longrightarrow> unfinished l a) \<and> set (pending l) \<subseteq> set (pending l') \<and>
     (\<forall>t \<in> set (pending l'). t \<in> set (pending l) \<or> set (task_conns t) \<subseteq> {..<length (conns l)}) \<and>
     m_next_connection_id l' = m_next_connection_id l"

lemma conn_effect_refl [simp]: "conn_effect l l"
  by (simp add: conn_effect_def)

lemma conn_effect_trans: "conn_effect l l' \<Longrightarrow> conn_effect l' l'' \<Longrightarrow> conn_effect l l''"
  unfolding conn_effect_def
  by (intro conjI) (auto dest: conn_change_trans simp: conn_change_fields(15), blast)

lemma conn_effect_post:
  assumes "is_conn_task t" and "finished_ids t = []" and "set (task_conns t) \<subseteq> {..<length (conns l)}"
  shows "conn_effect l (post t l)"
  using assms conn_change_post [of t l]
  by (auto simp: conn_effect_def live_ids_def unfinished_def post_def)

lemma mset_update_split:
  assumes "a < length xs"
  obtains M where "mset xs = add_mset (xs ! a) M" and "\<And>x. mset (xs[a := x]) = add_mset x M"
  using assms by (metis insert_DiffM mset_update nth_mem_mset)

lemma conn_effect_notify_owner:
  assumes a: "a < length (conns l)" and r: "r_notify_owner r a"
    and info: "conn_info (fst res) = conn_info (conns l ! a)"
    and res: "snd res = None \<and> conn_finished (fst res) = conn_finished (conns l ! a) \<or>
      (\<exists>ec ep. snd res = Some (conn_info (conns l ! a), ec, ep) \<and>
        \<not> conn_finished (conns l ! a) \<and> conn_finished (fst res))"
  shows "conn_effect l (notify_owner a res r l)"
proof -
  obtain M where M: "mset (conns l) = add_mset (conns l ! a) M"
    "\<And>x. mset ((conns l)[a := x]) = add_mset x M"
    using mset_update_split [OF a] by blast
  have "live_ids (notify_owner a res r l) = live_ids l"
    using res r info by (auto simp: live_ids_def notify_owner_def M)
  moreover have "conn_ids (notify_owner a res r l) = conn_ids l"
    using info by (simp add: notify_owner_def map_update_same)
  moreover have "unfinished (notify_owner a res r l) b \<Longrightarrow> unfinished l b" for b
    using res a by (cases "a = b") (auto simp: unfinished_def notify_owner_def)
  moreover have "set (pending l) \<subseteq> set (pending (notify_owner a res r l))"
    "\<forall>t \<in> set (pending (notify_owner a res r l)). t \<in> set (pending l) \<or>
      set (task_conns t) \<subseteq> {..<length (conns l)}"
    "m_next_connection_id (notify_owner a res r l) = m_next_connection_id l"
    using res by (auto simp: notify_owner_def)
  ultimately show ?thesis
    using conn_change_notify_owner [of l a res r] unfolding conn_effect_def by blast
qed

lemma conn_effect_finish:
  "a < length (conns l) \<Longrightarrow> r_notify_owner r a \<Longrightarrow> conn_effect l (conn_finish a ec ep r l)"
  unfolding conn_finish_def
  by (rule conn_effect_notify_owner) (simp_all add: connection_finish_result)

lemma conn_effect_complete:
  "a < length (conns l) \<Longrightarrow> r_notify_owner r a \<Longrightarrow>
     conn_effect l (notify_owner a (connection_complete ec (conns l ! a)) r l)"
  by (rule conn_effect_notify_owner) (simp_all add: connection_complete_result)

lemma conn_effect_update:
  assumes "a < length (conns l)" and "conn_info c = conn_info (conns l ! a)"
    and "conn_finished c = conn_finished (conns l ! a)"
  shows "conn_effect l (l\<lparr> conns := (conns l)[a := c] \<rparr>)"
  using conn_effect_notify_owner [of a l "all_succeed" "(c, None)"] assms
  by (simp add: all_succeed_def notify_owner_def)

lemma conn_effect_force:
  "a < length (conns l) \<Longrightarrow> r_notify_owner r a \<Longrightarrow> conn_effect l (conn_force_close r a l)"
  by (simp add: conn_force_close_def conn_effect_finish conn_effect_post)

lemma conn_effect_request_stop:
  "a < length (conns l) \<Longrightarrow> r_notify_owner r a \<Longrightarrow> conn_effect l (conn_request_stop r a l)"
  by (simp add: conn_request_stop_def conn_effect_force conn_effect_post)

lemma conn_effect_start:
  assumes "a < length (conns l)" and "r_notify_owner r a"
  shows "conn_effect l (conn_start a r l)"
proof -
  have "conn_effect l (post (Conn_handler a) l)" using assms by (simp add: conn_effect_post)
  moreover have "conn_effect (post (Conn_handler a) l) (conn_finish a ec ep r (post (Conn_handler a) l))"
    for ec ep using assms by (simp add: conn_effect_finish post_def)
  ultimately show ?thesis
    by (auto simp: conn_start_def Let_def intro: conn_effect_trans split: option.split)
qed

lemma conn_effect_length: "conn_effect l l' \<Longrightarrow> length (conns l') = length (conns l)"
  by (simp add: conn_effect_def conn_change_fields(15))

lemma conn_effect_fold:
  assumes "\<And>a l. a < length (conns l) \<Longrightarrow> conn_effect l (f a l)"
    and "set as \<subseteq> {..<length (conns l)}"
  shows "conn_effect l (fold f as l)"
  using assms(2)
proof (induction as arbitrary: l)
  case (Cons a as)
  then have step: "conn_effect l (f a l)" by (simp add: assms(1))
  moreover have "conn_effect (f a l) (fold f as (f a l))"
    using Cons conn_effect_length [OF step] by simp
  ultimately show ?case by (auto intro: conn_effect_trans)
qed simp

lemma heap_conn_effect:
  assumes "conn_effect l l'" and "heap_ok A l"
  shows "heap_ok A l'"
proof -
  note fields = conn_change_fields [of l l']
  have "addresses_ok l'"
    using assms unfolding heap_ok_def addresses_ok_def conn_effect_def
    by (auto simp: fields) blast
  moreover have "ids_ok l'"
    using assms by (simp add: heap_ok_def ids_ok_def conn_effect_def fields)
  moreover have "a \<in> A \<or> driven l' a" if "unfinished l' a" for a
    using assms that by (auto simp: heap_ok_def conn_effect_def driven_def)
  ultimately show ?thesis by (simp add: heap_ok_def)
qed

lemma forced_conn_effect: "conn_effect l l' \<Longrightarrow> forced_ok A l \<Longrightarrow> forced_ok A l'"
  unfolding forced_ok_def conn_effect_def by (auto simp: conn_change_fields)

lemma heap_inv_conn_effect: "conn_effect l l' \<Longrightarrow> heap_inv A l \<Longrightarrow> heap_inv A l'"
  by (auto simp: heap_inv_def intro: heap_conn_effect forced_conn_effect)

text \<open>Forcing a session leaves it finished or with its forced end posted.\<close>

lemma force_close_forces:
  assumes "a < length (conns l)"
  shows "\<not> unfinished (conn_force_close r a l) a \<or> Conn_force a \<in> set (pending (conn_force_close r a l))"
  using assms
  by (auto simp: conn_force_close_def conn_finish_def notify_owner_def unfinished_def post_def
      connection_finish_result)

lemma fold_force_close_forces:
  assumes "\<forall>a. r_notify_owner r a" and "set as \<subseteq> {..<length (conns l)}" and "a \<in> set as"
    and "unfinished (fold (conn_force_close r) as l) a"
  shows "Conn_force a \<in> set (pending (fold (conn_force_close r) as l))"
  using assms(2-)
proof (induction as arbitrary: l)
  case (Cons b as)
  let ?l = "conn_force_close r b l"
  have rest: "conn_effect ?l (fold (conn_force_close r) as ?l)"
    using Cons.prems assms(1) by (intro conn_effect_fold) (auto simp: conn_effect_force)
  show ?case
  proof (cases "a = b")
    case True
    then have "unfinished ?l a" using rest Cons.prems by (auto simp: conn_effect_def)
    with True Cons.prems have "Conn_force a \<in> set (pending ?l)" using force_close_forces [of b l r] by auto
    then show ?thesis using rest by (auto simp: conn_effect_def)
  next
    case False
    then show ?thesis using Cons by auto
  qed
qed simp

subsection \<open>What the invariant does not depend on\<close>

abbreviation session_tasks :: "'h acceptor \<Rightarrow> 'h acceptor_task list" where
  "session_tasks l \<equiv> filter is_conn_task (pending l)"

lemma finished_ids_filter:
  "concat (map finished_ids ts) = concat (map finished_ids (filter is_conn_task ts))"
proof (induction ts)
  case (Cons t ts)
  then show ?case by (cases t) simp_all
qed simp

lemma task_conns_filter:
  "(\<forall>t \<in> set ts. set (task_conns t) \<subseteq> B) \<longleftrightarrow> (\<forall>t \<in> set (filter is_conn_task ts). set (task_conns t) \<subseteq> B)"
proof -
  have "is_conn_task t \<or> task_conns t = []" for t :: "'a acceptor_task" by (cases t) simp_all
  then show ?thesis by (metis (mono_tags) empty_set empty_subsetI mem_Collect_eq set_filter)
qed

lemma conn_task_filter:
  "Conn_start a \<in> set ts \<longleftrightarrow> Conn_start a \<in> set (filter is_conn_task ts)"
  "Conn_handler a \<in> set ts \<longleftrightarrow> Conn_handler a \<in> set (filter is_conn_task ts)"
  "Conn_force a \<in> set ts \<longleftrightarrow> Conn_force a \<in> set (filter is_conn_task ts)"
  by simp_all

lemma heap_frame:
  assumes "conns l' = conns l" "m_sessions l' = m_sessions l" "session_tasks l' = session_tasks l"
    "m_next_connection_id l' = m_next_connection_id l"
  shows "heap_ok A l' = heap_ok A l"
proof -
  have "concat (map finished_ids (pending l')) = concat (map finished_ids (pending l))"
    using finished_ids_filter [of "pending l'"] finished_ids_filter [of "pending l"] assms(3) by simp
  then have "ids_ok l' = ids_ok l" by (simp add: ids_ok_def live_ids_def assms)
  moreover have "addresses_ok l' = addresses_ok l"
    unfolding addresses_ok_def assms(1,2) task_conns_filter [of "pending l'"]
      task_conns_filter [of "pending l"] assms(3) by (rule refl)
  moreover have "driven l' a = driven l a" for a
    unfolding driven_def conn_task_filter [of _ "pending l'"] conn_task_filter [of _ "pending l"]
      assms(3) by (rule refl)
  ultimately show ?thesis by (simp add: heap_ok_def unfinished_def assms)
qed

lemma session_tasks_cancelled [simp]:
  "filter is_conn_task (map cancel_retry_wait ts) = filter is_conn_task ts"
  "filter is_conn_task (map cancel_shutdown_wait ts) = filter is_conn_task ts"
  "filter is_conn_task (map (cancel_shutdown_wait \<circ> cancel_retry_wait) ts) = filter is_conn_task ts"
proof -
  have "filter is_conn_task (map f ts) = filter is_conn_task ts"
    if "\<And>t. is_conn_task (f t) = is_conn_task t" and "\<And>t. is_conn_task t \<Longrightarrow> f t = t"
    for f :: "'a acceptor_task \<Rightarrow> 'a acceptor_task"
    using that by (induction ts) auto
  moreover have "is_conn_task (cancel_retry_wait t) = is_conn_task t"
    "is_conn_task (cancel_shutdown_wait t) = is_conn_task t"
    "is_conn_task t \<Longrightarrow> cancel_retry_wait t = t" "is_conn_task t \<Longrightarrow> cancel_shutdown_wait t = t"
    for t :: "'a acceptor_task"
    by (cases t; simp)+
  ultimately show "filter is_conn_task (map cancel_retry_wait ts) = filter is_conn_task ts"
    "filter is_conn_task (map cancel_shutdown_wait ts) = filter is_conn_task ts"
    "filter is_conn_task (map (cancel_shutdown_wait \<circ> cancel_retry_wait) ts) = filter is_conn_task ts"
    by simp_all
qed

lemma heap_helpers [simp]:
  "heap_ok A (record_diagnostic ec ep l) = heap_ok A l"
  "heap_ok A (emit type info ec ep l) = heap_ok A l"
  "heap_ok A (complete h ec l) = heap_ok A l"
  "heap_ok A (transition_to st l) = heap_ok A l"
  "heap_ok A (clear_diagnostics l) = heap_ok A l"
  "heap_ok A (clear_slot c l) = heap_ok A l"
  "heap_ok A (set_stop_reason reason l) = heap_ok A l"
  "heap_ok A (cancel_retry_timer l) = heap_ok A l"
  "heap_ok A (cancel_shutdown_timer l) = heap_ok A l"
  "heap_ok A (l\<lparr> m_terminal_error := ec \<rparr>) = heap_ok A l"
  "heap_ok A (l\<lparr> m_acceptor_open := b \<rparr>) = heap_ok A l"
  "heap_ok A (l\<lparr> m_accept_pending := b \<rparr>) = heap_ok A l"
  "heap_ok A (l\<lparr> m_consecutive_accept_errors := n \<rparr>) = heap_ok A l"
  "heap_ok A (l\<lparr> m_waiters := ws \<rparr>) = heap_ok A l"
  "heap_ok A (l\<lparr> m_next_waiter_id := i \<rparr>) = heap_ok A l"
  "heap_ok A (l\<lparr> flags := fs \<rparr>) = heap_ok A l"
  "heap_ok A (l\<lparr> slots := ss \<rparr>) = heap_ok A l"
  by (rule heap_frame; simp add: listener_helpers timer_defs)+

lemma heap_post: "\<not> is_conn_task t \<Longrightarrow> heap_ok A (post t l) = heap_ok A l"
  by (rule heap_frame) (simp_all add: post_def)

lemma heap_finish [simp]: "heap_ok A (acceptor_finish ec reason l) = heap_ok A l"
  by (rule heap_frame; cases "m_state l = listener_stopped")
    (simp_all add: acceptor_finish_fields,
     simp add: acceptor_finish_def Let_def listener_helpers timer_defs release_waiters_closed)

lemma heap_parts [simp]:
  "heap_ok A (acceptor_maybe_finish l) = heap_ok A l"
  "heap_ok A (acceptor_enter_stopping ec reason l) = heap_ok A l"
  "heap_ok A (acceptor_accept_throws e l) = heap_ok A l"
  "heap_ok A (acceptor_report_accept_error ec l) = heap_ok A l"
  "heap_ok A (acceptor_factory_failed info e l) = heap_ok A l"
  "heap_ok A (acceptor_report_finished info ec ep l) = heap_ok A l"
  "heap_ok A (acceptor_enter_starting l) = heap_ok A l"
  "heap_ok A (acceptor_publish_endpoint r l) = heap_ok A l"
  by (simp_all add: acceptor_maybe_finish_def acceptor_enter_stopping_def acceptor_accept_throws_def
      acceptor_report_accept_error_def acceptor_factory_failed_def acceptor_report_finished_def
      Let_def) (rule heap_frame; simp add: acceptor_enter_starting_def listener_helpers
      acceptor_publish_endpoint_def Let_def)+

lemma forced_frame:
  assumes "m_state l' = m_state l" "conns l' = conns l" "set (pending l) \<subseteq> set (pending l')"
    "forced_ok A l"
  shows "forced_ok A l'"
  using assms by (auto simp: forced_ok_def unfinished_def)

lemma forced_other_state [simp]: "m_state l \<noteq> listener_stopping \<Longrightarrow> forced_ok A l"
  by (simp add: forced_ok_def)

subsection \<open>Stopping and accepting\<close>

text \<open>An unfinished connection is in the session list.\<close>

lemma unfinished_in_sessions:
  assumes "heap_ok A l" and "unfinished l a"
  shows "a \<in> set (m_sessions l)"
proof -
  have a: "a < length (conns l)" "\<not> conn_finished (conns l ! a)"
    using assms(2) by (simp_all add: unfinished_def)
  then have "conn_ids l ! a \<in># live_ids l"
    by (auto simp: live_ids_def intro!: imageI)
  then have "conn_ids l ! a \<in># session_ids l"
    using assms(1) by (simp add: heap_ok_def ids_ok_def)
  then obtain b where b: "b \<in> set (m_sessions l)" "conn_ids l ! a = conn_ids l ! b" by auto
  then have "b < length (conns l)" using assms(1) by (auto simp: heap_ok_def addresses_ok_def)
  with a b assms(1) have "a = b"
    by (metis heap_ok_def ids_ok_def length_map nth_eq_iff_index_eq)
  with b show ?thesis by simp
qed

lemma sessions_in_range: "heap_ok A l \<Longrightarrow> set (m_sessions l) \<subseteq> {..<length (conns l)}"
  by (simp add: heap_ok_def addresses_ok_def)

lemma conn_effect_force_all:
  assumes "heap_ok A l" and "\<forall>a. r_notify_owner r a"
  shows "conn_effect l (fold (conn_force_close r) (m_sessions l) l)"
    and "conn_effect l (fold (conn_request_stop r) (m_sessions l) l)"
  using sessions_in_range [OF assms(1)] assms(2)
  by (auto intro!: conn_effect_fold conn_effect_force conn_effect_request_stop)

lemma all_forced:
  assumes heap: "heap_ok A l" and r: "\<forall>a. r_notify_owner r a"
  shows "forced_ok B (fold (conn_force_close r) (m_sessions l) l)"
proof -
  let ?l = "fold (conn_force_close r) (m_sessions l) l"
  have "Conn_force a \<in> set (pending ?l)" if "unfinished ?l a" for a
  proof -
    have "unfinished l a"
      using that conn_effect_force_all(1) [OF heap r] by (simp add: conn_effect_def)
    then have "a \<in> set (m_sessions l)" by (rule unfinished_in_sessions [OF heap])
    then show ?thesis by (rule fold_force_close_forces [OF r sessions_in_range [OF heap] _ that])
  qed
  then show ?thesis by (simp add: forced_ok_def)
qed

lemma heap_arm_shutdown:
  assumes "heap_ok A l" and "\<forall>a. r_notify_owner r a"
  shows "heap_ok A (acceptor_arm_shutdown r l)" and "forced_ok B (acceptor_arm_shutdown r l)"
proof -
  show "heap_ok A (acceptor_arm_shutdown r l)"
    using assms heap_conn_effect [OF conn_effect_force_all(1) [OF assms] assms(1)]
    by (simp add: acceptor_arm_shutdown_def heap_post split: option.split)
  show "forced_ok B (acceptor_arm_shutdown r l)"
    using all_forced [OF assms] unfinished_in_sessions [OF assms(1)]
    by (auto simp: acceptor_arm_shutdown_def split: option.split) (auto simp: forced_ok_def post_def)
qed

lemma heap_stop_sessions:
  assumes "heap_ok A l" and "\<forall>a. r_notify_owner r a"
  shows "heap_ok A (acceptor_stop_sessions r l)" and "forced_ok B (acceptor_stop_sessions r l)"
  using heap_arm_shutdown [OF heap_conn_effect [OF conn_effect_force_all(2) [OF assms] assms(1)]
      assms(2)]
  by (simp_all add: acceptor_stop_sessions_def)

lemma forced_maybe_finish: "forced_ok A l \<Longrightarrow> forced_ok A (acceptor_maybe_finish l)"
  by (auto simp: acceptor_maybe_finish_def acceptor_finish_fields)

lemma heap_inv_maybe_finish: "heap_inv A l \<Longrightarrow> heap_inv A (acceptor_maybe_finish l)"
  by (simp add: heap_inv_def forced_maybe_finish)

lemma heap_inv_begin_stop:
  assumes "heap_inv A l" and "\<forall>a. r_notify_owner r a"
  shows "heap_inv A (acceptor_begin_stop ec reason r l)"
proof (cases "m_state l = listener_starting \<or> m_state l = listener_running")
  case True
  have "heap_ok A (acceptor_enter_stopping ec reason l)" using assms by (simp add: heap_inv_def)
  from heap_stop_sessions [OF this assms(2)] show ?thesis
    by (simp add: acceptor_begin_stop_active [OF True] heap_inv_def forced_maybe_finish)
next
  case False
  with assms(1) show ?thesis
    by (auto simp: acceptor_begin_stop_def heap_inv_def Let_def acceptor_finish_fields)
qed

lemma forced_helpers [simp]:
  "forced_ok A (record_diagnostic ec ep l) = forced_ok A l"
  "forced_ok A (emit type info ec ep l) = forced_ok A l"
  "forced_ok A (complete h ec l) = forced_ok A l"
  "forced_ok A (clear_slot c l) = forced_ok A l"
  "forced_ok A (acceptor_accept_throws e l) = forced_ok A l"
  "forced_ok A (acceptor_report_accept_error ec l) = forced_ok A l"
  "forced_ok A (acceptor_factory_failed info e l) = forced_ok A l"
  "forced_ok A (acceptor_report_finished info ec ep l) = forced_ok A l"
  "forced_ok A (l\<lparr> m_accept_pending := b \<rparr>) = forced_ok A l"
  "forced_ok A (l\<lparr> m_consecutive_accept_errors := n \<rparr>) = forced_ok A l"
  "forced_ok A (l\<lparr> m_waiters := ws \<rparr>) = forced_ok A l"
  "forced_ok A (l\<lparr> m_next_waiter_id := i \<rparr>) = forced_ok A l"
  "forced_ok A (l\<lparr> flags := fs \<rparr>) = forced_ok A l"
  "forced_ok A (l\<lparr> slots := ss \<rparr>) = forced_ok A l"
  by (simp_all add: forced_ok_def unfinished_def listener_helpers acceptor_accept_throws_def
      acceptor_report_accept_error_def acceptor_factory_failed_def acceptor_report_finished_def
      Let_def)

lemma forced_post [simp]: "forced_ok A l \<Longrightarrow> forced_ok A (post t l)"
  by (rule forced_frame) (auto simp: post_def)

lemma heap_inv_helpers [simp]:
  "heap_inv A (record_diagnostic ec ep l) = heap_inv A l"
  "heap_inv A (emit type info ec ep l) = heap_inv A l"
  "heap_inv A (complete h ec l) = heap_inv A l"
  "heap_inv A (clear_slot c l) = heap_inv A l"
  "heap_inv A (acceptor_accept_throws e l) = heap_inv A l"
  "heap_inv A (acceptor_report_accept_error ec l) = heap_inv A l"
  "heap_inv A (acceptor_factory_failed info e l) = heap_inv A l"
  "heap_inv A (acceptor_report_finished info ec ep l) = heap_inv A l"
  "heap_inv A (l\<lparr> m_accept_pending := b \<rparr>) = heap_inv A l"
  "heap_inv A (l\<lparr> m_consecutive_accept_errors := n \<rparr>) = heap_inv A l"
  "heap_inv A (l\<lparr> m_waiters := ws \<rparr>) = heap_inv A l"
  "heap_inv A (l\<lparr> m_next_waiter_id := i \<rparr>) = heap_inv A l"
  "heap_inv A (l\<lparr> flags := fs \<rparr>) = heap_inv A l"
  "heap_inv A (l\<lparr> slots := ss \<rparr>) = heap_inv A l"
  by (simp_all add: heap_inv_def)

lemma heap_inv_post: "\<not> is_conn_task t \<Longrightarrow> heap_inv A l \<Longrightarrow> heap_inv A (post t l)"
  by (simp add: heap_inv_def heap_post)

lemma heap_inv_running: "heap_ok A l \<Longrightarrow> m_state l \<noteq> listener_stopping \<Longrightarrow> heap_inv A l"
  by (simp add: heap_inv_def)

lemma heap_inv_accept_next:
  assumes "heap_inv A l" and "\<forall>a. r_notify_owner r a"
  shows "heap_inv A (snd (acceptor_accept_next reason r l))"
  using assms
  by (simp add: acceptor_accept_next_def Let_def heap_inv_maybe_finish heap_inv_begin_stop
      heap_inv_post split: option.split)

lemma heap_inv_retry_expired:
  assumes "heap_inv A l" and "\<forall>a. r_notify_owner r a"
  shows "heap_inv A (acceptor_retry_expired ec r l)"
  using assms
  by (simp add: acceptor_retry_expired_def heap_inv_maybe_finish heap_inv_begin_stop
      heap_inv_accept_next)

lemma heap_inv_retry_accept:
  assumes "heap_ok A l" and "m_state l = listener_running" and "\<forall>a. r_notify_owner r a"
  shows "heap_inv A (acceptor_retry_accept ec r l)"
proof -
  have "heap_inv A l" using assms by (simp add: heap_inv_running)
  moreover have "heap_inv A (cancel_retry_timer l)"
    if "heap_ok A l" "m_state l = listener_running" for l :: "'a acceptor"
    using that by (intro heap_inv_running) (simp_all, simp add: timer_defs)
  ultimately show ?thesis using assms
    by (simp add: acceptor_retry_accept_def acceptor_arm_retry_def Let_def heap_inv_begin_stop
        heap_inv_post split: option.split)
qed

subsection \<open>Sessions come and go\<close>

lemma heap_inv_shutdown_expired:
  assumes heap: "heap_ok A l" and "forced_ok A l \<or> ec = no_error" and r: "\<forall>a. r_notify_owner r a"
  shows "heap_inv A (acceptor_shutdown_expired ec r l)"
proof -
  define l1 where "l1 = emit shutdown_forced no_connection timed_out None (record_diagnostic timed_out None l)"
  have "heap_ok A l1" using heap by (simp add: l1_def)
  note this [THEN conn_effect_force_all(1) [OF _ r], THEN heap_conn_effect, OF this]
    all_forced [OF this r]
  with assms show ?thesis
    by (auto simp: acceptor_shutdown_expired_def Let_def heap_inv_def l1_def [symmetric])
qed

lemma heap_add_session:
  assumes heap: "heap_ok {} l" and new: "\<forall>i \<in> set (conn_ids l). i < ci_id info"
    and le: "ci_id info = m_next_connection_id l"
  shows "heap_ok {length (conns l)} (acceptor_add_session info l)"
proof -
  have old: "addresses_ok l" "ids_ok l" "\<And>a. unfinished l a \<Longrightarrow> driven l a"
    using heap by (simp_all add: heap_ok_def)
  define l' where "l' = l\<lparr> conns := conns l @ [new_connection (m_id l) info],
    m_sessions := m_sessions l @ [length (conns l)], m_active_sessions := m_active_sessions l + 1 \<rparr>"
  have "addresses_ok l'"
    using old(1) by (simp add: addresses_ok_def l'_def subset_iff less_Suc_eq)
  moreover have "ids_ok l'"
  proof -
    have ids: "conn_ids l' = conn_ids l @ [ci_id info]"
      by (simp add: l'_def new_connection_def)
    have "session_ids l' = add_mset (ci_id info) (session_ids l)"
      using old(1) unfolding ids
      by (auto simp: l'_def addresses_ok_def nth_append intro!: image_mset_cong)
    moreover have "live_ids l' = add_mset (ci_id info) (live_ids l)"
      by (simp add: l'_def live_ids_def new_connection_def)
    ultimately have "session_ids l' = live_ids l'" using old(2) by (metis ids_ok_def)
    moreover have "distinct (conn_ids l')" "\<forall>i \<in> set (conn_ids l'). i \<le> m_next_connection_id l'"
      unfolding ids using old(2) new le by (auto simp: ids_ok_def l'_def)
    ultimately show ?thesis by (simp only: ids_ok_def simp_thms)
  qed
  moreover have "driven l' a" if "unfinished l' a" "a \<noteq> length (conns l)" for a
    using that old(3) [of a]
    by (auto simp: l'_def unfinished_def driven_def nth_append split: if_splits)
  ultimately have "heap_ok {length (conns l)} l'" by (auto simp: heap_ok_def)
  then show ?thesis by (simp add: acceptor_add_session_def Let_def l'_def)
qed

lemma heap_launch_session:
  assumes "heap_ok {a} l" and a: "a < length (conns l)" and r: "r_notify_owner r a"
  shows "heap_ok {} (acceptor_launch_session a r l)"
proof -
  let ?l = "acceptor_launch_session a r l"
  have "conn_effect l ?l"
    using a r by (simp add: acceptor_launch_session_def conn_effect_force conn_effect_post)
  then have "heap_ok {a} ?l" using assms(1) by (rule heap_conn_effect)
  moreover have "\<not> unfinished ?l a \<or> driven ?l a"
    using force_close_forces [OF a, of r]
    by (cases "r_start_post r") (auto simp: acceptor_launch_session_def driven_def post_def)
  ultimately show ?thesis by (auto simp: heap_ok_def)
qed

lemma heap_inv_accepted_running:
  assumes heap: "heap_inv {} l" and room: "m_next_connection_id l \<noteq> - 1"
    and r: "\<forall>a. r_notify_owner r a"
  shows "heap_inv {} (acceptor_accepted ec r l)"
proof -
  define l1 where "l1 = l\<lparr> m_accept_pending := False \<rparr>"
  define l2 where "l2 = l1\<lparr> m_consecutive_accept_errors := 0,
    m_next_connection_id := m_next_connection_id l1 + 1 \<rparr>"
  define info where "info = accepted_info r l2"
  have "unat (m_next_connection_id l + 1) = unat (m_next_connection_id l) + 1"
    using room by (rule unat_plus_one)
  then have less: "i < m_next_connection_id l + 1" if "i \<le> m_next_connection_id l" for i
    using that by (simp add: word_less_nat_alt word_le_nat_alt)
  have ok: "heap_ok {} l1" using heap by (simp add: l1_def heap_inv_def)
  have ids: "\<forall>i \<in> set (conn_ids l2). i < ci_id info"
    using ok less by (auto simp: l1_def l2_def info_def accepted_info_def heap_ok_def ids_ok_def)
  then have l2: "heap_ok {} l2"
    using ok by (force simp: heap_ok_def ids_ok_def addresses_ok_def live_ids_def unfinished_def
        driven_def l2_def info_def accepted_info_def)
  let ?l3 = "acceptor_launch_session (length (conns l2)) r (acceptor_add_session info l2)"
  have "ci_id info = m_next_connection_id l2" by (simp add: info_def accepted_info_def)
  from heap_add_session [OF l2 ids this] have "heap_ok {} ?l3"
    using r by (intro heap_launch_session) (simp_all add: acceptor_add_session_def Let_def emit_def)
  then have "heap_inv {} ?l3" "heap_inv {} l2" if "m_state l = listener_running"
    using that l2 by (auto intro!: heap_inv_running) (simp_all add: l1_def l2_def)
  then show ?thesis
    using heap r ok
    by (auto simp: acceptor_accepted_def l1_def [symmetric] l2_def [symmetric] Let_def
        info_def [symmetric] heap_inv_retry_accept heap_inv_accept_next split: option.split)
      (simp_all add: l1_def heap_inv_maybe_finish heap_inv_accept_next)
qed

lemma heap_inv_accepted:
  assumes "heap_inv {} l" and "m_state l = listener_running \<Longrightarrow> m_next_connection_id l \<noteq> - 1"
    and "\<forall>a. r_notify_owner r a"
  shows "heap_inv {} (acceptor_accepted ec r l)"
  using assms heap_inv_accepted_running [of l r ec]
  by (cases "m_state l = listener_running")
    (simp_all add: acceptor_accepted_def Let_def heap_inv_maybe_finish)

text \<open>A notification that runs erases the session it names.\<close>

lemma finished_session_found:
  assumes heap: "heap_ok A l" and t: "Session_finished_task info ec ep \<in> set (pending l)"
  obtains item where
    "find (\<lambda>a. ci_id (conn_info (conns l ! a)) = ci_id info) (m_sessions l) = Some item"
proof -
  have "ci_id info \<in># live_ids l"
    using mset_concat_map_remove1 [OF t, of finished_ids] by (simp add: live_ids_def)
  then have "ci_id info \<in># session_ids l" using heap by (simp add: heap_ok_def ids_ok_def)
  then obtain b where b: "b \<in> set (m_sessions l)" "conn_ids l ! b = ci_id info" by auto
  then have "b < length (conns l)" using sessions_in_range [OF heap] by blast
  with b have "find (\<lambda>a. ci_id (conn_info (conns l ! a)) = ci_id info) (m_sessions l) \<noteq> None"
    by (auto simp: find_None_iff)
  then show thesis using that by blast
qed

lemma heap_erase_session:
  assumes heap: "heap_ok A l" and t: "Session_finished_task info ec ep \<in> set (pending l)"
  shows "heap_ok A (acceptor_erase_session info
           (l\<lparr> pending := remove1 (Session_finished_task info ec ep) (pending l) \<rparr>))"
    (is "heap_ok A (acceptor_erase_session info ?l)")
proof -
  let ?t = "Session_finished_task info ec ep :: 'a acceptor_task"
  have live: "live_ids l = add_mset (ci_id info) (live_ids ?l)"
    using mset_concat_map_remove1 [OF t, of finished_ids] by (simp add: live_ids_def)
  have ids: "session_ids l = live_ids l" using heap by (simp add: heap_ok_def ids_ok_def)
  have range: "set (m_sessions l) \<subseteq> {..<length (conns l)}" using heap by (rule sessions_in_range)
  obtain item where
    found: "find (\<lambda>a. ci_id (conn_info (conns l ! a)) = ci_id info) (m_sessions l) = Some item"
    using finished_session_found [OF assms] by blast
  let ?l' = "?l\<lparr> m_sessions := remove1 item (m_sessions l), m_active_sessions := m_active_sessions l - 1 \<rparr>"
  have erase: "acceptor_erase_session info ?l = ?l'"
    using found by (simp add: acceptor_erase_session_def)
  have item: "item \<in> set (m_sessions l)" using found by (auto simp: find_Some_iff)
  then have "item < length (conns l)" using range by blast
  with found have item_id: "conn_ids l ! item = ci_id info" by (auto simp: find_Some_iff)
  have "session_ids l = add_mset (ci_id info) (session_ids ?l')"
    using image_mset_add_mset [of "\<lambda>a. conn_ids l ! a" item "mset (m_sessions l) - {#item#}"] item
    by (simp add: item_id)
  then have "session_ids ?l' = live_ids ?l'"
    using ids live by (simp add: live_ids_def)
  moreover have "addresses_ok ?l'"
    using heap by (auto simp: heap_ok_def addresses_ok_def dest: set_remove1D)
  moreover have "driven ?l' a = driven l a" "unfinished ?l' a = unfinished l a" for a
    by (simp_all add: driven_def unfinished_def)
  ultimately show ?thesis using heap unfolding erase by (simp add: heap_ok_def ids_ok_def)
qed

lemma heap_inv_session_finished:
  assumes heap: "heap_inv {} l" and t: "Session_finished_task info ec ep \<in> set (pending l)"
    and r: "\<forall>a. r_notify_owner r a"
  shows "heap_inv {} (acceptor_session_finished info ec ep r
           (l\<lparr> pending := remove1 (Session_finished_task info ec ep) (pending l) \<rparr>))"
    (is "heap_inv {} (acceptor_session_finished info ec ep r ?l)")
proof -
  have "heap_ok {} (acceptor_erase_session info ?l)"
    using heap t by (simp add: heap_inv_def heap_erase_session)
  moreover have "forced_ok {} (acceptor_erase_session info ?l)"
    using heap
    by (auto simp: heap_inv_def forced_ok_def unfinished_def acceptor_erase_session_def
        split: option.split)
  ultimately have "heap_inv {} (acceptor_report_finished info ec ep (acceptor_erase_session info ?l))"
    by (simp add: heap_inv_def)
  then show ?thesis
    using r by (simp add: acceptor_session_finished_def Let_def heap_inv_maybe_finish
        heap_inv_accept_next)
qed

subsection \<open>Every step keeps the invariant\<close>

lemma heap_taken:
  assumes "heap_ok {} l" and "finished_ids t = []"
  shows "heap_ok {a. t = Conn_start a \<or> t = Conn_handler a \<or> t = Conn_force a}
           (l\<lparr> pending := remove1 t (pending l) \<rparr>)"
proof -
  have "mset (concat (map finished_ids (remove1 t (pending l)))) =
      mset (concat (map finished_ids (pending l)))"
    using mset_concat_map_remove1 [of t "pending l" finished_ids] assms(2)
    by (cases "t \<in> set (pending l)") (simp_all add: remove1_idem)
  moreover have "driven (l\<lparr> pending := remove1 t (pending l) \<rparr>) a = driven l a"
    if "\<not> (t = Conn_start a \<or> t = Conn_handler a \<or> t = Conn_force a)" for a
    using that unfolding driven_def by (auto simp: in_set_remove1)
  moreover have "addresses_ok (l\<lparr> pending := remove1 t (pending l) \<rparr>)"
    using assms(1) by (auto simp: heap_ok_def addresses_ok_def dest: set_remove1D)
  ultimately show ?thesis
    using assms(1) unfolding heap_ok_def ids_ok_def live_ids_def unfinished_def
    by (simp, blast)
qed

lemma forced_taken:
  assumes "forced_ok {} l" and "\<And>d. t \<noteq> Shutdown_handler False d"
  shows "forced_ok {a. t = Conn_force a} (l\<lparr> pending := remove1 t (pending l) \<rparr>)"
proof -
  have "Shutdown_handler False d \<in> set (remove1 t (pending l)) \<longleftrightarrow>
      Shutdown_handler False d \<in> set (pending l)" for d
    using assms(2) [of d] by (metis in_set_remove1)
  with assms(1) show ?thesis
    by (auto simp: forced_ok_def unfinished_def in_set_remove1)
qed

text \<open>
  The exception for one connection is closed when the connection has finished, or is driven
  and forced again.
\<close>

lemma heap_inv_close:
  assumes "heap_ok A l" and "forced_ok B l"
    and "\<And>a. a \<in> A \<Longrightarrow> unfinished l a \<Longrightarrow> driven l a" and "\<And>a. a \<in> B \<Longrightarrow> \<not> unfinished l a"
  shows "heap_inv {} l"
  using assms unfolding heap_inv_def heap_ok_def forced_ok_def by blast

lemma heap_inv_start_on_strand:
  assumes "heap_inv {} l" and "\<forall>a. r_notify_owner r a"
  shows "heap_inv {} (acceptor_start_on_strand h r l)"
proof (cases "m_state l = listener_idle \<or> m_state l = listener_stopped")
  case False
  then show ?thesis using assms by (simp add: acceptor_start_on_strand_def)
next
  case True
  define l1 where "l1 = (acceptor_enter_starting l)\<lparr> m_acceptor_open := \<not> failed (r_open r) \<rparr>"
  define n where "n = acceptor_accept_next startup_failure r (acceptor_publish_endpoint r l1)"
  have l1: "heap_ok {} l1" "m_state l1 = listener_starting"
    using assms by (simp_all add: l1_def heap_inv_def)
  then have "heap_inv {} (acceptor_publish_endpoint r l1)" by (simp add: heap_inv_running)
  then have n: "heap_inv {} (snd n)" using assms(2) by (simp add: n_def heap_inv_accept_next)
  then have "heap_inv {} (transition_to listener_running (snd n))"
    by (intro heap_inv_running) (simp_all add: heap_inv_def)
  moreover have "heap_inv {} (acceptor_finish ec startup_failure (complete h ec l1))" for ec
    using l1 by (intro heap_inv_running) (simp_all add: acceptor_finish_fields)
  ultimately show ?thesis
    using True n
    by (auto simp: acceptor_start_on_strand_def l1_def [symmetric] n_def [symmetric] Let_def)
qed

lemma heap_inv_waiting:
  "heap_inv {} l \<Longrightarrow> heap_inv {} (cancel_wait i l)"
  "heap_inv {} l \<Longrightarrow> heap_inv {} (acceptor_wait_task i c h l)"
  by (simp_all add: cancel_wait_def acceptor_wait_task_def split: option.split)

lemma heap_inv_conn_task:
  assumes heap: "heap_inv {} l" and t: "t \<in> set (pending l)" "a \<in> set (task_conns t)"
    and r: "\<forall>a. r_notify_owner r a"
  shows "heap_inv {} (run_task t r (l\<lparr> pending := remove1 t (pending l) \<rparr>))"
    (is "heap_inv {} (run_task t r ?l)")
proof -
  have a: "a < length (conns ?l)"
    using heap t by (auto simp: heap_inv_def heap_ok_def addresses_ok_def)
  have ids: "finished_ids t = []" using t(2) by (cases t) auto
  have taken: "heap_ok {a. t = Conn_start a \<or> t = Conn_handler a \<or> t = Conn_force a} ?l"
    using heap ids by (simp add: heap_inv_def heap_taken)
  have forced: "forced_ok {a. t = Conn_force a} ?l"
    using heap t by (intro forced_taken) (auto simp: heap_inv_def)
  have effect: "conn_effect ?l (run_task t r ?l)"
    using t(2) a r conn_effect_complete [of a ?l r "r_ec r"]
      conn_effect_update [of a ?l "connection_cancel (conns ?l ! a)"]
    by (cases t) (auto intro!: conn_effect_start conn_effect_finish simp: connection_cancel_def)
  have "heap_ok {a. t = Conn_start a \<or> t = Conn_handler a \<or> t = Conn_force a} (run_task t r ?l)"
    "forced_ok {a. t = Conn_force a} (run_task t r ?l)"
    using effect taken forced by (blast intro: heap_conn_effect forced_conn_effect)+
  then show ?thesis
  proof (rule heap_inv_close)
    fix b
    show "\<not> unfinished (run_task t r ?l) b" if "b \<in> {a. t = Conn_force a}"
      using that a t(2) by (auto simp: conn_finish_def notify_owner_def unfinished_def
          connection_finish_result)
    show "driven (run_task t r ?l) b"
      if "b \<in> {a. t = Conn_start a \<or> t = Conn_handler a \<or> t = Conn_force a}"
        and "unfinished (run_task t r ?l) b"
    proof -
      have "t = Conn_start b"
        using that a t(2) by (auto simp: conn_finish_def notify_owner_def unfinished_def
            connection_finish_result connection_complete_result)
      then have "Conn_handler b \<in> set (pending (run_task t r ?l))"
        by (auto simp: conn_start_def Let_def conn_finish_def notify_owner_def post_def
            split: option.split)
      then show ?thesis by (simp add: driven_def)
    qed
  qed
qed

lemma heap_inv_run_task:
  assumes heap: "heap_inv {} l" and en: "acceptor_enabled (Run t) r l"
    and r: "\<forall>a. r_notify_owner r a"
    and room: "t = Accept_handler \<Longrightarrow> m_state l = listener_running \<Longrightarrow> m_next_connection_id l \<noteq> - 1"
  shows "heap_inv {} (run_task t r (l\<lparr> pending := remove1 t (pending l) \<rparr>))"
    (is "heap_inv {} (run_task t r ?l)")
proof -
  have "t \<in> set (pending l)" using en by simp
  have taken: "heap_inv {} ?l"
    if "\<not> is_conn_task t" "\<And>d. t \<noteq> Shutdown_handler False d"
    using that heap heap_taken [of l t] forced_taken [of l t]
    by (cases t) (auto simp: heap_inv_def)
  show ?thesis
  proof (cases "is_conn_task t")
    case True
    then consider a where "a \<in> set (task_conns t)"
      | info ec ep where "t = Session_finished_task info ec ep" by (cases t) auto
    then show ?thesis
      using heap_inv_conn_task [OF heap \<open>t \<in> set (pending l)\<close> _ r] heap_inv_session_finished [OF heap _ r]
        \<open>t \<in> set (pending l)\<close>
      by cases auto
  next
    case False
    show ?thesis
    proof (cases "\<exists>c d. t = Shutdown_handler c d")
      case True
      then obtain c d where t: "t = Shutdown_handler c d" by blast
      have "heap_ok {} ?l" using heap heap_taken [of l t] t by (simp add: heap_inv_def)
      moreover have "forced_ok {} ?l \<or> r_ec r = no_error"
        using taken en False by (cases c) (auto simp: t heap_inv_def timer_delivers_def)
      ultimately show ?thesis using r by (simp add: t heap_inv_shutdown_expired)
    next
      case other: False
      then have "heap_inv {} ?l" using taken False by blast
      moreover have "heap_inv {} (acceptor_accepted ec r ?l)" if "heap_inv {} ?l" "t = Accept_handler" for ec
        using that room r by (intro heap_inv_accepted) simp_all
      ultimately show ?thesis
        using r False other
        by (cases t) (auto simp: acceptor_start_task_def Let_def heap_inv_start_on_strand heap_inv_waiting
            acceptor_stop_on_strand_def heap_inv_begin_stop heap_inv_retry_expired)
    qed
  qed
qed

interpretation sessions: inductive_invariant acceptor_init acceptor_live_step "heap_inv {}"
proof
  fix l l' :: "'h acceptor"
  show "acceptor_init l \<Longrightarrow> heap_inv {} l"
    by (erule acceptor_initE)
      (simp add: fresh_acceptor_def heap_inv_def heap_ok_def addresses_ok_def ids_ok_def live_ids_def
        unfinished_def)
  assume inv: "heap_inv {} l" and "acceptor_live_step l l'"
  from this(2) obtain x r where x: "\<forall>a. r_notify_owner r a" "m_next_connection_id l \<noteq> - 1"
    "acceptor_enabled x r l" "l' = acceptor_do x r l"
    by (rule acceptor_live_stepE)
  show "heap_inv {} l'"
  proof (cases x)
    case (Run t)
    then show ?thesis using inv x by (simp add: heap_inv_run_task)
  next
    case (Report_exception a ep)
    then show ?thesis using inv x by (auto intro: heap_inv_conn_effect [OF conn_effect_update])
  qed (use inv x in \<open>auto simp: acceptor_do_async_start_def acceptor_do_async_wait_def
        acceptor_request_stop_def acceptor_emit_cancellation_def Let_def heap_inv_post
        split: option.split\<close>)
qed

end
