(* ===== verification/Serveza_Acceptor_Drain.thy ===== *)
theory Serveza_Acceptor_Drain
  imports Serveza_Acceptor_Heap
begin

text \<open>
  A stopping listener stops.  Every function object that runs while the listener is stopping
  decreases a measure on the pending function objects, and while the listener is stopping
  one of them can run without the help of a session.
\<close>

fun task_weight :: "nat \<Rightarrow> 'h acceptor_task \<Rightarrow> nat" where
  "task_weight n (Shutdown_handler c d) = 1 + 2 * n"
| "task_weight n (Conn_start a) = 4"
| "task_weight n (Conn_handler a) = 2"
| "task_weight n (Conn_force a) = 2"
| "task_weight n t = 1"

definition drain_measure :: "'h acceptor \<Rightarrow> nat" where
  "drain_measure l = sum_list (map (task_weight (length (m_sessions l))) (pending l))"

lemma task_weight_pos: "0 < task_weight n t"
  by (cases t) auto

lemma task_weight_mono: "n \<le> n' \<Longrightarrow> task_weight n t \<le> task_weight n' t"
  by (cases t) auto

lemma drain_measure_taken:
  assumes "t \<in> set (pending l)"
  shows "drain_measure l = task_weight (length (m_sessions l)) t +
           drain_measure (l\<lparr> pending := remove1 t (pending l) \<rparr>)"
  using assms by (simp add: drain_measure_def sum_list_map_remove1)

lemma drain_measure_post [simp]:
  "drain_measure (post t l) = drain_measure l + task_weight (length (m_sessions l)) t"
  by (simp add: drain_measure_def post_def)

lemma drain_measure_notify_owner: "drain_measure (notify_owner a res r l) \<le> drain_measure l + 1"
  by (auto simp: drain_measure_def notify_owner_def split: option.split)

lemma drain_measure_force: "drain_measure (conn_force_close r a l) \<le> drain_measure l + 2"
  using drain_measure_notify_owner [of a "connection_finish operation_aborted None (conns l ! a)" r l]
  by (simp add: conn_force_close_def conn_finish_def)

lemma drain_measure_force_all:
  "drain_measure (fold (conn_force_close r) as l) \<le> drain_measure l + 2 * length as"
proof (induction as arbitrary: l)
  case (Cons a as)
  show ?case
    using Cons.IH [of "conn_force_close r a l"] drain_measure_force [of r a l] by simp
qed simp

lemma drain_measure_frame:
  "pending l' = pending l \<Longrightarrow> length (m_sessions l') \<le> length (m_sessions l) \<Longrightarrow>
     drain_measure l' \<le> drain_measure l"
  unfolding drain_measure_def by (auto intro!: sum_list_mono task_weight_mono)

definition drains_to :: "nat \<Rightarrow> 'h acceptor \<Rightarrow> bool" where
  "drains_to n l \<longleftrightarrow>
     m_state l = listener_stopped \<or> m_state l = listener_stopping \<and> drain_measure l \<le> n"

lemma drains_maybe_finish: "drains_to n l \<Longrightarrow> drains_to n (acceptor_maybe_finish l)"
  by (auto simp: drains_to_def acceptor_maybe_finish_def acceptor_finish_fields)

lemma drains_stopped_work:
  assumes "m_state l = listener_stopping" and "drain_measure l \<le> n"
  shows "drains_to n (snd (acceptor_accept_next reason r l))"
    "drains_to n (acceptor_begin_stop ec reason r l)"
    "drains_to n (acceptor_maybe_finish l)"
    "drains_to n (complete h ec (clear_slot c l))"
    "drains_to n (acceptor_start_on_strand h r l)"
    "drains_to n (cancel_wait i l)"
    "drains_to n (acceptor_wait_task i c h l)"
proof -
  have l: "drains_to n l" using assms by (simp add: drains_to_def)
  show "drains_to n (acceptor_maybe_finish l)" using l by (rule drains_maybe_finish)
  then show "drains_to n (snd (acceptor_accept_next reason r l))"
    using assms by (simp add: acceptor_accept_next_def)
  show "drains_to n (acceptor_begin_stop ec reason r l)"
    using assms l by (simp add: acceptor_begin_stop_def)
  have frame: "drains_to n l'" if "pending l' = pending l" "m_sessions l' = m_sessions l"
    "m_state l' = m_state l" for l'
    using assms that by (simp add: drains_to_def drain_measure_def)
  show "drains_to n (complete h ec (clear_slot c l))"
    "drains_to n (acceptor_start_on_strand h r l)"
    "drains_to n (acceptor_wait_task i c h l)"
    "drains_to n (cancel_wait i l)"
    using assms
    by (auto intro!: frame simp: complete_def clear_slot_def acceptor_start_on_strand_def
        acceptor_wait_task_def cancel_wait_def split: option.split)
qed

lemma drains_session_finished:
  assumes "m_state l = listener_stopping" and "drain_measure l \<le> n"
  shows "drains_to n (acceptor_session_finished info ec ep r l)"
proof -
  let ?l = "acceptor_report_finished info ec ep (acceptor_erase_session info l)"
  have "pending ?l = pending l" "m_state ?l = m_state l"
    "length (m_sessions ?l) \<le> length (m_sessions l)"
    by (auto simp: acceptor_report_finished_def acceptor_erase_session_def listener_helpers
        length_remove1 split: option.split)
  then have "drains_to n ?l"
    using assms drain_measure_frame [of ?l l] by (simp add: drains_to_def)
  then show ?thesis
    using assms \<open>m_state ?l = m_state l\<close>
    by (simp add: acceptor_session_finished_def Let_def drains_maybe_finish)
qed

lemma drains_shutdown_expired:
  assumes "m_state l = listener_stopping" and "drain_measure l + 2 * length (m_sessions l) \<le> n"
  shows "drains_to n (acceptor_shutdown_expired ec r l)"
proof -
  let ?l = "emit shutdown_forced no_connection timed_out None (record_diagnostic timed_out None l)"
  have l: "pending ?l = pending l" "m_sessions ?l = m_sessions l" by (simp_all add: listener_helpers)
  then have "drain_measure (fold (conn_force_close r) (m_sessions ?l) ?l) \<le> n"
    using drain_measure_force_all [of r "m_sessions ?l" ?l] assms drain_measure_frame [of ?l l]
    by simp
  then show ?thesis
    using assms by (simp add: acceptor_shutdown_expired_def Let_def drains_to_def)
qed

lemma drains_conn_start:
  assumes "m_state l = listener_stopping" and "drain_measure l + 3 \<le> n"
  shows "drains_to n (conn_start a r l)"
proof -
  have "drain_measure (conn_finish a ec ep r (post (Conn_handler a) l)) \<le> drain_measure l + 3" for ec ep
    using drain_measure_notify_owner [of a "connection_finish ec ep (conns (post (Conn_handler a) l) ! a)"
        r "post (Conn_handler a) l"]
    by (simp add: conn_finish_def)
  then have "drain_measure (conn_start a r l) \<le> drain_measure l + 3"
    by (simp add: conn_start_def Let_def split: option.split)
  then show ?thesis using assms by (simp add: drains_to_def)
qed

lemma drains_notify_owner:
  "m_state l = listener_stopping \<Longrightarrow> drain_measure l + 1 \<le> n \<Longrightarrow> drains_to n (notify_owner a res r l)"
  using drain_measure_notify_owner [of a res r l] by (simp add: drains_to_def)

lemma drain_run_task:
  assumes "m_state l = listener_stopping" and "t \<in> set (pending l)"
  shows "drains_to (drain_measure l - 1) (run_task t r (l\<lparr> pending := remove1 t (pending l) \<rparr>))"
    (is "drains_to _ (run_task t r ?l)")
proof -
  have st: "m_state ?l = listener_stopping" using assms by simp
  have n: "drain_measure l = task_weight (length (m_sessions ?l)) t + drain_measure ?l"
    using drain_measure_taken [OF assms(2)] by simp
  have weight: "drain_measure ?l \<le> drain_measure l - 1"
    using n task_weight_pos [of "length (m_sessions ?l)" t] by simp
  note work = drains_stopped_work [OF st weight]
  have flag: "drains_to (drain_measure l - 1) (acceptor_maybe_finish (?l\<lparr> m_accept_pending := False \<rparr>))"
    using st weight by (intro drains_stopped_work(3)) (simp_all add: drain_measure_def)
  have slot: "drains_to (drain_measure l - 1) (acceptor_start_on_strand h r (clear_slot c ?l))" for h c
    using st weight by (intro drains_stopped_work(5)) (simp_all add: drain_measure_def clear_slot_def)
  show ?thesis
  proof (cases t)
    case (Start_task c h)
    then show ?thesis using work(4) slot by (simp add: acceptor_start_task_def Let_def)
  next
    case (Retry_handler c d)
    then show ?thesis using work(1-3) by (simp add: acceptor_retry_expired_def)
  next
    case (Conn_cancel a)
    then show ?thesis using st weight by (simp add: drains_to_def drain_measure_def)
  next
    case (Shutdown_handler c d)
    then show ?thesis using n st by (simp add: drains_shutdown_expired)
  next
    case (Conn_start a)
    then show ?thesis using n st by (simp add: drains_conn_start)
  next
    case (Conn_force a)
    then show ?thesis using n st by (simp add: conn_finish_def drains_notify_owner)
  next
    case (Conn_handler a)
    then show ?thesis using n st by (simp add: drains_notify_owner)
  next
    case (Session_finished_task info ec ep)
    then show ?thesis using drains_session_finished [OF st weight] by simp
  next
    case Accept_handler
    then show ?thesis using flag st by (simp add: acceptor_accepted_def Let_def)
  qed (use work in \<open>simp_all add: acceptor_stop_on_strand_def\<close>)
qed

subsection \<open>Progress\<close>

text \<open>Function objects whose run depends on the body of a session.\<close>

fun needs_session :: "'h acceptor_task \<Rightarrow> bool" where
  "needs_session (Conn_start a) = True"
| "needs_session (Conn_handler a) = True"
| "needs_session t = False"

lemma drain_progress:
  assumes inv: "acceptor_inv l" and heap: "heap_inv {} l" and st: "m_state l = listener_stopping"
  obtains t where "\<not> needs_session t" and "\<And>r. r_ec r = no_error \<Longrightarrow> acceptor_enabled (Run t) r l"
proof (cases "m_accept_pending l")
  case True
  then have "Accept_handler \<in> set (pending l)"
    using inv by (metis acceptor_inv_def count_notin counters_ok_def zero_neq_one)
  then show thesis by (intro that [of Accept_handler]) auto
next
  case False
  then have "m_sessions l \<noteq> []" using inv st by (simp add: acceptor_inv_def lifecycle_ok_def drained_def)
  then have "live_ids l \<noteq> {#}" using heap by (auto simp: heap_inv_def heap_ok_def ids_ok_def)
  then obtain i where "i \<in># live_ids l" by (meson multiset_nonemptyE)
  then consider c where "c \<in> set (conns l)" "\<not> conn_finished c"
    | t where "t \<in> set (pending l)" "finished_ids t \<noteq> []"
    by (fastforce simp: live_ids_def)
  then show thesis
  proof cases
    case 1
    then obtain a where "unfinished l a" by (auto simp: unfinished_def in_set_conv_nth)
    then consider d where "Shutdown_handler False d \<in> set (pending l)" | "Conn_force a \<in> set (pending l)"
      using heap st by (auto simp: heap_inv_def forced_ok_def)
    then show thesis
    proof cases
      case (1 d)
      then show thesis by (intro that [of "Shutdown_handler False d"]) (auto simp: timer_delivers_def)
    next
      case 2
      then show thesis by (intro that [of "Conn_force a"]) auto
    qed
  next
    case (2 t)
    then show thesis by (intro that [of t]) (cases t; auto)+
  qed
qed

lemma all_succeed_simps [simp]:
  "asio_throws_errors all_succeed" "r_ec all_succeed = no_error" "r_notify_owner all_succeed = (\<lambda>_. True)"
  by (simp_all add: all_succeed_def asio_throws_errors_def)

lemma live_reachable:
  assumes "reachable acceptor_init acceptor_live_step l"
  shows "acceptor_inv l" and "heap_inv {} l"
proof -
  have "reachable acceptor_init acceptor_step l"
    using assms
  proof induction
    case (reach_step s t)
    have "acceptor_step s t"
      using reach_step(2) by (cases rule: acceptor_live_step.cases) (auto intro: acceptor_stepI)
    with reach_step(3) show ?case by (rule reachable.reach_step)
  qed (rule reachable.reach_init)
  then show "acceptor_inv l" by (rule acceptor.holds)
  show "heap_inv {} l" using assms by (rule sessions.holds)
qed

lemma drain_do:
  assumes "m_state l = listener_stopping" and "acceptor_enabled (Run t) r l"
  shows "drains_to (drain_measure l - 1) (acceptor_do (Run t) r l)" and "0 < drain_measure l"
proof -
  have t: "t \<in> set (pending l)" using assms(2) by simp
  show "drains_to (drain_measure l - 1) (acceptor_do (Run t) r l)"
    using drain_run_task [OF assms(1) t] by simp
  show "0 < drain_measure l"
    using drain_measure_taken [OF t] task_weight_pos [of "length (m_sessions l)" t] by simp
qed

text \<open>A listener that is stopping can be drained by function objects that need no session.\<close>

interpretation acceptor_drain: drainable
  "\<lambda>t l. \<not> needs_session t \<and> script_enabled (Run t, all_succeed) l"
  "\<lambda>t. script_do (Run t, all_succeed)"
  "\<lambda>l. acceptor_inv l \<and> heap_inv {} l \<and> (m_state l = listener_stopping \<or> m_state l = listener_stopped)"
  "\<lambda>l. m_state l = listener_stopping" drain_measure
proof
  fix l :: "'h acceptor"
  assume inv: "acceptor_inv l \<and> heap_inv {} l \<and> (m_state l = listener_stopping \<or> m_state l = listener_stopped)"
    and st: "m_state l = listener_stopping"
  obtain t where t: "\<not> needs_session t" "acceptor_enabled (Run t) all_succeed l"
    using drain_progress [of l] inv st by (metis all_succeed_simps(2))
  let ?l = "acceptor_do (Run t) all_succeed l"
  have "drains_to (drain_measure l - 1) ?l" "0 < drain_measure l" using drain_do [OF st t(2)] .
  moreover have "acceptor_inv ?l" "heap_inv {} ?l"
    using inv st t(2) inv_run_task [of l all_succeed t] heap_inv_run_task [of l t all_succeed] by simp_all
  ultimately show "\<exists>t. (\<not> needs_session t \<and> script_enabled (Run t, all_succeed) l) \<and>
      (acceptor_inv (script_do (Run t, all_succeed) l) \<and> heap_inv {} (script_do (Run t, all_succeed) l) \<and>
       (m_state (script_do (Run t, all_succeed) l) = listener_stopping \<or>
        m_state (script_do (Run t, all_succeed) l) = listener_stopped)) \<and>
      (m_state (script_do (Run t, all_succeed) l) = listener_stopping \<longrightarrow>
       drain_measure (script_do (Run t, all_succeed) l) < drain_measure l)"
    using t by (intro exI [of _ t]) (auto simp: drains_to_def script_enabled_def script_do_def)
qed

lemma stop_completes:
  assumes "acceptor_inv l" and "heap_inv {} l" and "m_state l = listener_stopping"
  shows "\<exists>ts l'. acceptor_run (map (\<lambda>t. (Run t, all_succeed)) ts) l = Some l' \<and>
    m_state l' = listener_stopped \<and> (\<forall>t \<in> set ts. \<not> needs_session t)"
proof -
  obtain ts l' where "run_script (\<lambda>t l. \<not> needs_session t \<and> script_enabled (Run t, all_succeed) l)
      (\<lambda>t. script_do (Run t, all_succeed)) ts l = Some l'" "m_state l' = listener_stopped"
    using acceptor_drain.drains [of l] assms by blast
  with run_script_map [of "\<lambda>t. \<not> needs_session t" script_enabled "\<lambda>t. (Run t, all_succeed)" script_do]
  show ?thesis unfolding acceptor_run_def by blast
qed

text \<open>
  C1: a stop completes without the help of any session.  From every reachable stopping state
  there is a run of pending function objects, none of them the start or the completion
  handler of a session, after which the listener is stopped: sessions that ignore
  cancellation are closed by the shutdown timer.
\<close>

theorem acceptor_stop_completes:
  assumes "reachable acceptor_init acceptor_live_step l" and "m_state l = listener_stopping"
  shows "\<exists>ts l'. acceptor_run (map (\<lambda>t. (Run t, all_succeed)) ts) l = Some l' \<and>
    m_state l' = listener_stopped \<and> (\<forall>t \<in> set ts. \<not> needs_session t)"
  using live_reachable [OF assms(1)] assms(2) by (rule stop_completes)

text \<open>The states a script passes before each of its actions.\<close>

fun visited :: "('h acceptor_action \<times> asio) list \<Rightarrow> 'h acceptor \<Rightarrow> 'h acceptor list" where
  "visited [] l = []"
| "visited ((x, r) # script) l = l # visited script (acceptor_do x r l)"

text \<open>
  C14: a stop cannot be delayed forever by the order in which handlers run.  Whichever pending
  function objects run and whatever the environment answers, a listener passes through at
  most \<open>drain_measure\<close> runs while it is stopping, and the one it leaves that state with stops
  it.
\<close>

theorem acceptor_stop_bounded:
  assumes "acceptor_run script l = Some l'" and "\<forall>(x, r) \<in> set script. \<exists>t. x = Run t"
    and "\<forall>s \<in> set (visited script l). m_state s = listener_stopping" and "script \<noteq> []"
  shows "length script \<le> drain_measure l
    \<and> (m_state l' = listener_stopped \<or>
       m_state l' = listener_stopping \<and> drain_measure l' + length script \<le> drain_measure l)"
  using assms
proof (induction script arbitrary: l)
  case (Cons xr script)
  then obtain t r where xr: "xr = (Run t, r)" by (cases xr) auto
  let ?l = "acceptor_do (Run t) r l"
  have en: "acceptor_enabled (Run t) r l" and rest: "acceptor_run script ?l = Some l'"
    using Cons.prems by (auto simp: xr split: if_splits)
  have d: "drains_to (drain_measure l - 1) ?l" "0 < drain_measure l"
    using Cons.prems(3) drain_do [OF _ en] by (simp_all add: xr)
  show ?case
  proof (cases script)
    case Nil
    with d rest show ?thesis by (auto simp: drains_to_def)
  next
    case (Cons yr script')
    then have "m_state ?l = listener_stopping" using Cons.prems(3) by (cases yr) (simp add: xr)
    with d Cons.IH [OF rest] Cons.prems Cons show ?thesis by (auto simp: drains_to_def xr)
  qed
qed simp

text \<open>
  C10: no session is lost.  In every reachable state the identifiers in the session list are
  those of the unfinished connections and of the notifications on the way, with
  multiplicity; every unfinished connection is in the list and has its start, its completion
  handler or its forced end pending; and while the listener is stopping, the shutdown timer
  is armed or every unfinished connection has its forced end pending.
\<close>

theorem acceptor_sessions_accounted:
  assumes "reachable acceptor_init acceptor_live_step l"
  shows "mset (map (\<lambda>a. ci_id (conn_info (conns l ! a))) (m_sessions l)) = live_ids l
    \<and> (\<forall>a. unfinished l a \<longrightarrow> a \<in> set (m_sessions l) \<and> driven l a)
    \<and> (m_state l = listener_stopping \<longrightarrow>
        (\<exists>d. Shutdown_handler False d \<in> set (pending l)) \<or>
        (\<forall>a. unfinished l a \<longrightarrow> Conn_force a \<in> set (pending l)))"
proof -
  have heap: "heap_inv {} l" using assms by (rule sessions.holds)
  then have ok: "heap_ok {} l" by (simp add: heap_inv_def)
  have eq: "map (\<lambda>a. ci_id (conn_info (conns l ! a))) (m_sessions l) = map (\<lambda>a. conn_ids l ! a) (m_sessions l)"
    using sessions_in_range [OF ok] by (auto simp: subset_iff)
  have "mset (map (\<lambda>a. ci_id (conn_info (conns l ! a))) (m_sessions l)) = live_ids l"
    unfolding eq using ok by (simp only: heap_ok_def ids_ok_def)
  moreover have "a \<in> set (m_sessions l) \<and> driven l a" if "unfinished l a" for a
    using that ok unfinished_in_sessions [OF ok] by (auto simp: heap_ok_def)
  moreover have "(\<exists>d. Shutdown_handler False d \<in> set (pending l)) \<or>
      (\<forall>a. unfinished l a \<longrightarrow> Conn_force a \<in> set (pending l))" if "m_state l = listener_stopping"
    using that heap by (auto simp: heap_inv_def forced_ok_def)
  ultimately show ?thesis by blast
qed

subsection \<open>Examples\<close>

lemma acceptor_run_live:
  assumes "acceptor_run script l = Some l'" and "\<forall>(x, r) \<in> set script. \<forall>a. r_notify_owner r a"
    and "\<forall>s \<in> set (visited script l). m_next_connection_id s \<noteq> - 1"
    and "reachable acceptor_init acceptor_live_step l"
  shows "reachable acceptor_init acceptor_live_step l'"
  using assms
proof (induction script arbitrary: l)
  case (Cons xr script)
  obtain x r where xr: "xr = (x, r)" by (cases xr)
  with Cons.prems have "acceptor_live_step l (acceptor_do x r l)"
    by (intro acceptor_live_stepI) (auto split: if_splits)
  with Cons.prems(4) have "reachable acceptor_init acceptor_live_step (acceptor_do x r l)"
    by (rule reach_step)
  with Cons.prems xr show ?case by (intro Cons.IH [of "acceptor_do x r l"]) (auto split: if_splits)
qed simp

lemma example_stopping_live:
  "reachable acceptor_init acceptor_live_step (example_acceptor (example_start @ example_stop))"
proof -
  let ?l = "fresh_acceptor 7 True (path_endpoint ''/run/s'') example_options :: nat acceptor"
  let ?script = "example_start @ example_stop"
  have "reachable acceptor_init acceptor_live_step ?l"
    by (rule reach_init) (unfold acceptor_init_def new_acceptor_def,
      intro exI [of _ 7] exI [of _ True] exI [of _ "path_endpoint ''/run/s''"] exI [of _ example_options],
      simp add: example_options_valid)
  moreover have "\<forall>s \<in> set (visited ?script ?l). m_next_connection_id s \<noteq> - 1" by code_simp
  moreover have "\<forall>(x, r) \<in> set ?script. \<forall>a. r_notify_owner r a"
    by (simp add: example_start_def example_stop_def)
  moreover have "acceptor_run ?script ?l = Some (example_acceptor ?script)"
    using example_runs(2) by (auto simp: example_acceptor_def)
  ultimately show ?thesis using acceptor_run_live by blast
qed

theorem acceptor_stop_completes_witness:
  "\<exists>ts l'. acceptor_run (map (\<lambda>t. (Run t, all_succeed)) ts)
      (example_acceptor (example_start @ example_stop)) = Some l' \<and>
    m_state l' = listener_stopped \<and> (\<forall>t \<in> set ts. \<not> needs_session t)"
  by (rule acceptor_stop_completes [OF example_stopping_live example_states(2)])

theorem acceptor_sessions_accounted_witness:
  "live_ids (example_acceptor (example_start @ example_stop)) = {# 1 #}
   \<and> driven (example_acceptor (example_start @ example_stop)) 0"
proof -
  have "mset (map (\<lambda>a. ci_id (conn_info (conns (example_acceptor (example_start @ example_stop)) ! a)))
      (m_sessions (example_acceptor (example_start @ example_stop)))) = {# 1 #}"
    and "unfinished (example_acceptor (example_start @ example_stop)) 0"
    by code_simp+
  then show ?thesis using acceptor_sessions_accounted [OF example_stopping_live] by metis
qed

theorem acceptor_stop_bounded_witness:
  "length example_drain \<le> drain_measure (example_acceptor (example_start @ example_stop))"
proof -
  let ?l = "example_acceptor (example_start @ example_stop)"
  have "acceptor_run example_drain ?l \<noteq> None" by code_simp
  then obtain l' where "acceptor_run example_drain ?l = Some l'" by blast
  moreover have "\<forall>(x, r) \<in> set example_drain. \<exists>t. x = Run t" by (simp add: example_drain_def)
  moreover have "\<forall>s \<in> set (visited example_drain ?l). m_state s = listener_stopping" by code_simp
  moreover have "example_drain \<noteq> []" by (simp add: example_drain_def)
  ultimately show ?thesis using acceptor_stop_bounded by blast
qed

end
