(* ===== verification/Serveza_Acceptor_Trace.thy ===== *)
theory Serveza_Acceptor_Trace
  imports Serveza_Lifecycle Serveza_Acceptor_Drain
begin

text \<open>
  The accepting listener refines the abstract lifecycle: the events it emits are the labels
  of a run of the lifecycle machine that ends in the listener's own state.
\<close>

definition acceptor_view :: "'h acceptor \<Rightarrow> lifecycle" where
  "acceptor_view l = lifecycle_of (length (m_sessions l)) (session_limit l) l"

abbreviation acc_advances :: "'h acceptor \<Rightarrow> 'h acceptor \<Rightarrow> bool" where
  "acc_advances \<equiv> advances acceptor_view"

lemma acceptor_view_simps [simp]:
  "lc_state (acceptor_view l) = m_state l"
  "lc_generation (acceptor_view l) = m_generation l"
  "lc_sessions (acceptor_view l) = length (m_sessions l)"
  "lc_limit (acceptor_view l) = session_limit l"
  by (simp_all add: acceptor_view_def lifecycle_of_def)

interpretation acc_view: listener_view "acceptor_view :: 'h acceptor \<Rightarrow> lifecycle"
proof
  fix l l' :: "'h acceptor"
  assume "listener_base.more l' = listener_base.more l" and "m_options l' = m_options l"
  then show "acceptor_view l' =
      (acceptor_view l)\<lparr> lc_state := m_state l', lc_generation := m_generation l' \<rparr>"
    by (cases l; cases l') (simp add: acceptor_view_def lifecycle_of_def)
qed simp_all

lemma acc_quiet:
  assumes "m_state l' = m_state l" "m_generation l' = m_generation l" "m_options l' = m_options l"
    and "length (m_sessions l') = length (m_sessions l)"
    and "m_observers l' = m_observers l" "events l' = events l"
  shows "acc_advances l l'"
  using assms by (intro advances_quiet) (simp_all add: acceptor_view_def lifecycle_of_def)

lemma acc_members [simp]:
  "acc_advances l (l\<lparr> m_acceptor_open := b \<rparr>)"
  "acc_advances l (l\<lparr> m_accept_pending := b \<rparr>)"
  "acc_advances l (l\<lparr> m_consecutive_accept_errors := n \<rparr>)"
  "acc_advances l (l\<lparr> m_next_connection_id := i \<rparr>)"
  "acc_advances l (l\<lparr> conns := cs \<rparr>)"
  "acc_advances l (cancel_retry_timer l)"
  "acc_advances l (cancel_shutdown_timer l)"
  "acc_advances l (acceptor_publish_endpoint r l)"
  by (simp_all add: acc_quiet timer_defs acceptor_publish_endpoint_def)

lemma acc_conn_change: "conn_change l l' \<Longrightarrow> acc_advances l l'"
  unfolding conn_change_def by (auto intro!: acc_quiet)

lemma acc_report [simp]:
  "acc_advances l (acceptor_factory_failed info e l)"
  "acc_advances l (acceptor_accept_throws e l)"
  "acc_advances l (acceptor_report_accept_error ec l)"
  by (auto simp: acceptor_factory_failed_def acceptor_accept_throws_def Let_def
      acceptor_report_accept_error_def intro!: advances_trans [OF _ acc_view.quiet_emit]
      advances_trans [OF acc_members(2) acc_view.quiet_helpers(1)])

lemma acc_stop_sessions: "acc_advances l (acceptor_stop_sessions r l)"
proof -
  let ?l = "fold (conn_request_stop r) (m_sessions l) l"
  have "acc_advances l ?l" by (simp add: acc_conn_change conn_change_fold)
  also have "acc_advances ?l (acceptor_arm_shutdown r ?l)"
    by (auto simp: acceptor_arm_shutdown_def acc_conn_change conn_change_fold split: option.split
        intro: advances_trans [OF acc_members(7) acc_view.quiet_helpers(4)])
  finally show ?thesis by (simp add: acceptor_stop_sessions_def)
qed

lemma acc_finish:
  assumes "m_state l = listener_starting \<or> m_state l = listener_stopping" and "m_sessions l = []"
  shows "acc_advances l (acceptor_finish ec reason l)"
proof -
  define l1 where "l1 = cancel_shutdown_timer (cancel_retry_timer ((keep_first_error ec
    (set_stop_reason reason (l\<lparr> m_terminal_error := ec \<rparr>)))\<lparr> m_acceptor_open := False \<rparr>))"
  have "acc_advances l l1"
    by (rule acc_quiet) (simp_all add: l1_def timer_defs listener_helpers)
  also have "acc_advances l1 (transition_to listener_stopped l1)"
    by (rule acc_view.enter_stopped) (use assms in \<open>simp_all add: l1_def timer_defs listener_helpers\<close>)
  also have "acc_advances (transition_to listener_stopped l1) (release_waiters (transition_to listener_stopped l1))"
    by simp
  finally show ?thesis
    using assms(1) by (auto simp: acceptor_finish_def Let_def l1_def)
qed

lemma acc_maybe_finish: "acc_advances l (acceptor_maybe_finish l)"
  by (simp add: acceptor_maybe_finish_def acc_finish)

lemma acc_enter_stopping:
  assumes "m_state l \<noteq> listener_stopping" and "m_state l \<noteq> listener_stopped"
  shows "acc_advances l (acceptor_enter_stopping ec reason l)"
proof -
  define l1 where "l1 = set_stop_reason reason (l\<lparr> m_terminal_error := ec \<rparr>)"
  have "acc_advances l l1" by (rule acc_quiet) (simp_all add: l1_def listener_helpers)
  also have "acc_advances l1 (transition_to listener_stopping l1)"
    by (rule acc_view.enter_stopping) (use assms in \<open>simp_all add: l1_def set_stop_reason_def\<close>)
  also have "acc_advances (transition_to listener_stopping l1) (acceptor_enter_stopping ec reason l)"
    by (rule acc_quiet) (simp_all add: acceptor_enter_stopping_def Let_def l1_def timer_defs)
  finally show ?thesis .
qed

lemma acc_begin_stop:
  assumes "m_state l = listener_idle \<Longrightarrow> m_sessions l = []"
  shows "acc_advances l (acceptor_begin_stop ec reason r l)"
proof -
  consider (idle) "m_state l = listener_idle" | (active) "m_state l = listener_starting \<or> m_state l = listener_running"
    | (other) "m_state l = listener_stopping \<or> m_state l = listener_stopped"
    by (cases "m_state l") auto
  then show ?thesis
  proof cases
    case idle
    define l1 where "l1 = set_stop_reason reason (l\<lparr> m_terminal_error := ec \<rparr>)"
    have "acc_advances l l1" by (rule acc_quiet) (simp_all add: l1_def listener_helpers)
    also have "acc_advances l1 (transition_to listener_stopping l1)"
      by (rule acc_view.enter_stopping) (use idle in \<open>simp_all add: l1_def set_stop_reason_def\<close>)
    also have "acc_advances (transition_to listener_stopping l1)
        (acceptor_finish ec reason (transition_to listener_stopping l1))"
      by (rule acc_finish) (use assms idle in \<open>simp_all add: l1_def listener_helpers\<close>)
    finally show ?thesis using idle by (simp add: acceptor_begin_stop_def Let_def l1_def)
  next
    case active
    let ?l = "acceptor_enter_stopping ec reason l"
    have "acc_advances l ?l" by (rule acc_enter_stopping) (use active in auto)
    also have "acc_advances ?l (acceptor_stop_sessions r ?l)" by (rule acc_stop_sessions)
    also have "acc_advances (acceptor_stop_sessions r ?l) (acceptor_maybe_finish (acceptor_stop_sessions r ?l))"
      by (rule acc_maybe_finish)
    finally show ?thesis by (simp add: acceptor_begin_stop_active [OF active])
  qed (auto simp: acceptor_begin_stop_def)
qed

lemma acc_accept_next: "acc_advances l (snd (acceptor_accept_next reason r l))"
proof (cases "(m_state l = listener_starting \<or> m_state l = listener_running) \<and> \<not> m_accept_pending l \<and>
    length (m_sessions l) < session_limit l")
  case True
  let ?l = "l\<lparr> m_accept_pending := True \<rparr>"
  have "acc_advances l (post Accept_handler ?l)"
    by (rule acc_quiet) (simp_all add: post_def)
  moreover have "acc_advances l (acceptor_begin_stop ec reason r (acceptor_accept_throws e ?l))" for ec e
  proof -
    have "acc_advances l ?l" by simp
    also have "acc_advances ?l (acceptor_accept_throws e ?l)" by simp
    also have "acc_advances (acceptor_accept_throws e ?l)
        (acceptor_begin_stop ec reason r (acceptor_accept_throws e ?l))"
      by (rule acc_begin_stop) (use True in auto)
    finally show ?thesis .
  qed
  ultimately show ?thesis
    using True by (auto simp: acceptor_accept_next_def Let_def split: option.split)
qed (auto simp: acceptor_accept_next_def acc_maybe_finish)

lemma acc_retry_accept:
  assumes "m_state l = listener_running"
  shows "acc_advances l (acceptor_retry_accept ec r l)"
proof -
  let ?l = "acceptor_report_accept_error ec l"
  let ?l1 = "?l\<lparr> m_consecutive_accept_errors := m_consecutive_accept_errors ?l + 1 \<rparr>"
  have l: "acc_advances l ?l" by simp
  also have l1: "acc_advances ?l ?l1" by simp
  finally have l1: "acc_advances l ?l1" .
  have stop: "acc_advances l (acceptor_begin_stop ec reason r l2)"
    if "acc_advances l l2" "m_state l2 = listener_running" for l2 ec reason
    using that acc_begin_stop [of l2] by (auto intro: advances_trans)
  have "acc_advances l (acceptor_arm_retry r ?l1)"
  proof (cases "r_retry_timer r")
    case None
    have "acc_advances ?l1 (acceptor_arm_retry r ?l1)"
      unfolding acceptor_arm_retry_def None option.case
      by (rule advances_trans [OF acc_members(6) acc_view.quiet_helpers(4)])
    with l1 show ?thesis by (rule advances_trans)
  next
    case (Some e)
    then show ?thesis
      using assms by (simp add: acceptor_arm_retry_def stop [OF advances_trans [OF l1 acc_view.quiet_helpers(1)]])
  qed
  then show ?thesis
    unfolding acceptor_retry_accept_def Let_def using stop [OF l] stop [OF l1] assms by simp
qed

lemma acc_retry_expired:
  "(m_state l = listener_idle \<Longrightarrow> m_sessions l = []) \<Longrightarrow> acc_advances l (acceptor_retry_expired ec r l)"
  by (simp add: acceptor_retry_expired_def acc_maybe_finish acc_begin_stop acc_accept_next)

lemma acc_shutdown_expired: "acc_advances l (acceptor_shutdown_expired ec r l)"
proof -
  define l1 where "l1 = emit shutdown_forced no_connection timed_out None (record_diagnostic timed_out None l)"
  have "acc_advances l (record_diagnostic timed_out None l)" by simp
  also have "acc_advances (record_diagnostic timed_out None l) l1"
    unfolding l1_def by (rule acc_view.quiet_emit) simp
  also have "acc_advances l1 (fold (conn_force_close r) (m_sessions l1) l1)"
    by (simp add: acc_conn_change conn_change_fold)
  finally show ?thesis by (simp add: acceptor_shutdown_expired_def Let_def l1_def)
qed

lemma acc_emit_step:
  assumes "lifecycle_step (acceptor_view l) e (acceptor_view l')"
    and "lifecycle_event_of type (status_of l') = [e]"
    and "m_observers l' = m_observers l" "events l' = events l"
  shows "acc_advances l (emit type info ec ep l')"
proof -
  have "acceptor_view (emit type info ec ep l') = acceptor_view l'"
    by (simp add: acceptor_view_def lifecycle_of_def emit_def)
  with assms show ?thesis by (intro advances_emit) (simp_all add: lifecycle_run_single)
qed

lemma acc_add_session:
  assumes "m_state l = listener_running" and "length (m_sessions l) < session_limit l"
  shows "acc_advances l (acceptor_add_session info l)"
proof -
  define l1 where "l1 = l\<lparr> conns := conns l @ [new_connection (m_id l) info],
    m_sessions := m_sessions l @ [length (conns l)], m_active_sessions := m_active_sessions l + 1 \<rparr>"
  have "acceptor_view l1 = (acceptor_view l)\<lparr> lc_sessions := lc_sessions (acceptor_view l) + 1 \<rparr>"
    by (simp add: l1_def acceptor_view_def lifecycle_of_def)
  then have "lifecycle_step (acceptor_view l) Opened (acceptor_view l1)"
    using lc_open [of "acceptor_view l"] assms by simp
  then have "acc_advances l (emit session_started info no_error None l1)"
    by (rule acc_emit_step) (simp_all add: l1_def)
  then show ?thesis by (simp add: acceptor_add_session_def Let_def l1_def)
qed

lemma acc_launch_session: "acc_advances l (acceptor_launch_session a r l)"
  by (simp add: acceptor_launch_session_def acc_conn_change)

lemma acc_accepted:
  assumes "m_state l = listener_running \<Longrightarrow> length (m_sessions l) < session_limit l"
  shows "acc_advances l (acceptor_accepted ec r l)"
proof -
  define l1 where "l1 = l\<lparr> m_accept_pending := False \<rparr>"
  define l2 where "l2 = l1\<lparr> m_consecutive_accept_errors := 0,
    m_next_connection_id := m_next_connection_id l1 + 1 \<rparr>"
  have l1: "acc_advances l l1" and l2: "acc_advances l l2"
    by (rule acc_quiet; simp add: l1_def l2_def)+
  have "acc_advances l (acceptor_launch_session a r (acceptor_add_session info l2))"
    if "m_state l = listener_running" for a info
    using that assms
    by (intro advances_trans [OF l2] advances_trans [OF acc_add_session acc_launch_session])
      (simp_all add: l1_def l2_def)
  moreover have "acc_advances l (acceptor_factory_failed info e l2)" for info e
    using l2 acc_report(1) by (rule advances_trans)
  ultimately have "acc_advances l (snd (acceptor_accept_next runtime_failure r
      (case r_factory r of Some e \<Rightarrow> acceptor_factory_failed info e l2
       | None \<Rightarrow> acceptor_launch_session a r (acceptor_add_session info l2))))"
    if "m_state l = listener_running" for a info
    using that by (auto intro: advances_trans [OF _ acc_accept_next] split: option.split)
  moreover have "acc_advances l (acceptor_maybe_finish l1)"
    using l1 acc_maybe_finish by (rule advances_trans)
  moreover have "acc_advances l (acceptor_retry_accept ec r l1)" if "m_state l = listener_running"
    by (rule advances_trans [OF l1 acc_retry_accept]) (simp add: l1_def that)
  ultimately show ?thesis
    by (simp add: acceptor_accepted_def Let_def l1_def [symmetric] l2_def [symmetric])
      (simp add: l1_def)
qed

lemma acc_session_finished:
  assumes heap: "heap_ok A l" and t: "Session_finished_task info ec ep \<in> set (pending l)"
    and st: "m_state l = listener_running \<or> m_state l = listener_stopping"
  shows "acc_advances l (acceptor_session_finished info ec ep r
    (l\<lparr> pending := remove1 (Session_finished_task info ec ep) (pending l) \<rparr>))"
proof -
  let ?l = "l\<lparr> pending := remove1 (Session_finished_task info ec ep) (pending l) \<rparr>"
  obtain item where found:
    "find (\<lambda>a. ci_id (conn_info (conns l ! a)) = ci_id info) (m_sessions l) = Some item"
    using finished_session_found [OF heap t] .
  then have item: "item \<in> set (m_sessions l)" by (auto simp: find_Some_iff)
  define l1 where "l1 = (if ec \<noteq> operation_aborted \<and> (failed ec \<or> ep \<noteq> None)
    then record_diagnostic ec ep (acceptor_erase_session info ?l) else acceptor_erase_session info ?l)"
  have "acceptor_view l1 = (acceptor_view l)\<lparr> lc_sessions := lc_sessions (acceptor_view l) - 1 \<rparr>"
    "m_observers l1 = m_observers l" "events l1 = events l"
    using found item
    by (simp_all add: l1_def acceptor_erase_session_def acceptor_view_def lifecycle_of_def
        record_diagnostic_def length_remove1)
  moreover have "0 < length (m_sessions l)" using item by auto
  ultimately have "acc_advances l (emit session_stopped info ec ep l1)"
    using lc_close [of "acceptor_view l"] st by (intro acc_emit_step [where e = Closed]) simp_all
  then have "acc_advances l (acceptor_report_finished info ec ep (acceptor_erase_session info ?l))"
    by (simp add: acceptor_report_finished_def l1_def)
  then show ?thesis
    by (auto simp: acceptor_session_finished_def Let_def
        intro: advances_trans [OF _ acc_maybe_finish] advances_trans [OF advances_trans [OF _ acc_accept_next] acc_maybe_finish])
qed

lemma accept_next_fresh:
  assumes "m_state l = listener_starting" "drained l" "counters_ok l" "asio_throws_errors r"
    and "\<not> failed (fst (acceptor_accept_next startup_failure r l))"
  shows "m_state (snd (acceptor_accept_next startup_failure r l)) = listener_starting"
  using assms
  by (auto simp: acceptor_accept_next_def drained_def counters_ok_def asio_throws_errors_def Let_def
      split: option.splits)

lemma acc_start_on_strand:
  assumes inv: "acceptor_inv l" and r: "asio_throws_errors r"
  shows "acc_advances l (acceptor_start_on_strand h r l)"
proof (cases "m_state l = listener_idle \<or> m_state l = listener_stopped")
  case True
  have drained: "drained l" and counters: "counters_ok l"
    using True inv by (auto simp: acceptor_inv_def lifecycle_ok_def)
  define l1 where "l1 = (acceptor_enter_starting l)\<lparr> m_acceptor_open := \<not> failed (r_open r) \<rparr>"
  have "acc_advances l (acceptor_enter_starting l)"
    unfolding acceptor_enter_starting_def Let_def
    by (rule acc_view.enter_starting)
      (use True drained in \<open>simp_all add: drained_def clear_diagnostics_def acceptor.defs\<close>)
  then have l1: "acc_advances l l1" unfolding l1_def by (rule advances_trans) simp
  have st: "m_state l1 = listener_starting" and dr: "drained l1" and co: "counters_ok l1"
    using drained counters
    by (simp_all add: l1_def drained_def acceptor_enter_starting_def Let_def listener_helpers counters_ok_def)
  have failed_start: "acc_advances l (acceptor_finish ec startup_failure (complete h ec l1))" for ec
    by (rule advances_trans [OF advances_trans [OF l1 acc_view.quiet_helpers(5)] acc_finish])
      (use st dr in \<open>simp_all add: drained_def complete_def\<close>)
  let ?l2 = "acceptor_publish_endpoint r l1"
  let ?l3 = "snd (acceptor_accept_next startup_failure r ?l2)"
  have l3: "acc_advances l ?l3"
    by (rule advances_trans [OF l1 advances_trans [OF acc_members(8) acc_accept_next]])
  have "m_state ?l3 = listener_starting" if "\<not> failed (fst (acceptor_accept_next startup_failure r ?l2))"
    by (rule accept_next_fresh)
      (use that st dr co r in \<open>simp_all add: acceptor_publish_endpoint_def drained_def counters_ok_def\<close>)
  then have "acc_advances l (complete h ec (transition_to listener_running ?l3))"
    if "\<not> failed (fst (acceptor_accept_next startup_failure r ?l2))" for ec
    using that by (intro advances_trans [OF l3] advances_trans [OF acc_view.enter_running acc_view.quiet_helpers(5)])
  moreover have "acc_advances l (complete h ec ?l3)" for ec
    using l3 acc_view.quiet_helpers(5) by (rule advances_trans)
  ultimately show ?thesis
    using True failed_start unfolding acceptor_start_on_strand_def Let_def l1_def [symmetric] by auto
qed (auto simp: acceptor_start_on_strand_def)

lemma acc_start_task:
  assumes "acceptor_inv (clear_slot c l)" and "asio_throws_errors r"
  shows "acc_advances l (acceptor_start_task c h r l)"
proof -
  have "acc_advances l (clear_slot c l)" by simp
  also have "acc_advances (clear_slot c l) (acceptor_start_task c h r l)"
    using acc_start_on_strand [OF assms, of h] by (simp add: acceptor_start_task_def Let_def)
  finally show ?thesis .
qed

lemma acc_run_task:
  assumes inv: "acceptor_inv l" and heap: "heap_inv {} l" and r: "asio_throws_errors r"
    and t: "t \<in> set (pending l)"
  shows "acc_advances l (run_task t r (l\<lparr> pending := remove1 t (pending l) \<rparr>))"
proof -
  let ?l = "l\<lparr> pending := remove1 t (pending l) \<rparr>"
  have taken: "acc_advances l ?l" by simp
  have idle: "m_state ?l = listener_idle \<Longrightarrow> m_sessions ?l = []"
    using inv by (simp add: acceptor_inv_def lifecycle_ok_def drained_def)
  show ?thesis
  proof (cases t)
    case (Start_task c h)
    have "acceptor_inv (clear_slot c ?l)"
      using inv_other_task_taken [OF inv, of t] Start_task by (simp add: acceptor_inv_def)
    then have "acc_advances ?l (acceptor_start_task c h r ?l)" using r by (rule acc_start_task)
    from advances_trans [OF taken this] show ?thesis unfolding Start_task by simp
  next
    case (Session_finished_task info ec ep)
    have heap_ok: "heap_ok {} l" using heap by (simp add: heap_inv_def)
    obtain item where
      "find (\<lambda>a. ci_id (conn_info (conns l ! a)) = ci_id info) (m_sessions l) = Some item"
      using finished_session_found [OF heap_ok] t Session_finished_task by blast
    then have "\<not> drained l" by (auto simp: drained_def)
    then have "m_state l = listener_running \<or> m_state l = listener_stopping"
      using inv by (auto simp: acceptor_inv_def lifecycle_ok_def split: listener_state.splits)
    with acc_session_finished [OF heap_ok] t Session_finished_task show ?thesis by simp
  next
    case Accept_handler
    then have "m_accept_pending l"
      using inv t by (metis acceptor_inv_def count_list_0_iff counters_ok_def)
    then have "length (m_sessions ?l) < session_limit ?l"
      using inv by (simp add: acceptor_inv_def counters_ok_def)
    then have "acc_advances ?l (acceptor_accepted (r_ec r) r ?l)" by (rule acc_accepted)
    from advances_trans [OF taken this] show ?thesis unfolding Accept_handler by simp
  next
    case Stop_task
    with advances_trans [OF taken acc_begin_stop [OF idle]] show ?thesis
      by (simp add: acceptor_stop_on_strand_def)
  next
    case (Retry_handler c d)
    with advances_trans [OF taken acc_retry_expired [OF idle]] show ?thesis by simp
  qed (auto simp: acceptor_wait_task_def acc_shutdown_expired acc_conn_change conn_change_start conn_change_notify_owner
     intro!: advances_trans [OF taken] intro: advances_trans [OF acc_view.quiet_helpers(6) acc_view.quiet_helpers(5)])
qed

lemma acc_call:
  assumes "\<And>t. x \<noteq> Run t"
  shows "acc_advances l (acceptor_do x r l)"
proof (rule acc_quiet)
  show "m_state (acceptor_do x r l) = m_state l" "m_generation (acceptor_do x r l) = m_generation l"
    "m_options (acceptor_do x r l) = m_options l" "m_observers (acceptor_do x r l) = m_observers l"
    "length (m_sessions (acceptor_do x r l)) = length (m_sessions l)"
    "events (acceptor_do x r l) = events l"
    using assms
    by (cases x; simp add: acceptor_do_async_start_def acceptor_do_async_wait_def acceptor_request_stop_def
        acceptor_emit_cancellation_def Let_def post_def complete_def clear_slot_def split: option.split)+
qed

lemma acc_step:
  assumes "acceptor_inv l" and "heap_inv {} l" and "acceptor_live_step l l'"
  shows "acc_advances l l'"
  using assms(3)
proof cases
  case (acceptor_live_stepI r x)
  then show ?thesis
    using acc_run_task [OF assms(1,2), of r] acc_call [of x] by (cases "\<exists>t. x = Run t") auto
qed

interpretation acc_trace: inductive_invariant acceptor_init acceptor_live_step
  "\<lambda>l. acceptor_inv l \<and> heap_inv {} l \<and> traced acceptor_view l"
proof
  fix l :: "'h acceptor"
  assume init: "acceptor_init l"
  then have "acceptor_view l = fresh_lifecycle (session_limit l)" "observed l = []"
    by (auto simp: fresh_acceptor_def acceptor_view_def lifecycle_of_def fresh_lifecycle_def
        observed_def elim!: acceptor_initE)
  then show "acceptor_inv l \<and> heap_inv {} l \<and> traced acceptor_view l"
    using acceptor.base [OF init] sessions.base [OF init] by (simp add: traced_fresh)
next
  fix l l' :: "'h acceptor"
  assume inv: "acceptor_inv l \<and> heap_inv {} l \<and> traced acceptor_view l" and step: "acceptor_live_step l l'"
  have "acceptor_step l l'" using step by cases (auto intro: acceptor_stepI)
  then show "acceptor_inv l' \<and> heap_inv {} l' \<and> traced acceptor_view l'"
    using inv acceptor.preserved sessions.preserved [OF _ step] traced_advances acc_step [OF _ _ step] by blast
qed

text \<open>
  C9: the accepting listener refines the lifecycle machine.  What its observers are told, the
  changes of state with their generation and the sessions started and stopped, is a trace of
  the machine that ends in the listener's state: a listener starts only from idle or stopped
  and with a new generation, runs only after starting, starts sessions only while running and
  below its limit, and stops only without sessions.  The sessions started are those stopped
  and those in the session list.
\<close>

theorem acceptor_refines_lifecycle:
  assumes "reachable acceptor_init acceptor_live_step l" and "m_observers l"
  shows "lifecycle_run (fresh_lifecycle (session_limit l)) (observed l) (acceptor_view l)
    \<and> count_list (observed l) Opened = count_list (observed l) Closed + length (m_sessions l)"
proof -
  have run: "lifecycle_run (fresh_lifecycle (session_limit l)) (observed l) (acceptor_view l)"
    using acc_trace.holds [OF assms(1)] assms(2) by (simp add: traced_def)
  with lifecycle_run_balance [OF run] show ?thesis by (simp add: fresh_lifecycle_def)
qed

theorem acceptor_refines_lifecycle_witness:
  "observed (example_acceptor (example_start @ example_stop)) =
     [Entered listener_starting 1, Entered listener_running 1, Opened, Entered listener_stopping 1]
   \<and> lifecycle_run (fresh_lifecycle (session_limit (example_acceptor (example_start @ example_stop))))
      [Entered listener_starting 1, Entered listener_running 1, Opened, Entered listener_stopping 1]
      (acceptor_view (example_acceptor (example_start @ example_stop)))"
proof -
  have "m_observers (example_acceptor (example_start @ example_stop))"
    and "observed (example_acceptor (example_start @ example_stop)) =
     [Entered listener_starting 1, Entered listener_running 1, Opened, Entered listener_stopping 1]"
    by code_simp+
  then show ?thesis using acceptor_refines_lifecycle [OF example_stopping_live] by simp
qed

end
