(* ===== verification/Serveza_Acceptor_Ledger.thy ===== *)
theory Serveza_Acceptor_Ledger
  imports Serveza_Acceptor_Inv
begin

text \<open>
  Completion handlers of the accepting listener.  The handlers a listener holds are those
  captured by a posted start or wait and those of its waiters.  The ledger counts them
  together with the handlers already completed: only a call of \<open>async_start\<close> or
  \<open>async_wait\<close> adds to it, so no handler is ever lost or completed twice.
\<close>

fun task_handlers :: "'h acceptor_task \<Rightarrow> 'h list" where
  "task_handlers (Start_task c h) = [h]"
| "task_handlers (Wait_task i c h) = [h]"
| "task_handlers _ = []"

definition held :: "'h acceptor \<Rightarrow> 'h multiset" where
  "held l = mset (concat (map task_handlers (pending l))) + mset (map w_handler (m_waiters l))"

definition ledger :: "'h acceptor \<Rightarrow> 'h multiset" where
  "ledger l = held l + mset (map fst (completions l))"

fun submitted :: "'h acceptor_action \<Rightarrow> 'h list" where
  "submitted (Call_async_start h connected) = [h]"
| "submitted (Call_async_wait h connected) = [h]"
| "submitted _ = []"

lemma task_handlers_cancelled [simp]:
  "task_handlers (cancel_retry_wait t) = task_handlers t"
  "task_handlers (cancel_shutdown_wait t) = task_handlers t"
  by (cases t; simp)+

lemma map_task_handlers_cancelled [simp]:
  "map (task_handlers \<circ> cancel_retry_wait) ts = map task_handlers ts"
  "map (task_handlers \<circ> cancel_shutdown_wait) ts = map task_handlers ts"
  "map (task_handlers \<circ> (cancel_shutdown_wait \<circ> cancel_retry_wait)) ts = map task_handlers ts"
  by simp_all

lemma conn_task_handlers: "is_conn_task t \<Longrightarrow> task_handlers t = []"
  by (cases t) auto

lemma ledger_conn_change: "conn_change l l' \<Longrightarrow> ledger l' = ledger l"
  by (auto simp: conn_change_def ledger_def held_def conn_task_handlers)

text \<open>The helpers leave the ledger alone; completing a handler adds it.\<close>

lemma ledger_helpers [simp]:
  "ledger (record_diagnostic ec ep l) = ledger l"
  "ledger (emit type info ec ep l) = ledger l"
  "ledger (transition_to st l) = ledger l"
  "ledger (clear_diagnostics l) = ledger l"
  "ledger (set_stop_reason reason l) = ledger l"
  "ledger (keep_first_error ec l) = ledger l"
  "ledger (clear_slot c l) = ledger l"
  "ledger (cancel_retry_timer l) = ledger l"
  "ledger (cancel_shutdown_timer l) = ledger l"
  "ledger (complete h ec l) = add_mset h (ledger l)"
  "ledger (post t l) = mset (task_handlers t) + ledger l"
  by (simp_all add: ledger_def held_def listener_helpers timer_defs)

lemma ledger_updates [simp]:
  "ledger (l\<lparr> m_terminal_error := ec \<rparr>) = ledger l"
  "ledger (l\<lparr> m_acceptor_open := b \<rparr>) = ledger l"
  "ledger (l\<lparr> m_accept_pending := b \<rparr>) = ledger l"
  "ledger (l\<lparr> m_endpoint := e \<rparr>) = ledger l"
  "ledger (l\<lparr> m_generation := g \<rparr>) = ledger l"
  "ledger (l\<lparr> m_consecutive_accept_errors := n \<rparr>) = ledger l"
  "ledger (l\<lparr> m_next_connection_id := i \<rparr>) = ledger l"
  "ledger (l\<lparr> m_next_waiter_id := i \<rparr>) = ledger l"
  "ledger (l\<lparr> conns := cs \<rparr>) = ledger l"
  "ledger (l\<lparr> m_sessions := ss \<rparr>) = ledger l"
  "ledger (l\<lparr> m_active_sessions := n \<rparr>) = ledger l"
  "ledger (l\<lparr> flags := fs \<rparr>) = ledger l"
  "ledger (l\<lparr> slots := sl \<rparr>) = ledger l"
  by (simp_all add: ledger_def held_def)

lemma ledger_conn_ops [simp]:
  "ledger (conn_finish a ec ep r l) = ledger l"
  "ledger (conn_force_close r a l) = ledger l"
  "ledger (conn_request_stop r a l) = ledger l"
  "ledger (conn_start a r l) = ledger l"
  "ledger (notify_owner a res r l) = ledger l"
  "ledger (fold (conn_force_close r) as l) = ledger l"
  "ledger (fold (conn_request_stop r) as l) = ledger l"
  by (auto intro!: ledger_conn_change conn_change_start conn_change_notify_owner conn_change_fold)

lemma ledger_finish [simp]: "ledger (acceptor_finish ec reason l) = ledger l"
proof -
  have "ledger (release_waiters l') = ledger l'" for l' :: "'a acceptor"
    by (simp add: ledger_def held_def release_waiters_closed comp_def)
  then show ?thesis by (simp add: acceptor_finish_def Let_def)
qed

lemma ledger_stop [simp]:
  "ledger (acceptor_maybe_finish l) = ledger l"
  "ledger (acceptor_begin_stop ec reason r l) = ledger l"
  "ledger (acceptor_shutdown_expired ec r l) = ledger l"
  by (simp_all add: acceptor_maybe_finish_def acceptor_begin_stop_def acceptor_enter_stopping_def
      acceptor_stop_sessions_def acceptor_arm_shutdown_def acceptor_shutdown_expired_def Let_def
      split: option.split)

lemma ledger_accept [simp]:
  "ledger (snd (acceptor_accept_next reason r l)) = ledger l"
  "ledger (acceptor_retry_accept ec r l) = ledger l"
  "ledger (acceptor_retry_expired ec r l) = ledger l"
  by (simp_all add: acceptor_accept_next_def acceptor_accept_throws_def acceptor_retry_accept_def
      acceptor_report_accept_error_def acceptor_arm_retry_def acceptor_retry_expired_def Let_def
      split: option.split)

lemma ledger_sessions [simp]:
  "ledger (acceptor_accepted ec r l) = ledger l"
  "ledger (acceptor_session_finished info ec ep r l) = ledger l"
  by (simp_all add: acceptor_accepted_def acceptor_factory_failed_def acceptor_launch_session_def
      acceptor_add_session_def acceptor_session_finished_def acceptor_report_finished_def
      acceptor_erase_session_def Let_def split: option.split)

lemma ledger_start_on_strand [simp]:
  "ledger (acceptor_start_on_strand h r l) = add_mset h (ledger l)"
  by (simp add: acceptor_start_on_strand_def acceptor_enter_starting_def
      acceptor_publish_endpoint_def Let_def)

lemma ledger_cancel_wait [simp]: "ledger (cancel_wait i l) = ledger (l :: 'h acceptor)"
proof (cases "find (\<lambda>w. w_id w = i) (m_waiters l)")
  case (Some w)
  then have "w \<in> set (m_waiters l)" by (auto simp: find_Some_iff)
  then have "mset (map w_handler (m_waiters l)) =
      add_mset (w_handler w) (mset (map w_handler (remove1 w (m_waiters l))))"
    by (metis mset_map image_mset_add_mset insert_DiffM mset_remove1 set_mset_mset)
  with Some show ?thesis
    by (simp add: cancel_wait_def ledger_def held_def complete_def clear_slot_def)
qed (simp add: cancel_wait_def)

lemma ledger_wait_task [simp]:
  "ledger (acceptor_wait_task i c h l) = add_mset h (ledger l)"
  by (simp add: acceptor_wait_task_def) (simp add: ledger_def held_def)

lemma ledger_run_task: "ledger (run_task t r l) = mset (task_handlers t) + ledger l"
  by (cases t) (simp_all add: acceptor_start_task_def acceptor_stop_on_strand_def Let_def)

lemma ledger_taken:
  "t \<in> set (pending l) \<Longrightarrow>
     ledger l = mset (task_handlers t) + ledger (l\<lparr> pending := remove1 t (pending l) \<rparr>)"
  by (simp add: ledger_def held_def mset_concat_map_remove1 [of t "pending l"])

lemma ledger_do:
  assumes "acceptor_enabled x r l"
  shows "ledger (acceptor_do x r l) = ledger l + mset (submitted x)"
proof (cases x)
  case (Run t)
  with assms have "t \<in> set (pending l)" by simp
  with Run show ?thesis by (simp add: ledger_run_task ledger_taken [of t l])
qed (simp_all add: acceptor_do_async_start_def acceptor_do_async_wait_def acceptor_request_stop_def
    acceptor_emit_cancellation_def Let_def split: option.split)

definition completed_by :: "'h acceptor \<Rightarrow> 'h multiset" where
  "completed_by l = mset (map fst (completions l))"

interpretation acceptor_ledger: exactly_once script_enabled script_do "\<lambda>l. True" held completed_by
    "\<lambda>xr. mset (submitted (fst xr))"
proof
  fix xr :: "'h acceptor_action \<times> asio" and l
  assume "script_enabled xr l"
  then have "ledger (script_do xr l) = ledger l + mset (submitted (fst xr))"
    unfolding script_enabled_def script_do_def by (intro ledger_do) simp
  then show "held (script_do xr l) + completed_by (script_do xr l) =
      held l + completed_by l + mset (submitted (fst xr))"
    by (simp only: ledger_def completed_by_def)
qed simp

text \<open>
  C4: in every run of an accepting listener from its construction, the handlers passed to
  \<open>async_start\<close> and \<open>async_wait\<close> are, counted with multiplicity, exactly those completed so
  far and those still held by a posted start or wait or by the list of waiters: none is
  dropped and none completes twice.  Once the listener is stopped and no start or wait is
  posted, every one of them has completed.
\<close>

theorem acceptor_handlers_exactly_once:
  assumes "new_acceptor ident observers endpoint options = Inr l"
    and "acceptor_run script l = Some l'"
  shows "completed_by l' + held l' = sum_list (map (\<lambda>xr. mset (submitted (fst xr))) script)
    \<and> (m_state l' = listener_stopped \<and> (\<forall>t \<in> set (pending l'). task_handlers t = []) \<longrightarrow>
        completed_by l' = sum_list (map (\<lambda>xr. mset (submitted (fst xr))) script))"
proof -
  have "held l = {#}" "completed_by l = {#}"
    using assms(1)
    by (auto simp: new_acceptor_def fresh_acceptor_def held_def completed_by_def split: sum.splits)
  note balance = acceptor_ledger.run_from_empty [OF assms(2) [unfolded acceptor_run_def] TrueI this]
  have "m_waiters l' = []" if "m_state l' = listener_stopped"
    using that acceptor.holds [OF acceptor_run_reachable [OF assms]]
    by (simp add: acceptor_inv_def lifecycle_ok_def)
  then have "held l' = {#}"
    if "m_state l' = listener_stopped" "\<forall>t \<in> set (pending l'). task_handlers t = []"
    using that by (simp add: held_def)
  with balance show ?thesis by auto
qed

theorem acceptor_handlers_exactly_once_witness:
  "completed_by (example_acceptor (example_start @ example_stop @ example_drain)) = {# 1, 2 #}"
proof -
  let ?script = "example_start @ example_stop @ example_drain"
  obtain l' where run: "acceptor_run ?script
      (fresh_acceptor 7 True (path_endpoint ''/run/s'') example_options) = Some l'"
    using example_runs(3) by blast
  then have l': "example_acceptor ?script = l'" by (simp add: example_acceptor_def)
  have "\<forall>t \<in> set (pending (example_acceptor ?script)). task_handlers t = []" by code_simp
  moreover have "new_acceptor 7 True (path_endpoint ''/run/s'') example_options =
      Inr (fresh_acceptor 7 True (path_endpoint ''/run/s'') example_options :: nat acceptor)"
    by (simp add: new_acceptor_def example_options_valid)
  ultimately have "completed_by l' = sum_list (map (\<lambda>xr. mset (submitted (fst xr))) ?script)"
    using acceptor_handlers_exactly_once [OF _ run] example_states(3) by (simp add: l')
  then show ?thesis
    by (simp add: l') (simp add: example_start_def example_stop_def example_drain_def)
qed

end
