(* ===== verification/Serveza_Acceptor_Timers.thy ===== *)
theory Serveza_Acceptor_Timers
  imports Serveza_Acceptor_Inv
begin

text \<open>
  The timers of the accepting listener: every wait on the retry timer is for a delay within
  the bounds of the options, and every wait on the shutdown timer for the grace period.  The
  theory connects the arithmetic of \<open>accept_retry_delay\<close> with the handlers that arm timers.
\<close>

fun timer_ok :: "listener_options \<Rightarrow> 'h acceptor_task \<Rightarrow> bool" where
  "timer_ok opts (Retry_handler c d) \<longleftrightarrow>
     (max_accept_error_backoff opts < 2 ^ 63 \<longrightarrow>
        (case d of
           None \<Rightarrow> False
         | Some x \<Rightarrow> accept_error_backoff opts \<le> x \<and> x \<le> max_accept_error_backoff opts))"
| "timer_ok opts (Shutdown_handler c d) \<longleftrightarrow> d = shutdown_grace_period opts"
| "timer_ok opts _ \<longleftrightarrow> True"

definition timed :: "'h acceptor \<Rightarrow> bool" where
  "timed l \<longleftrightarrow> validate_acceptor_options (m_options l) = Inr () \<and>
     list_all (timer_ok (m_options l)) (pending l)"

lemma timer_ok_cancelled [simp]:
  "timer_ok opts (cancel_retry_wait t) = timer_ok opts t"
  "timer_ok opts (cancel_shutdown_wait t) = timer_ok opts t"
  by (cases t; simp)+

lemma timed_frame [simp]:
  "timed (record_diagnostic ec ep l) = timed l"
  "timed (emit type info ec ep l) = timed l"
  "timed (complete h ec l) = timed l"
  "timed (clear_slot c l) = timed l"
  "timed (set_stop_reason reason l) = timed l"
  "timed (keep_first_error ec l) = timed l"
  "timed (clear_diagnostics l) = timed l"
  "timed (transition_to st l) = timed l"
  "timed (release_waiters l) = timed l"
  "timed (cancel_retry_timer l) = timed l"
  "timed (cancel_shutdown_timer l) = timed l"
  by (simp_all add: timed_def listener_helpers release_waiters_closed timer_defs list_all_iff)

lemma timed_updates [simp]:
  "timed (l\<lparr> conns := cs \<rparr>) = timed l" "timed (l\<lparr> flags := fs \<rparr>) = timed l"
  "timed (l\<lparr> slots := ss \<rparr>) = timed l" "timed (l\<lparr> m_next_waiter_id := i \<rparr>) = timed l"
  "timed (l\<lparr> m_waiters := ws \<rparr>) = timed l" "timed (l\<lparr> m_terminal_error := ec \<rparr>) = timed l"
  "timed (l\<lparr> m_acceptor_open := b \<rparr>) = timed l" "timed (l\<lparr> m_accept_pending := b \<rparr>) = timed l"
  "timed (l\<lparr> m_consecutive_accept_errors := n \<rparr>) = timed l"
  "timed (l\<lparr> m_next_connection_id := i \<rparr>) = timed l" "timed (l\<lparr> m_generation := g \<rparr>) = timed l"
  "timed (l\<lparr> m_sessions := as \<rparr>) = timed l" "timed (l\<lparr> m_active_sessions := k \<rparr>) = timed l"
  "timed (l\<lparr> m_endpoint := e \<rparr>) = timed l"
  by (simp_all add: timed_def)

lemma timed_post: "timer_ok (m_options l) t \<Longrightarrow> timed l \<Longrightarrow> timed (post t l)"
  by (simp add: timed_def post_def)

lemma timed_taken: "timed l \<Longrightarrow> timed (l\<lparr> pending := remove1 t (pending l) \<rparr>)"
  by (auto simp: timed_def list_all_iff dest: in_remove1)

lemma conn_task_timer: "is_conn_task t \<Longrightarrow> timer_ok opts t"
  by (cases t) simp_all

lemma timed_conn_change: "conn_change l l' \<Longrightarrow> timed l \<Longrightarrow> timed l'"
proof -
  assume "conn_change l l'" and l: "timed l"
  then obtain cs ts where l': "l' = l\<lparr> conns := cs, pending := pending l @ ts \<rparr>"
    and ts: "\<forall>t \<in> set ts. is_conn_task t"
    unfolding conn_change_def by blast
  with l show "timed l'" by (auto simp: l' timed_def list_all_iff intro: conn_task_timer)
qed

lemmas timed_conn = timed_conn_change [OF conn_change_ops(1)] timed_conn_change [OF conn_change_ops(2)]
  timed_conn_change [OF conn_change_start] timed_conn_change [OF conn_change_notify_owner]
  timed_conn_change [OF conn_change_fold [OF conn_change_ops(2)]]
  timed_conn_change [OF conn_change_fold [OF conn_change_ops(3)]]

lemma timed_finish: "timed l \<Longrightarrow> timed (acceptor_finish ec reason l)"
  by (simp add: acceptor_finish_def Let_def)

lemma timed_maybe_finish: "timed l \<Longrightarrow> timed (acceptor_maybe_finish l)"
  by (simp add: acceptor_maybe_finish_def timed_finish)

lemma cancelled_options: "m_options (cancel_shutdown_timer l) = m_options l"
  by (simp add: timer_defs)

lemma timed_stop_sessions: "timed l \<Longrightarrow> timed (acceptor_stop_sessions r l)"
  by (auto simp: acceptor_stop_sessions_def acceptor_arm_shutdown_def cancelled_options
      intro!: timed_post timed_conn split: option.split)

lemma timed_begin_stop: "timed l \<Longrightarrow> timed (acceptor_begin_stop ec reason r l)"
  by (simp add: acceptor_begin_stop_def acceptor_enter_stopping_def Let_def timed_finish
      timed_maybe_finish timed_stop_sessions)

lemma timed_accept_next: "timed l \<Longrightarrow> timed (snd (acceptor_accept_next reason r l))"
  by (auto simp: acceptor_accept_next_def acceptor_accept_throws_def Let_def timed_begin_stop
      intro!: timed_maybe_finish timed_post split: option.split)

lemma retry_timer_ok:
  assumes "validate_acceptor_options opts = Inr ()"
  shows "timer_ok opts (Retry_handler c (accept_retry_delay opts n))"
proof (cases "max_accept_error_backoff opts < 2 ^ 63")
  case True
  from accept_retry_delay_some [OF assms this, of n] obtain d where "accept_retry_delay opts n = Some d"
    "accept_error_backoff opts \<le> d" "d \<le> max_accept_error_backoff opts" .
  then show ?thesis by simp
qed simp

lemma timed_arm_retry:
  assumes "timed l"
  shows "timed (acceptor_arm_retry r l)"
proof (cases "r_retry_timer r")
  case None
  have "m_options (cancel_retry_timer l) = m_options l" by (simp add: timer_defs)
  moreover have "validate_acceptor_options (m_options l) = Inr ()" using assms by (simp add: timed_def)
  ultimately show ?thesis
    using assms None by (simp add: acceptor_arm_retry_def timed_post retry_timer_ok del: timer_ok.simps)
next
  case (Some e)
  with assms show ?thesis by (simp add: acceptor_arm_retry_def timed_begin_stop)
qed

lemma timed_accepted: "timed l \<Longrightarrow> timed (acceptor_accepted ec r l)"
  by (auto simp: acceptor_accepted_def acceptor_retry_accept_def acceptor_report_accept_error_def
      acceptor_factory_failed_def acceptor_launch_session_def acceptor_add_session_def Let_def
      intro!: timed_maybe_finish timed_begin_stop timed_arm_retry timed_accept_next timed_post timed_conn
      split: option.split)

lemma timed_session_finished: "timed l \<Longrightarrow> timed (acceptor_session_finished info ec ep r l)"
  by (auto simp: acceptor_session_finished_def acceptor_report_finished_def acceptor_erase_session_def Let_def
      intro!: timed_maybe_finish timed_accept_next split: option.split)

lemma timed_start_on_strand: "timed l \<Longrightarrow> timed (acceptor_start_on_strand h r l)"
  by (auto simp: acceptor_start_on_strand_def acceptor_enter_starting_def acceptor_publish_endpoint_def Let_def
      intro!: timed_finish timed_accept_next)

lemma timed_run_task: "timed l \<Longrightarrow> timed (run_task t r l)"
  by (cases t) (auto simp: acceptor_start_task_def acceptor_wait_task_def cancel_wait_def
      acceptor_stop_on_strand_def acceptor_retry_expired_def acceptor_shutdown_expired_def Let_def
      intro!: timed_start_on_strand timed_begin_stop timed_accepted timed_maybe_finish timed_accept_next
        timed_session_finished timed_conn
      split: option.split)

interpretation timers: inductive_invariant acceptor_init acceptor_step timed
proof
  fix l l' :: "'h acceptor"
  show "acceptor_init l \<Longrightarrow> timed l"
    by (erule acceptor_initE) (simp add: fresh_acceptor_def timed_def)
  assume l: "timed l" and "acceptor_step l l'"
  from this(2) obtain x r where l': "l' = acceptor_do x r l" by (rule acceptor_stepE)
  show "timed l'"
    unfolding l' using l
    by (cases x) (auto simp: acceptor_do_async_start_def acceptor_do_async_wait_def
        acceptor_request_stop_def acceptor_emit_cancellation_def Let_def
        intro!: timed_post timed_run_task timed_taken split: option.split)
qed


definition example_retry :: "(nat acceptor_action \<times> asio) list" where
  "example_retry =
     [(Run Accept_handler, all_succeed\<lparr> r_ec := try_again \<rparr>), (Call_request_stop, all_succeed),
      (Run Stop_task, all_succeed)]"


definition example_restart :: "(nat acceptor_action \<times> asio) list" where
  "example_restart =
     [(Call_async_start 3 False, all_succeed), (Run (Start_task 2 3), all_succeed),
      (Run Accept_handler, all_succeed), (Run (Conn_start 1), all_succeed)]"

text \<open>
  C36: the shutdown timer of one generation can reach into the next.  Its handler does not
  check the generation, so a wait that had expired when the last session finished still runs
  after the listener was stopped and started again: the running listener reports a forced
  shutdown and closes a session nobody asked to stop.
\<close>

theorem stale_shutdown_closes_session:
  "\<exists>l l'. acceptor_run (example_start @ example_stop @ example_drain @ example_restart)
       (fresh_acceptor 7 True (path_endpoint ''/run/s'') example_options) = Some l
     \<and> m_state l = listener_running \<and> m_generation l = 2 \<and> m_sessions l = [1] \<and> Conn_force 1 \<notin> set (pending l)
     \<and> acceptor_run [(Run (Shutdown_handler True 5000), all_succeed)] l = Some l'
     \<and> m_state l' = listener_running \<and> m_last_error l' = timed_out \<and> Conn_force 1 \<in> set (pending l')"
proof -
  let ?start = "fresh_acceptor 7 True (path_endpoint ''/run/s'') example_options"
  let ?l = "example_acceptor (example_start @ example_stop @ example_drain @ example_restart)"
  let ?l' = "run_task (Shutdown_handler True 5000) all_succeed
    (?l\<lparr> pending := remove1 (Shutdown_handler True 5000) (pending ?l) \<rparr>)"
  have "acceptor_run (example_start @ example_stop @ example_drain @ example_restart) ?start \<noteq> None"
    by code_simp
  then have run: "acceptor_run (example_start @ example_stop @ example_drain @ example_restart) ?start = Some ?l"
    by (auto simp: example_acceptor_def)
  have l: "m_state ?l = listener_running" "m_generation ?l = 2" "m_sessions ?l = [1]" "Conn_force 1 \<notin> set (pending ?l)"
    "Shutdown_handler True 5000 \<in> set (pending ?l)"
    by code_simp+
  have l': "m_state ?l' = listener_running" "m_last_error ?l' = timed_out" "Conn_force 1 \<in> set (pending ?l')"
    by code_simp+
  have "acceptor_run [(Run (Shutdown_handler True 5000), all_succeed)] ?l = Some ?l'"
    using l(5) by (simp add: asio_throws_errors_def all_succeed_def timer_delivers_def)
  with run l(1-4) l' show ?thesis by (intro exI [of _ ?l] exI [of _ ?l'] conjI)
qed

end
