(* ===== verification/Serveza_Server_Control.thy ===== *)
theory Serveza_Server_Control
  imports Serveza_Prelude Serveza_Status
begin

text \<open>
  The state of a server: \<open>server_control\<close> of \<^verbatim>\<open>src/src/server.cpp\<close>.  Its members are atomic
  variables changed from any thread.  The operations are given twice: as the loops around
  \<open>compare_exchange_weak\<close> that the code has, with the interference of other threads as an
  argument, and as one atomic transition, which the loops are shown to implement.

  \<open>sc_posted\<close> is the list of the events posted to the executor for the observers; \<open>ok\<close> says
  whether the executor accepts the post.  \<open>listeners\<close> stands for the statuses the listeners
  return.
\<close>

record server_control =
  sc_state :: server_state
  sc_generation :: u64
  sc_posted :: "server_event list"

definition new_control :: server_control where
  "new_control = \<lparr> sc_state = server_idle, sc_generation = 0, sc_posted = [] \<rparr>"

fun status_loop :: "listener_status list \<Rightarrow> server_status \<Rightarrow> server_status" where
  "status_loop [] value = value"
| "status_loop (listener_value # listeners) value =
     status_loop listeners
       (value\<lparr> ss_active_sessions := ss_active_sessions value + ls_active_sessions listener_value,
               ss_ready := ss_ready value \<and> ls_state listener_value = listener_running,
               ss_listeners := ss_listeners value @ [listener_value] \<rparr>)"

definition control_status :: "listener_status list \<Rightarrow> server_control \<Rightarrow> server_status" where
  "control_status listeners c =
     status_loop listeners
       \<lparr> ss_state = sc_state c, ss_generation = sc_generation c, ss_active_sessions = 0,
         ss_ready = (listeners \<noteq> [] \<and> sc_state c = server_running), ss_listeners = [] \<rparr>"

definition control_emit ::
    "bool \<Rightarrow> server_event_type \<Rightarrow> listener_status list \<Rightarrow> error_code \<Rightarrow>
     server_control \<Rightarrow> server_control" where
  "control_emit ok type listeners ec c =
     c\<lparr> sc_posted := sc_posted c @
          (if ok
           then [\<lparr> se_type = type, se_status = control_status listeners c, se_error = ec \<rparr>]
           else []) \<rparr>"

subsection \<open>Atomic operations\<close>

definition begin_start :: "bool \<Rightarrow> listener_status list \<Rightarrow> server_control \<Rightarrow> bool \<times> server_control" where
  "begin_start ok listeners c =
     (if sc_state c = server_starting \<or> sc_state c = server_running then (True, c)
      else if sc_state c = server_stopping then (False, c)
      else let c = c\<lparr> sc_state := server_starting \<rparr>;
               c = c\<lparr> sc_generation := sc_generation c + 1 \<rparr>
           in (True, control_emit ok event_starting listeners no_error c))"

definition enter_stopping ::
    "bool \<Rightarrow> listener_status list \<Rightarrow> error_code \<Rightarrow> server_control \<Rightarrow> server_control" where
  "enter_stopping ok listeners ec c =
     (if sc_state c = server_stopping \<or> sc_state c = server_stopped then c
      else control_emit ok event_stopping listeners ec (c\<lparr> sc_state := server_stopping \<rparr>))"

definition finish_start ::
    "bool \<Rightarrow> listener_status list \<Rightarrow> error_code \<Rightarrow> server_control \<Rightarrow> error_code \<times> server_control" where
  "finish_start ok listeners ec c =
     (if failed ec then (ec, enter_stopping ok listeners ec c)
      else if sc_state c = server_starting
      then (no_error,
            control_emit ok event_running listeners no_error (c\<lparr> sc_state := server_running \<rparr>))
      else if sc_state c = server_running then (no_error, c)
      else (operation_aborted, c))"

definition control_request_stop :: "bool \<Rightarrow> listener_status list \<Rightarrow> server_control \<Rightarrow> server_control" where
  "control_request_stop ok listeners c = enter_stopping ok listeners no_error c"

definition finish_wait ::
    "bool \<Rightarrow> listener_status list \<Rightarrow> error_code \<Rightarrow> server_control \<Rightarrow> error_code \<times> server_control" where
  "finish_wait ok listeners ec c =
     (let previous = sc_state c;
          c = c\<lparr> sc_state := server_stopped \<rparr>
      in (ec, if previous \<noteq> server_stopped
              then control_emit ok event_stopped listeners ec c else c))"

definition stop_requested :: "server_control \<Rightarrow> bool" where
  "stop_requested c \<longleftrightarrow> sc_state c = server_stopping \<or> sc_state c = server_stopped"

subsection \<open>The loops of the code\<close>

text \<open>
  A turn is what happens before one \<open>compare_exchange_weak\<close>: what the other threads do to the
  control, and whether the exchange fails spuriously.  After the last turn nothing
  interferes.  A failed exchange loads the current state, so that each round starts with the
  value loaded last.
\<close>

type_synonym turn = "(server_control \<Rightarrow> server_control) \<times> bool"

fun begin_start_loop ::
    "turn list \<Rightarrow> bool \<Rightarrow> listener_status list \<Rightarrow> server_control \<Rightarrow> bool \<times> server_control" where
  "begin_start_loop turns ok listeners c =
     (let current = sc_state c
      in if current = server_starting \<or> current = server_running then (True, c)
         else if current = server_stopping then (False, c)
         else case turns of
                [] \<Rightarrow>
                  (True, control_emit ok event_starting listeners no_error
                           (c\<lparr> sc_state := server_starting, sc_generation := sc_generation c + 1 \<rparr>))
              | (interfere, spurious) # turns' \<Rightarrow>
                  let c = interfere c
                  in if sc_state c = current \<and> \<not> spurious
                     then (True, control_emit ok event_starting listeners no_error
                             (c\<lparr> sc_state := server_starting,
                                 sc_generation := sc_generation c + 1 \<rparr>))
                     else begin_start_loop turns' ok listeners c)"

fun stopping_loop ::
    "turn list \<Rightarrow> bool \<Rightarrow> listener_status list \<Rightarrow> error_code \<Rightarrow> server_control \<Rightarrow> server_control" where
  "stopping_loop turns ok listeners ec c =
     (let current = sc_state c
      in if current = server_stopping \<or> current = server_stopped then c
         else case turns of
                [] \<Rightarrow> control_emit ok event_stopping listeners ec (c\<lparr> sc_state := server_stopping \<rparr>)
              | (interfere, spurious) # turns' \<Rightarrow>
                  let c = interfere c
                  in if sc_state c = current \<and> \<not> spurious
                     then control_emit ok event_stopping listeners ec
                            (c\<lparr> sc_state := server_stopping \<rparr>)
                     else stopping_loop turns' ok listeners ec c)"

declare begin_start_loop.simps [simp del] stopping_loop.simps [simp del]

definition interference :: "turn list \<Rightarrow> server_control \<Rightarrow> server_control" where
  "interference turns c = fold fst turns c"

lemma interference_simps [simp]:
  "interference [] c = c"
  "interference ((f, b) # turns) c = interference turns (f c)"
  by (simp_all add: interference_def)

lemma begin_start_loop_atomic:
  "\<exists>k \<le> length turns.
     begin_start_loop turns ok listeners c = begin_start ok listeners (interference (take k turns) c)"
proof (induction turns arbitrary: c)
  case Nil
  show ?case by (simp add: begin_start_loop.simps [of "[]"] begin_start_def Let_def)
next
  case (Cons turn turns)
  obtain f b where turn: "turn = (f, b)" by (cases turn)
  let ?early = "sc_state c = server_starting \<or> sc_state c = server_running \<or> sc_state c = server_stopping"
  show ?case
  proof (cases "?early \<or> sc_state (f c) = sc_state c \<and> \<not> b")
    case True
    then show ?thesis
      by (intro exI [of _ "if ?early then 0 else 1"])
        (auto simp: turn begin_start_loop.simps [of "(f, b) # turns"] begin_start_def Let_def)
  next
    case False
    obtain k where "k \<le> length turns"
      "begin_start_loop turns ok listeners (f c) = begin_start ok listeners (interference (take k turns) (f c))"
      using Cons.IH by blast
    with False show ?thesis
      by (intro exI [of _ "Suc k"])
        (auto simp: turn begin_start_loop.simps [of "(f, b) # turns"] Let_def)
  qed
qed

lemma stopping_loop_atomic:
  "\<exists>k \<le> length turns.
     stopping_loop turns ok listeners ec c = enter_stopping ok listeners ec (interference (take k turns) c)"
proof (induction turns arbitrary: c)
  case Nil
  show ?case by (simp add: stopping_loop.simps [of "[]"] enter_stopping_def Let_def)
next
  case (Cons turn turns)
  obtain f b where turn: "turn = (f, b)" by (cases turn)
  let ?early = "sc_state c = server_stopping \<or> sc_state c = server_stopped"
  show ?case
  proof (cases "?early \<or> sc_state (f c) = sc_state c \<and> \<not> b")
    case True
    then show ?thesis
      by (intro exI [of _ "if ?early then 0 else 1"])
        (auto simp: turn stopping_loop.simps [of "(f, b) # turns"] enter_stopping_def Let_def)
  next
    case False
    obtain k where "k \<le> length turns"
      "stopping_loop turns ok listeners ec (f c) = enter_stopping ok listeners ec (interference (take k turns) (f c))"
      using Cons.IH by blast
    with False show ?thesis
      by (intro exI [of _ "Suc k"])
        (auto simp: turn stopping_loop.simps [of "(f, b) # turns"] Let_def)
  qed
qed



subsection \<open>Status\<close>

lemma status_loop_closed:
  "status_loop ls v =
     v\<lparr> ss_active_sessions := ss_active_sessions v + sum_list (map ls_active_sessions ls),
            ss_ready := ss_ready v \<and> (\<forall>l \<in> set ls. ls_state l = listener_running),
            ss_listeners := ss_listeners v @ ls \<rparr>"
  by (induction ls arbitrary: v) (simp_all add: add.assoc)

text \<open>
  The aggregate status lists the listeners in order and sums their active sessions, and
  the server is ready exactly if it is running and has at least one listener, all of them
  running.
\<close>

lemma control_status_aggregates:
  "ss_listeners (control_status listeners c) = listeners
   \<and> ss_active_sessions (control_status listeners c) = sum_list (map ls_active_sessions listeners)
   \<and> (ss_ready (control_status listeners c) \<longleftrightarrow>
        sc_state c = server_running \<and> listeners \<noteq> [] \<and>
        list_all (\<lambda>l. ls_state l = listener_running) listeners)
   \<and> ss_state (control_status listeners c) = sc_state c
   \<and> ss_generation (control_status listeners c) = sc_generation c"
  by (auto simp: control_status_def status_loop_closed list_all_iff)

subsection \<open>Lifecycle\<close>

text \<open>Every change of the control when the executor accepts the events.\<close>

inductive control_step :: "server_control \<Rightarrow> server_control \<Rightarrow> bool" where
  step_begin_start: "control_step c (snd (begin_start True listeners c))"
| step_finish_start: "control_step c (snd (finish_start True listeners ec c))"
| step_request_stop: "control_step c (control_request_stop True listeners c)"
| step_finish_wait: "control_step c (snd (finish_wait True listeners ec c))"

fun server_transition :: "server_state \<Rightarrow> server_state \<Rightarrow> bool" where
  "server_transition a server_idle = False"
| "server_transition a server_starting = (a = server_idle \<or> a = server_stopped)"
| "server_transition a server_running = (a = server_starting)"
| "server_transition a server_stopping = (a \<noteq> server_stopping \<and> a \<noteq> server_stopped)"
| "server_transition a server_stopped = (a \<noteq> server_stopped)"

fun event_state :: "server_event_type \<Rightarrow> server_state" where
  "event_state event_starting = server_starting"
| "event_state event_running = server_running"
| "event_state event_stopping = server_stopping"
| "event_state event_stopped = server_stopped"

abbreviation event_path :: "server_control \<Rightarrow> server_state list" where
  "event_path c \<equiv> map (\<lambda>e. event_state (se_type e)) (sc_posted c)"

definition control_inv :: "server_control \<Rightarrow> bool" where
  "control_inv c \<longleftrightarrow>
     successively server_transition (server_idle # event_path c) \<and>
     last (server_idle # event_path c) = sc_state c \<and>
     (\<forall>e \<in> set (sc_posted c). ss_state (se_status e) = event_state (se_type e)) \<and>
     of_nat (count_list (event_path c) server_starting) = sc_generation c"

lemma control_inv_emit:
  assumes "control_inv c" and "server_transition (sc_state c) (event_state type)"
    and "g = (if type = event_starting then sc_generation c + 1 else sc_generation c)"
  shows "control_inv (control_emit True type listeners ec
           (c\<lparr> sc_state := event_state type, sc_generation := g \<rparr>))"
proof -
  have eq: "event_state type = server_starting \<longleftrightarrow> type = event_starting" by (cases type) simp_all
  have "successively server_transition ((server_idle # event_path c) @ [event_state type])"
    using assms unfolding successively_append_iff by (simp add: control_inv_def)
  with assms(1,3) show ?thesis
    by (auto simp: control_inv_def control_emit_def control_status_def status_loop_closed eq)
qed

lemmas control_inv_emits =
  control_inv_emit [where type = event_starting, simplified]
  control_inv_emit [where type = event_running, simplified]
  control_inv_emit [where type = event_stopping, simplified]
  control_inv_emit [where type = event_stopped, simplified]

lemma control_inv_enter_stopping: "control_inv c \<Longrightarrow> control_inv (enter_stopping True listeners ec c)"
  using control_inv_emits(3) [of c "sc_generation c" listeners ec] by (simp add: enter_stopping_def)

interpretation control: inductive_invariant "\<lambda>c. c = new_control" control_step control_inv
proof
  show "c = new_control \<Longrightarrow> control_inv c" for c by (simp add: control_inv_def new_control_def)
  fix c c' assume inv: "control_inv c" and "control_step c c'"
  from this(2) show "control_inv c'"
  proof cases
    case (step_begin_start listeners)
    then show ?thesis
      using inv control_inv_emits(1) [of c "sc_generation c + 1" listeners no_error]
      by (cases "sc_state c") (simp_all add: begin_start_def Let_def)
  next
    case (step_finish_start listeners ec)
    then show ?thesis
      using inv control_inv_emits(2) [of c "sc_generation c" listeners no_error]
      by (simp add: finish_start_def control_inv_enter_stopping)
  next
    case (step_request_stop listeners)
    then show ?thesis using inv by (simp add: control_request_stop_def control_inv_enter_stopping)
  next
    case (step_finish_wait listeners ec)
    then show ?thesis
      using inv control_inv_emits(4) [of c "sc_generation c" listeners ec]
      by (cases "sc_state c = server_stopped") (simp_all add: finish_wait_def Let_def control_inv_def)
  qed
qed



end
