(* ===== verification/Serveza_Operation_Group.thy ===== *)
theory Serveza_Operation_Group
  imports Serveza_Prelude Serveza_Errors
begin

text \<open>
  One coordinated operation of a server over its listeners: \<open>listener_operation_group\<close> of
  \<^verbatim>\<open>src/src/server.cpp\<close>.  Listeners are named by their position in the server's list.  The
  part of \<open>one\<close> under the lock is a function of the group; it tells its caller whether to
  request a stop and which handler to complete with which result.
\<close>

unbundle bit_operations_syntax

type_synonym cancellation_type = "32 word"

text \<open>The function a group is given as \<open>finished\<close>: \<open>finish_start\<close> or \<open>finish_wait\<close> of the control.\<close>

datatype finished_function = call_finish_start | call_finish_wait

record 'h operation_group =
  g_listeners :: "nat list"
  g_remaining :: usize
  g_initiation_ecs :: "error_code list"
  g_first_ec :: error_code
  g_cancelled :: cancellation_type
  g_stop_on_error :: bool
  g_connected :: bool
  g_finished :: finished_function
  g_completion :: "'h option"

definition new_group ::
    "nat list \<Rightarrow> bool \<Rightarrow> finished_function \<Rightarrow> 'h \<Rightarrow> 'h operation_group" where
  "new_group listeners stop_on_error finished handler =
     \<lparr> g_listeners = listeners, g_remaining = of_nat (length listeners),
       g_initiation_ecs = replicate (length listeners) no_error, g_first_ec = no_error,
       g_cancelled = 0, g_stop_on_error = stop_on_error, g_connected = False,
       g_finished = finished, g_completion = Some handler \<rparr>"

text \<open>\<open>prepare\<close> installs a callback if the caller's slot is connected.\<close>

definition group_prepare :: "bool \<Rightarrow> 'h operation_group \<Rightarrow> 'h operation_group" where
  "group_prepare connected g = g\<lparr> g_connected := connected \<rparr>"

definition group_reject ::
    "error_code \<Rightarrow> 'h operation_group \<Rightarrow> 'h operation_group \<times> ('h option \<times> error_code)" where
  "group_reject ec g =
     (g\<lparr> g_connected := False, g_completion := None \<rparr>, (g_completion g, ec))"

definition group_initiation_failed :: "nat \<Rightarrow> exn \<Rightarrow> 'h operation_group \<Rightarrow> 'h operation_group" where
  "group_initiation_failed i e g =
     g\<lparr> g_initiation_ecs := (g_initiation_ecs g)[i := exception_to_error (Some e)] \<rparr>"

definition group_one ::
    "error_code \<Rightarrow> 'h operation_group \<Rightarrow>
     'h operation_group \<times> bool \<times> ('h option \<times> error_code) option" where
  "group_one ec g =
     (let first = failed ec \<and> \<not> failed (g_first_ec g);
          stop = first \<and> g_stop_on_error g;
          g = (if first then g\<lparr> g_first_ec := ec \<rparr> else g);
          g = g\<lparr> g_remaining := g_remaining g - 1 \<rparr>
      in if g_remaining g = 0
         then (g\<lparr> g_connected := False, g_completion := None \<rparr>, stop,
               Some (g_completion g, g_first_ec g))
         else (g, stop, None))"

definition group_cancel :: "cancellation_type \<Rightarrow> 'h operation_group \<Rightarrow> 'h operation_group" where
  "group_cancel type g = g\<lparr> g_cancelled := g_cancelled g OR type \<rparr>"

text \<open>The calls of \<open>one\<close> in the order in which they take the lock.\<close>

fun group_run ::
    "error_code list \<Rightarrow> 'h operation_group \<Rightarrow>
     'h operation_group \<times> nat \<times> ('h option \<times> error_code) list" where
  "group_run [] g = (g, 0, [])"
| "group_run (ec # ecs) g =
     (case group_one ec g of
        (g1, stop, ready) \<Rightarrow>
          (case group_run ecs g1 of
             (g2, stops, readies) \<Rightarrow>
               (g2, (if stop then 1 else 0) + stops,
                (case ready of None \<Rightarrow> [] | Some x \<Rightarrow> [x]) @ readies)))"

definition first_error :: "error_code list \<Rightarrow> error_code" where
  "first_error ecs = (case find failed ecs of None \<Rightarrow> no_error | Some ec \<Rightarrow> ec)"

lemma first_error_simps [simp]:
  "first_error [] = no_error"
  "first_error (ec # ecs) = (if failed ec then ec else first_error ecs)"
  by (simp_all add: first_error_def)

lemma failed_first_error: "failed (first_error ecs) \<longleftrightarrow> (\<exists>ec \<in> set ecs. failed ec)"
  by (induction ecs) auto

definition group_result :: "error_code \<Rightarrow> error_code list \<Rightarrow> error_code" where
  "group_result first ecs = (if failed first then first else first_error ecs)"

lemma first_error_append:
  "first_error (xs @ ys) = (if failed (first_error xs) then first_error xs else first_error ys)"
  by (induction xs) (auto simp: failed_def)

lemma group_result_simps [simp]:
  "group_result first [] = first"
  "group_result (group_result first xs) ys = group_result first (xs @ ys)"
  by (auto simp: group_result_def first_error_append) (simp add: failed_def)

lemma failed_group_result [simp]:
  "failed (group_result first ecs) \<longleftrightarrow> failed first \<or> (\<exists>ec \<in> set ecs. failed ec)"
  by (simp add: group_result_def failed_first_error)

lemma unat_minus_1: "0 < unat (x :: 64 word) \<Longrightarrow> unat (x - 1) = unat x - 1"
  by (metis measure_unat unat_gt_0 unat_minus_one)

lemma group_one_more:
  assumes "1 < unat (g_remaining g)"
  shows "group_one ec g =
    (g\<lparr> g_first_ec := group_result (g_first_ec g) [ec], g_remaining := g_remaining g - 1 \<rparr>,
     failed ec \<and> \<not> failed (g_first_ec g) \<and> g_stop_on_error g, None)"
proof -
  have "unat (g_remaining g - 1) \<noteq> 0" using assms by (simp add: unat_minus_1)
  then have "g_remaining g - 1 \<noteq> 0" by auto
  then show ?thesis by (simp add: group_one_def Let_def group_result_def failed_def)
qed

lemma group_one_last:
  assumes "unat (g_remaining g) = 1"
  shows "group_one ec g =
    (g\<lparr> g_first_ec := group_result (g_first_ec g) [ec], g_remaining := 0, g_connected := False,
        g_completion := None \<rparr>,
     failed ec \<and> \<not> failed (g_first_ec g) \<and> g_stop_on_error g,
     Some (g_completion g, group_result (g_first_ec g) [ec]))"
proof -
  have "g_remaining g = 1" using assms by (metis One_nat_def unat_1 word_unat_eq_iff)
  then show ?thesis by (simp add: group_one_def Let_def group_result_def failed_def)
qed

definition stop_count :: "'h operation_group \<Rightarrow> error_code list \<Rightarrow> nat" where
  "stop_count g ecs =
     (if \<not> failed (g_first_ec g) \<and> (\<exists>ec \<in> set ecs. failed ec) \<and> g_stop_on_error g then 1 else 0)"

lemma group_run_more:
  assumes "length ecs < unat (g_remaining g)"
  shows "group_run ecs g =
    (g\<lparr> g_first_ec := group_result (g_first_ec g) ecs,
        g_remaining := g_remaining g - of_nat (length ecs) \<rparr>,
     stop_count g ecs, [])"
  using assms
proof (induction ecs arbitrary: g)
  case (Cons ec ecs)
  then have "1 < unat (g_remaining g)" by simp
  moreover have "unat (g_remaining g - 1) = unat (g_remaining g) - 1"
    using Cons.prems by (intro unat_minus_1) simp
  ultimately show ?case
    using Cons by (simp add: group_one_more algebra_simps) (simp add: stop_count_def)
qed (simp add: stop_count_def)

lemma group_run_append:
  "group_run (xs @ ys) g =
     (case group_run xs g of
        (g1, stops1, out1) \<Rightarrow>
          (case group_run ys g1 of (g2, stops2, out2) \<Rightarrow> (g2, stops1 + stops2, out1 @ out2)))"
  by (induction xs arbitrary: g) (auto split: prod.split)

lemma group_run_last:
  assumes "length ecs = unat (g_remaining g)" and "ecs \<noteq> []"
  shows "fst (snd (group_run ecs g)) = stop_count g ecs"
    and "snd (snd (group_run ecs g)) = [(g_completion g, group_result (g_first_ec g) ecs)]"
proof -
  obtain xs ec where ecs: "ecs = xs @ [ec]" using assms(2) by (metis rev_exhaust)
  have "length xs < 2 ^ 64" using assms(1) unat_less_2p64 [of "g_remaining g"] by (simp add: ecs)
  then have "unat (g_remaining g - of_nat (length xs)) = unat (g_remaining g) - length xs"
    using assms(1) by (simp add: ecs unat_sub word_le_nat_alt unat_of_nat_64)
  then have one: "unat (g_remaining g - of_nat (length xs)) = 1" using assms(1) by (simp add: ecs)
  have "length xs < unat (g_remaining g)" using assms(1) by (simp add: ecs)
  from group_run_more [OF this] one
  show "fst (snd (group_run ecs g)) = stop_count g ecs"
    "snd (snd (group_run ecs g)) = [(g_completion g, group_result (g_first_ec g) ecs)]"
    by (simp_all add: ecs group_run_append group_one_last)
      (auto simp: stop_count_def)
qed

text \<open>
  C13: a group of listener operations completes exactly once, when the last listener has
  reported, with the first error reported, or success if none failed; before that nothing
  completes.  A stop is requested at most once, and exactly if the group stops on errors and
  a listener failed.
\<close>

theorem group_completes_once:
  assumes "length listeners < 2 ^ 64" and "listeners \<noteq> []"
  shows "(length ecs < length listeners \<longrightarrow>
      snd (snd (group_run ecs (new_group listeners stop f h))) = [])
    \<and> (length ecs = length listeners \<longrightarrow>
      snd (snd (group_run ecs (new_group listeners stop f h))) = [(Some h, first_error ecs)])
    \<and> (length ecs \<le> length listeners \<longrightarrow>
      fst (snd (group_run ecs (new_group listeners stop f h))) =
        (if stop \<and> (\<exists>ec \<in> set ecs. failed ec) then 1 else 0))"
proof -
  let ?g = "new_group listeners stop f h"
  have rem: "unat (g_remaining ?g) = length listeners"
    using assms(1) by (simp add: new_group_def unat_of_nat_64)
  have g: "g_first_ec ?g = no_error" "g_completion ?g = Some h" "g_stop_on_error ?g = stop"
    by (simp_all add: new_group_def)
  have res: "group_result no_error ecs = first_error ecs" by (simp add: group_result_def failed_def)
  have stops: "stop_count ?g ecs = (if stop \<and> (\<exists>ec \<in> set ecs. failed ec) then 1 else 0)"
    by (simp add: stop_count_def g failed_def)
  consider "length ecs < length listeners" | "length ecs = length listeners" "ecs \<noteq> []"
    | "length listeners < length ecs"
    using assms(2) by (metis length_0_conv linorder_less_linear)
  then show ?thesis
  proof cases
    case 1
    then show ?thesis using group_run_more [of ecs ?g] rem stops by simp
  next
    case 2
    then show ?thesis using group_run_last [of ecs ?g] rem stops res by (simp add: g)
  qed simp
qed

theorem group_completes_once_witness:
  "snd (snd (group_run [no_error, io_error, timed_out] (new_group [0, 1, 2] True call_finish_start (5 :: nat)))) =
     [(Some 5, io_error)]"
  using group_completes_once [of "[0, 1, 2]" "[no_error, io_error, timed_out]" True call_finish_start "5 :: nat"]
  by (simp add: failed_def)

end
