(* ===== verification/Serveza_Server.thy ===== *)
theory Serveza_Server
  imports Serveza_Server_Control Serveza_Operation_Group Serveza_Options
begin

text \<open>
  The server: \<open>server\<close> and \<open>server_implementation\<close> of \<^verbatim>\<open>src/src/server.cpp\<close> and the templates
  \<open>listen\<close> and \<open>bind\<close> of \<^verbatim>\<open>server.h\<close>.

  The methods of a server run on any thread.  A thread is the list of the instructions it
  still has to execute; an instruction is a piece of the code that is atomic: an operation
  of the control, a critical section of a group, or one call of a listener.  Any thread may
  execute its next instruction at any moment.

  Listeners are the environment here: \<open>sv_calls\<close> is the sequence of the calls they get,
  \<open>sv_children\<close> the child operations they have accepted and not completed, each named by its
  group and its position in the group.  The listeners are registered in order and never
  removed, so that a snapshot is the list of the positions registered so far.
\<close>

datatype listener_call =
    Call_start nat nat                        \<comment> \<open>\<open>async_start\<close> for a child: group and position\<close>
  | Call_wait nat nat                         \<comment> \<open>\<open>async_wait\<close> for a child\<close>
  | Call_stop nat                             \<comment> \<open>\<open>request_stop\<close> of a listener\<close>
  | Call_cancel nat nat cancellation_type     \<comment> \<open>\<open>emit\<close> on the signal of a child\<close>

datatype 'h instr =
    Begin_start nat                           \<comment> \<open>\<open>begin_start\<close> for a group\<close>
  | Begin_start_empty 'h                      \<comment> \<open>\<open>begin_start\<close> without listeners\<close>
  | Submit_loop nat nat bool                  \<comment> \<open>the loop of \<open>start(wait)\<close> at a position\<close>
  | Check_cancelled nat nat                   \<comment> \<open>after a child was submitted\<close>
  | Report_loop nat nat bool                  \<comment> \<open>the loop over \<open>m_initiation_ecs\<close>\<close>
  | Check_stop nat                            \<comment> \<open>\<open>stop_requested\<close> at the end of \<open>do_async_start\<close>\<close>
  | One nat error_code                        \<comment> \<open>the critical section of \<open>one\<close>\<close>
  | Finish finished_function "nat list" "'h option" error_code
  | Control_stop
  | Stop_one nat
  | Cancel_set nat cancellation_type          \<comment> \<open>the critical section of \<open>cancel\<close>\<close>
  | Cancel_one nat nat cancellation_type

record 'h server =
  sv_control :: server_control
  sv_listeners :: "u64 list"
  sv_next_listener_id :: u64
  sv_groups :: "'h operation_group list"
  sv_children :: "(nat \<times> nat) list"
  sv_threads :: "'h instr list list"
  sv_calls :: "listener_call list"
  sv_completions :: "('h option \<times> error_code) list"

record server_env =
  e_status :: "nat \<Rightarrow> listener_status"       \<comment> \<open>what the listeners' \<open>status\<close> returns\<close>
  e_throw :: exception_ptr                   \<comment> \<open>thrown by an initiating function of a listener\<close>
  e_post :: bool                             \<comment> \<open>the executor accepts a server event\<close>

definition new_server :: "'h server" where
  "new_server =
     \<lparr> sv_control = new_control, sv_listeners = [], sv_next_listener_id = 0, sv_groups = [],
       sv_children = [], sv_threads = [], sv_calls = [], sv_completions = [] \<rparr>"

subsection \<open>Listeners\<close>

definition next_listener_id :: "'h server \<Rightarrow> u64 \<times> 'h server" where
  "next_listener_id s =
     (let ident = sv_next_listener_id s + 1 in (ident, s\<lparr> sv_next_listener_id := ident \<rparr>))"

definition add_listener :: "u64 \<Rightarrow> 'h server \<Rightarrow> 'h server" where
  "add_listener ident s = s\<lparr> sv_listeners := sv_listeners s @ [ident] \<rparr>"

text \<open>
  \<open>listen\<close> and \<open>bind\<close> take an identifier, construct the listener, whose constructor validates
  the options and may throw, and register it.
\<close>

definition server_listen :: "listener_options \<Rightarrow> 'h server \<Rightarrow> (argument_error + u64) \<times> 'h server" where
  "server_listen options s =
     (case next_listener_id s of
        (ident, s) \<Rightarrow>
          (case validate_acceptor_options options of
             Inl e \<Rightarrow> (Inl e, s)
           | Inr _ \<Rightarrow> (Inr ident, add_listener ident s)))"

definition server_bind :: "listener_options \<Rightarrow> 'h server \<Rightarrow> (argument_error + u64) \<times> 'h server" where
  "server_bind options s =
     (case next_listener_id s of
        (ident, s) \<Rightarrow>
          (case validate_socket_options options of
             Inl e \<Rightarrow> (Inl e, s)
           | Inr _ \<Rightarrow> (Inr ident, add_listener ident s)))"

definition snapshot :: "'h server \<Rightarrow> nat list" where
  "snapshot s = [0..<length (sv_listeners s)]"

subsection \<open>Instructions\<close>

abbreviation group_of :: "'h server \<Rightarrow> nat \<Rightarrow> 'h operation_group" where
  "group_of s g \<equiv> sv_groups s ! g"

abbreviation set_group :: "nat \<Rightarrow> 'h operation_group \<Rightarrow> 'h server \<Rightarrow> 'h server" where
  "set_group g grp s \<equiv> s\<lparr> sv_groups := (sv_groups s)[g := grp] \<rparr>"

definition complete_server :: "'h option \<Rightarrow> error_code \<Rightarrow> 'h server \<Rightarrow> 'h server" where
  "complete_server h ec s = s\<lparr> sv_completions := sv_completions s @ [(h, ec)] \<rparr>"

definition call_listener :: "listener_call \<Rightarrow> 'h server \<Rightarrow> 'h server" where
  "call_listener c s = s\<lparr> sv_calls := sv_calls s @ [c] \<rparr>"

text \<open>\<open>exec\<close> gives the new state and the instructions the thread executes next.\<close>

definition exec_begin_start :: "nat \<Rightarrow> server_env \<Rightarrow> 'h server \<Rightarrow> 'h server \<times> 'h instr list" where
  "exec_begin_start g e s =
     (let values = g_listeners (group_of s g);
          started = begin_start (e_post e) (map (e_status e) values) (sv_control s);
          s = s\<lparr> sv_control := snd started \<rparr>
      in if fst started then (s, [Submit_loop g 0 False])
         else let rejected = group_reject operation_aborted (group_of s g)
              in (complete_server (fst (snd rejected)) (snd (snd rejected))
                    (set_group g (fst rejected) s), []))"

definition exec_begin_start_empty :: "'h \<Rightarrow> server_env \<Rightarrow> 'h server \<Rightarrow> 'h server \<times> 'h instr list" where
  "exec_begin_start_empty h e s =
     (let started = begin_start (e_post e) [] (sv_control s);
          s = s\<lparr> sv_control := snd started \<rparr>
      in if fst started then (s, [Finish call_finish_start [] (Some h) no_error])
         else (complete_server (Some h) operation_aborted s, []))"

definition exec_submit :: "nat \<Rightarrow> nat \<Rightarrow> bool \<Rightarrow> server_env \<Rightarrow> 'h server \<Rightarrow> 'h server \<times> 'h instr list" where
  "exec_submit g i wait e s =
     (if i < length (g_listeners (group_of s g))
      then case e_throw e of
             None \<Rightarrow>
               (call_listener (if wait then Call_wait g i else Call_start g i)
                  (s\<lparr> sv_children := sv_children s @ [(g, i)] \<rparr>),
                [Check_cancelled g i, Submit_loop g (i + 1) wait])
           | Some ex \<Rightarrow>
               (set_group g (group_initiation_failed i ex (group_of s g)) s,
                [Submit_loop g (i + 1) wait])
      else (s, [Report_loop g 0 wait]))"

definition exec_report :: "nat \<Rightarrow> nat \<Rightarrow> bool \<Rightarrow> 'h server \<Rightarrow> 'h server \<times> 'h instr list" where
  "exec_report g i wait s =
     (if i < length (g_initiation_ecs (group_of s g))
      then (s, (if failed (g_initiation_ecs (group_of s g) ! i)
                then [One g (g_initiation_ecs (group_of s g) ! i)] else [])
               @ [Report_loop g (i + 1) wait])
      else (s, if wait then [] else [Check_stop g]))"

definition exec_one :: "nat \<Rightarrow> error_code \<Rightarrow> 'h server \<Rightarrow> 'h server \<times> 'h instr list" where
  "exec_one g ec s =
     (case group_one ec (group_of s g) of
        (grp, stop, ready) \<Rightarrow>
          (set_group g grp s,
           (if stop then map Stop_one (g_listeners grp) else []) @
           (case ready of
              None \<Rightarrow> []
            | Some (h, result) \<Rightarrow> [Finish (g_finished grp) (g_listeners grp) h result])))"

definition exec_finish ::
    "finished_function \<Rightarrow> nat list \<Rightarrow> 'h option \<Rightarrow> error_code \<Rightarrow> server_env \<Rightarrow> 'h server \<Rightarrow>
     'h server \<times> 'h instr list" where
  "exec_finish finished values h ec e s =
     (let result = (case finished of
                      call_finish_start \<Rightarrow>
                        finish_start (e_post e) (map (e_status e) values) ec (sv_control s)
                    | call_finish_wait \<Rightarrow>
                        finish_wait (e_post e) (map (e_status e) values) ec (sv_control s))
      in (complete_server h (fst result) (s\<lparr> sv_control := snd result \<rparr>), []))"

fun exec :: "'h instr \<Rightarrow> server_env \<Rightarrow> 'h server \<Rightarrow> 'h server \<times> 'h instr list" where
  "exec (Begin_start g) e s = exec_begin_start g e s"
| "exec (Begin_start_empty h) e s = exec_begin_start_empty h e s"
| "exec (Submit_loop g i wait) e s = exec_submit g i wait e s"
| "exec (Check_cancelled g i) e s =
     (if g_cancelled (group_of s g) \<noteq> 0
      then (call_listener (Call_cancel g i (g_cancelled (group_of s g))) s, []) else (s, []))"
| "exec (Report_loop g i wait) e s = exec_report g i wait s"
| "exec (Check_stop g) e s =
     (s, if stop_requested (sv_control s) then map Stop_one (g_listeners (group_of s g)) else [])"
| "exec (One g ec) e s = exec_one g ec s"
| "exec (Finish finished values h ec) e s = exec_finish finished values h ec e s"
| "exec Control_stop e s =
     (s\<lparr> sv_control := control_request_stop (e_post e) (map (e_status e) (snapshot s)) (sv_control s) \<rparr>,
      [])"
| "exec (Stop_one l) e s = (call_listener (Call_stop l) s, [])"
| "exec (Cancel_set g type) e s =
     (set_group g (group_cancel type (group_of s g)) s,
      map (\<lambda>j. Cancel_one g j type) [0..<length (g_listeners (group_of s g))])"
| "exec (Cancel_one g j type) e s = (call_listener (Call_cancel g j type) s, [])"

subsection \<open>Calls\<close>

definition start_thread :: "'h instr list \<Rightarrow> 'h server \<Rightarrow> 'h server" where
  "start_thread t s = s\<lparr> sv_threads := sv_threads s @ [t] \<rparr>"

definition server_do_async_start :: "'h \<Rightarrow> bool \<Rightarrow> 'h server \<Rightarrow> 'h server" where
  "server_do_async_start h connected s =
     (let values = snapshot s
      in if values \<noteq> []
         then let grp = group_prepare connected (new_group values True call_finish_start h)
              in start_thread [Begin_start (length (sv_groups s))]
                   (s\<lparr> sv_groups := sv_groups s @ [grp] \<rparr>)
         else start_thread [Begin_start_empty h] s)"

definition server_do_async_wait :: "'h \<Rightarrow> bool \<Rightarrow> 'h server \<Rightarrow> 'h server" where
  "server_do_async_wait h connected s =
     (let values = snapshot s
      in if values = []
         then start_thread [Finish call_finish_wait [] (Some h) no_error] s
         else let grp = group_prepare connected (new_group values False call_finish_wait h)
              in start_thread [Submit_loop (length (sv_groups s)) 0 True]
                   (s\<lparr> sv_groups := sv_groups s @ [grp] \<rparr>))"

text \<open>\<open>request_stop\<close> holds the lock on the listeners; the destructor calls it.\<close>

definition server_request_stop :: "'h server \<Rightarrow> 'h server" where
  "server_request_stop s = start_thread (Control_stop # map Stop_one (snapshot s)) s"

definition run_thread :: "nat \<Rightarrow> server_env \<Rightarrow> 'h server \<Rightarrow> 'h server" where
  "run_thread j e s =
     (case sv_threads s ! j of
        [] \<Rightarrow> s
      | ins # rest \<Rightarrow>
          (case exec ins e s of
             (s', new) \<Rightarrow> s'\<lparr> sv_threads := (sv_threads s')[j := new @ rest] \<rparr>))"

datatype 'h server_action =
    Do_listen listener_options
  | Do_bind listener_options
  | Do_async_start 'h bool
  | Do_async_wait 'h bool
  | Do_request_stop
  | Do_cancel nat cancellation_type          \<comment> \<open>a cancellation reaches the slot of a group\<close>
  | Do_complete_child "nat \<times> nat" error_code   \<comment> \<open>a listener completes a child operation\<close>
  | Do_run nat server_env                    \<comment> \<open>a thread executes its next instruction\<close>

text \<open>
  Fewer than \<open>2\<^sup>6\<^sup>4\<close> listeners are created, and an initiating function that throws throws an
  error: an exception that converts to success would be dropped by \<open>start\<close>.
\<close>

fun server_enabled :: "'h server_action \<Rightarrow> 'h server \<Rightarrow> bool" where
  "server_enabled (Do_listen options) s = (sv_next_listener_id s \<noteq> - 1)"
| "server_enabled (Do_bind options) s = (sv_next_listener_id s \<noteq> - 1)"
| "server_enabled (Do_cancel g type) s =
     (g < length (sv_groups s) \<and> g_connected (group_of s g) \<and> type \<noteq> 0)"
| "server_enabled (Do_complete_child child ec) s = (child \<in> set (sv_children s))"
| "server_enabled (Do_run j e) s =
     (j < length (sv_threads s) \<and>
      (e_throw e \<noteq> None \<longrightarrow> failed (exception_to_error (e_throw e))))"
| "server_enabled _ s = True"

fun server_do :: "'h server_action \<Rightarrow> 'h server \<Rightarrow> 'h server" where
  "server_do (Do_listen options) s = snd (server_listen options s)"
| "server_do (Do_bind options) s = snd (server_bind options s)"
| "server_do (Do_async_start h connected) s = server_do_async_start h connected s"
| "server_do (Do_async_wait h connected) s = server_do_async_wait h connected s"
| "server_do Do_request_stop s = server_request_stop s"
| "server_do (Do_cancel g type) s = start_thread [Cancel_set g type] s"
| "server_do (Do_complete_child child ec) s =
     start_thread [One (fst child) ec] (s\<lparr> sv_children := remove1 child (sv_children s) \<rparr>)"
| "server_do (Do_run j e) s = run_thread j e s"

definition server_run :: "'h server_action list \<Rightarrow> 'h server \<Rightarrow> 'h server option" where
  "server_run = run_script server_enabled server_do"

inductive server_step :: "'h server \<Rightarrow> 'h server \<Rightarrow> bool" where
  server_stepI: "server_enabled x s \<Longrightarrow> server_step s (server_do x s)"

inductive_cases server_stepE: "server_step s s'"

lemma server_run_steps: "server_run script s = Some s' \<Longrightarrow> server_step\<^sup>*\<^sup>* s s'"
  unfolding server_run_def by (erule run_script_steps [rotated]) (rule server_stepI)

end
