(* ===== verification/Serveza_Server_Inv.thy ===== *)
theory Serveza_Server_Inv
  imports Serveza_Server
begin

text \<open>
  Every operation of a server completes exactly once.  A group counts down the reports it
  still expects; the invariant says where they are: in the loop that submits the children,
  in a child that a listener has accepted, in an initiation error still to be reported or in
  a report on its way to the lock.
\<close>

fun weight :: "'h operation_group list \<Rightarrow> nat \<Rightarrow> 'h instr \<Rightarrow> nat" where
  "weight gs g (Begin_start k) = (if k = g then length (g_listeners (gs ! g)) else 0)"
| "weight gs g (Submit_loop k i wait) =
     (if k = g then length (g_listeners (gs ! g)) - i
                    + length (filter failed (take i (g_initiation_ecs (gs ! g)))) else 0)"
| "weight gs g (Report_loop k i wait) =
     (if k = g then length (filter failed (drop i (g_initiation_ecs (gs ! g)))) else 0)"
| "weight gs g (One k ec) = (if k = g then 1 else 0)"
| "weight gs g _ = 0"

fun loop_of :: "'h instr \<Rightarrow> nat option" where
  "loop_of (Begin_start g) = Some g"
| "loop_of (Submit_loop g i wait) = Some g"
| "loop_of (Report_loop g i wait) = Some g"
| "loop_of _ = None"

definition loops :: "nat \<Rightarrow> 'h instr multiset \<Rightarrow> nat" where
  "loops g M = count (image_mset loop_of M) (Some g)"

definition outstanding :: "'h instr multiset \<Rightarrow> 'h server \<Rightarrow> nat \<Rightarrow> nat" where
  "outstanding M s g =
     sum_mset (image_mset (weight (sv_groups s) g) M) + count_list (map fst (sv_children s)) g"

fun instr_ok :: "'h operation_group list \<Rightarrow> 'h instr \<Rightarrow> bool" where
  "instr_ok gs (Begin_start g) =
     (g < length gs \<and> filter failed (g_initiation_ecs (gs ! g)) = [] \<and>
      g_listeners (gs ! g) \<noteq> [] \<and> g_remaining (gs ! g) = of_nat (length (g_listeners (gs ! g))))"
| "instr_ok gs (Submit_loop g i wait) =
     (g < length gs \<and> i \<le> length (g_listeners (gs ! g)) \<and>
      filter failed (drop i (g_initiation_ecs (gs ! g))) = [])"
| "instr_ok gs (Report_loop g i wait) = (g < length gs \<and> i \<le> length (g_listeners (gs ! g)))"
| "instr_ok gs (One g ec) = (g < length gs)"
| "instr_ok gs (Check_cancelled g i) = (g < length gs)"
| "instr_ok gs (Check_stop g) = (g < length gs)"
| "instr_ok gs (Cancel_set g type) = (g < length gs)"
| "instr_ok gs (Finish finished values h ec) = (h \<noteq> None)"
| "instr_ok gs _ = True"

definition group_ok :: "'h instr multiset \<Rightarrow> 'h server \<Rightarrow> nat \<Rightarrow> bool" where
  "group_ok M s g \<longleftrightarrow>
     length (g_initiation_ecs (group_of s g)) = length (g_listeners (group_of s g)) \<and>
     length (g_listeners (group_of s g)) < 2 ^ 64 \<and> loops g M \<le> 1 \<and>
     (if g_completion (group_of s g) = None then outstanding M s g = 0
      else 0 < outstanding M s g \<and> unat (g_remaining (group_of s g)) = outstanding M s g)"

definition server_ok :: "'h instr multiset \<Rightarrow> 'h server \<Rightarrow> bool" where
  "server_ok M s \<longleftrightarrow>
     (\<forall>ins \<in># M. instr_ok (sv_groups s) ins) \<and>
     (\<forall>g. g \<notin> {..<length (sv_groups s)} \<longrightarrow> loops g M = 0 \<and> outstanding M s g = 0) \<and>
     (\<forall>g < length (sv_groups s). group_ok M s g) \<and>
     None \<notin> fst ` set (sv_completions s) \<and>
     length (sv_listeners s) \<le> unat (sv_next_listener_id s)"

abbreviation instrs :: "'h server \<Rightarrow> 'h instr multiset" where
  "instrs s \<equiv> mset (concat (sv_threads s))"

definition server_inv :: "'h server \<Rightarrow> bool" where
  "server_inv s \<longleftrightarrow> server_ok (instrs s) s"

lemma loops_simps [simp]:
  "loops g {#} = 0"
  "loops g (add_mset ins M) = (if loop_of ins = Some g then 1 else 0) + loops g M"
  "loops g (M + N) = loops g M + loops g N"
  by (simp_all add: loops_def)

lemma outstanding_simps [simp]:
  "outstanding (add_mset ins M) s g = weight (sv_groups s) g ins + outstanding M s g"
  by (simp add: outstanding_def)

lemma outstanding_plus:
  "outstanding (M + N) s g = sum_mset (image_mset (weight (sv_groups s) g) M) + outstanding N s g"
  by (simp add: outstanding_def)

lemma weight_no_loop:
  "loop_of ins \<noteq> Some g \<Longrightarrow> weight gs g ins = weight gs' g ins"
  by (cases ins) auto

lemma weight_cong:
  "g_listeners (gs' ! g) = g_listeners (gs ! g) \<Longrightarrow>
   g_initiation_ecs (gs' ! g) = g_initiation_ecs (gs ! g) \<Longrightarrow> weight gs' g ins = weight gs g ins"
  by (cases ins) auto

lemma sum_weight_no_loop:
  "loops g M = 0 \<Longrightarrow>
     sum_mset (image_mset (weight gs g) M) = sum_mset (image_mset (weight gs' g) M)"
  by (induction M) (auto simp: weight_no_loop [of _ g gs gs'] split: if_splits)

lemma outstanding_cong:
  assumes "g_listeners (group_of s' g) = g_listeners (group_of s g)"
    and "g_initiation_ecs (group_of s' g) = g_initiation_ecs (group_of s g)"
    and "sv_children s' = sv_children s"
  shows "outstanding M s' g = outstanding M s g"
  using assms weight_cong [OF assms(1,2)] by (simp add: outstanding_def cong: image_mset_cong)

text \<open>Replacing an instruction by others, when the groups stay as they are.\<close>

lemma server_ok_replace:
  assumes ok: "server_ok (add_mset ins N) s"
    and same: "sv_groups s' = sv_groups s" "sv_children s' = sv_children s"
      "sv_listeners s' = sv_listeners s" "sv_next_listener_id s' = sv_next_listener_id s"
    and completions: "None \<notin> fst ` set (sv_completions s')"
    and new: "\<forall>i \<in># M. instr_ok (sv_groups s) i"
    and loop: "\<And>g. loops g M \<le> (if loop_of ins = Some g then 1 else 0)"
    and weights: "\<And>g. sum_mset (image_mset (weight (sv_groups s) g) M) = weight (sv_groups s) g ins"
  shows "server_ok (M + N) s'"
proof -
  have out: "outstanding (M + N) s' g = outstanding (add_mset ins N) s g" for g
    using weights [of g] by (simp add: outstanding_def same)
  have lps: "loops g (M + N) \<le> loops g (add_mset ins N)" for g
    using loop [of g] by simp
  have "group_ok (M + N) s' g" if "g < length (sv_groups s)" for g
    using ok that lps [of g] unfolding server_ok_def group_ok_def out same(1) by fastforce
  moreover have "loops g (M + N) = 0 \<and> outstanding (M + N) s' g = 0" if "g \<notin> {..<length (sv_groups s)}" for g
    using ok that lps [of g] unfolding server_ok_def out by fastforce
  moreover have "\<forall>i \<in># M + N. instr_ok (sv_groups s') i"
    using ok new by (auto simp: server_ok_def same)
  ultimately show ?thesis using ok completions by (simp add: server_ok_def same)
qed

lemma server_okD:
  assumes "server_ok M s"
  shows "ins \<in># M \<Longrightarrow> instr_ok (sv_groups s) ins"
    and "g < length (sv_groups s) \<Longrightarrow> group_ok M s g"
    and "\<not> g < length (sv_groups s) \<Longrightarrow> loops g M = 0"
    and "\<not> g < length (sv_groups s) \<Longrightarrow> outstanding M s g = 0"
    and "None \<notin> fst ` set (sv_completions s)"
    and "length (sv_listeners s) \<le> unat (sv_next_listener_id s)"
  using assms by (auto simp: server_ok_def)

lemma exec_threads [simp]: "sv_threads (fst (exec ins e s)) = sv_threads s"
  by (cases ins) (auto simp: exec_begin_start_def exec_begin_start_empty_def exec_submit_def
      exec_report_def exec_one_def exec_finish_def complete_server_def call_listener_def Let_def
      split: option.split prod.split)

text \<open>An instruction that posts only plain instructions.\<close>

lemma plain_sum:
  "(\<And>i. i \<in># M \<Longrightarrow> weight gs g i = 0) \<Longrightarrow> sum_mset (image_mset (weight gs g) M) = 0"
  by (simp add: sum_mset_0_iff)

lemma plain_loops: "(\<And>i. i \<in># M \<Longrightarrow> loop_of i = None) \<Longrightarrow> loops g M = 0"
  by (induction M) auto

lemma server_ok_plain:
  assumes ok: "server_ok (add_mset ins N) s" and ins: "\<And>g. weight (sv_groups s) g ins = 0"
    and same: "sv_groups s' = sv_groups s" "sv_children s' = sv_children s"
      "sv_listeners s' = sv_listeners s" "sv_next_listener_id s' = sv_next_listener_id s"
    and completions: "None \<notin> fst ` set (sv_completions s')"
    and new: "\<And>i. i \<in># M \<Longrightarrow>
      instr_ok (sv_groups s) i \<and> loop_of i = None \<and> (\<forall>g. weight (sv_groups s) g i = 0)"
  shows "server_ok (M + N) s'"
  by (rule server_ok_replace [OF ok same completions])
    (use new ins in \<open>auto simp: plain_loops plain_sum\<close>)

lemma server_ok_begin_start_empty:
  assumes "server_ok (add_mset (Begin_start_empty h) N) s"
  shows "server_ok (mset (snd (exec_begin_start_empty h e s)) + N) (fst (exec_begin_start_empty h e s))"
  by (rule server_ok_plain [OF assms])
    (use server_okD(5) [OF assms] in \<open>auto simp: exec_begin_start_empty_def Let_def complete_server_def
      split: if_splits\<close>)

lemma server_ok_finish:
  assumes "server_ok (add_mset (Finish f v h ec) N) s"
  shows "server_ok (mset (snd (exec_finish f v h ec e s)) + N) (fst (exec_finish f v h ec e s))"
proof -
  have "h \<noteq> None" using server_okD(1) [OF assms, of "Finish f v h ec"] by simp
  with server_okD(5) [OF assms] show ?thesis
    by (intro server_ok_plain [OF assms])
      (auto simp: exec_finish_def Let_def complete_server_def split: finished_function.split)
qed

lemma server_ok_report:
  assumes "server_ok (add_mset (Report_loop g i w) N) s"
  shows "server_ok (mset (snd (exec_report g i w s)) + N) (fst (exec_report g i w s))"
proof -
  have g: "g < length (sv_groups s)" "i \<le> length (g_listeners (group_of s g))"
    using server_okD(1) [OF assms, of "Report_loop g i w"] by simp_all
  then have len: "length (g_initiation_ecs (group_of s g)) = length (g_listeners (group_of s g))"
    using server_okD(2) [OF assms] by (simp add: group_ok_def)
  show ?thesis
  proof (rule server_ok_replace [OF assms])
    show "\<forall>ins \<in># mset (snd (exec_report g i w s)). instr_ok (sv_groups s) ins"
      using g len by (auto simp: exec_report_def)
    show "loops k (mset (snd (exec_report g i w s))) \<le> (if loop_of (Report_loop g i w) = Some k then 1 else 0)"
      for k by (auto simp: exec_report_def)
    show "sum_mset (image_mset (weight (sv_groups s) k) (mset (snd (exec_report g i w s)))) =
        weight (sv_groups s) k (Report_loop g i w)" for k
      using len Cons_nth_drop_Suc [of i "g_initiation_ecs (group_of s g)", symmetric]
      by (auto simp: exec_report_def)
  qed (use server_okD(5) [OF assms] in \<open>auto simp: exec_report_def\<close>)
qed

text \<open>Changing a group but not its listeners and initiation errors.\<close>

lemma server_ok_set_group:
  assumes ok: "server_ok (add_mset ins N) s" and g: "g < length (sv_groups s)"
    and grp: "g_listeners grp = g_listeners (group_of s g)"
      "g_initiation_ecs grp = g_initiation_ecs (group_of s g)"
    and same: "sv_groups s' = (sv_groups s)[g := grp]" "sv_children s' = sv_children s"
      "sv_listeners s' = sv_listeners s" "sv_next_listener_id s' = sv_next_listener_id s"
    and completions: "None \<notin> fst ` set (sv_completions s')"
    and new: "\<And>i. i \<in># M \<Longrightarrow>
      instr_ok (sv_groups s) i \<and> loop_of i = None \<and> (\<forall>k. weight (sv_groups s) k i = 0)"
    and ins: "\<And>k. k \<noteq> g \<Longrightarrow> weight (sv_groups s) k ins = 0"
    and remaining: "Begin_start g \<in># N \<Longrightarrow> g_remaining grp = g_remaining (group_of s g)"
    and count: "if g_completion grp = None then outstanding N s g = 0
      else 0 < outstanding N s g \<and> unat (g_remaining grp) = outstanding N s g"
  shows "server_ok (M + N) s'"
proof -
  have fields: "g_listeners ((sv_groups s)[g := grp] ! k) = g_listeners (group_of s k)"
    "g_initiation_ecs ((sv_groups s)[g := grp] ! k) = g_initiation_ecs (group_of s k)" for k
    using g grp by (cases "k = g"; simp)+
  have iok: "instr_ok (sv_groups s') i" if "instr_ok (sv_groups s) i" "i \<in># M + N" for i
  proof -
    have "i \<in># N" if "i = Begin_start g"
      using that new [of i] \<open>i \<in># M + N\<close> by auto
    with that(1) remaining g show ?thesis
      by (cases i) (auto simp: same(1) fields grp nth_list_update)
  qed
  have out: "outstanding (M + N) s' k = outstanding N s k" for k
  proof -
    have "weight (sv_groups s') k = weight (sv_groups s) k"
      by (rule ext, rule weight_cong) (simp_all add: same(1) fields)
    moreover have "sum_mset (image_mset (weight (sv_groups s) k) M) = 0"
      using new by (intro plain_sum) blast
    ultimately show ?thesis by (simp add: outstanding_def same(2))
  qed
  have lps: "loops k (M + N) = loops k N" for k using new by (simp add: plain_loops)
  have "group_ok (M + N) s' k" if "k < length (sv_groups s)" for k
  proof (cases "k = g")
    case True
    then show ?thesis
      using server_okD(2) [OF ok g] count g grp unfolding group_ok_def out lps same(1) by (auto split: if_splits)
  next
    case False
    then show ?thesis
      using server_okD(2) [OF ok that] ins [OF False] unfolding group_ok_def out lps same(1) by (auto split: if_splits)
  qed
  moreover have "loops k (M + N) = 0 \<and> outstanding (M + N) s' k = 0" if "\<not> k < length (sv_groups s)" for k
    using server_okD(3,4) [OF ok that] unfolding out lps by simp
  moreover have "instr_ok (sv_groups s') i" if "i \<in># M + N" for i
    using that new server_okD(1) [OF ok, of i] iok [of i] by auto
  ultimately show ?thesis
    using completions server_okD(6) [OF ok] by (auto simp: server_ok_def same)
qed

lemma server_ok_one:
  assumes ok: "server_ok (add_mset (One g ec) N) s"
  shows "server_ok (mset (snd (exec_one g ec s)) + N) (fst (exec_one g ec s))"
proof -
  have g: "g < length (sv_groups s)" using server_okD(1) [OF ok, of "One g ec"] by simp
  note gok = server_okD(2) [OF ok g]
  define n where "n = outstanding N s g"
  have rem: "unat (g_remaining (group_of s g)) = Suc n" and some: "g_completion (group_of s g) \<noteq> None"
    using gok by (auto simp: group_ok_def n_def split: if_splits)
  have not_begin: "Begin_start g \<notin># N"
  proof
    assume b: "Begin_start g \<in># N"
    then have "g_remaining (group_of s g) = of_nat (length (g_listeners (group_of s g)))"
      using server_okD(1) [OF ok, of "Begin_start g"] by simp
    moreover have "length (g_listeners (group_of s g)) < 2 ^ 64" using gok by (simp add: group_ok_def)
    ultimately have "Suc n = length (g_listeners (group_of s g))" using rem by (simp add: unat_of_nat_64)
    moreover have "length (g_listeners (group_of s g)) \<le> n"
      using b by (auto dest!: multi_member_split simp: n_def)
    ultimately show False by simp
  qed
  show ?thesis
  proof (cases n)
    case 0
    with rem have "unat (g_remaining (group_of s g)) = 1" by simp
    note one = group_one_last [OF this, of ec]
    show ?thesis
      by (rule server_ok_set_group [OF ok g, of "fst (group_one ec (group_of s g))"])
        (use not_begin some 0 server_okD(5) [OF ok] in
          \<open>auto simp: exec_one_def one n_def split: if_splits\<close>)
  next
    case (Suc m)
    with rem have more: "1 < unat (g_remaining (group_of s g))" by simp
    note one = group_one_more [OF this, of ec]
    have "unat (g_remaining (group_of s g) - 1) = n" using rem by (simp add: unat_minus_1)
    then show ?thesis
      by (intro server_ok_set_group [OF ok g, of "fst (group_one ec (group_of s g))"])
        (use not_begin some Suc server_okD(5) [OF ok] in
          \<open>auto simp: exec_one_def one n_def split: if_splits\<close>)
  qed
qed

lemma server_ok_cancel_set:
  assumes ok: "server_ok (add_mset (Cancel_set g type) N) s"
  shows "server_ok (mset (snd (exec (Cancel_set g type) e s)) + N) (fst (exec (Cancel_set g type) e s))"
proof -
  have g: "g < length (sv_groups s)" using server_okD(1) [OF ok, of "Cancel_set g type"] by simp
  show ?thesis
    by (rule server_ok_set_group [OF ok g, of "group_cancel type (group_of s g)"])
      (use server_okD(2) [OF ok g] server_okD(5) [OF ok] in
        \<open>auto simp: group_cancel_def group_ok_def split: if_splits\<close>)
qed

lemma server_ok_begin_start:
  assumes ok: "server_ok (add_mset (Begin_start g) N) s"
  shows "server_ok (mset (snd (exec_begin_start g e s)) + N) (fst (exec_begin_start g e s))"
proof -
  have iok: "instr_ok (sv_groups s) (Begin_start g)" using server_okD(1) [OF ok, of "Begin_start g"] by simp
  then have g: "g < length (sv_groups s)" by simp
  note gok = server_okD(2) [OF ok g]
  have len: "length (g_listeners (group_of s g)) < 2 ^ 64" using gok by (simp add: group_ok_def)
  show ?thesis
  proof (cases "fst (begin_start (e_post e) (map (e_status e) (g_listeners (group_of s g))) (sv_control s))")
    case True
    show ?thesis
      by (rule server_ok_replace [OF ok])
        (use True iok server_okD(5) [OF ok] in \<open>auto simp: exec_begin_start_def Let_def\<close>)
  next
    case False
    have "unat (g_remaining (group_of s g)) = length (g_listeners (group_of s g))"
      using iok len by (simp add: unat_of_nat_64)
    then have zero: "outstanding N s g = 0" and some: "g_completion (group_of s g) \<noteq> None"
      using gok iok by (auto simp: group_ok_def split: if_splits)
    show ?thesis
      by (rule server_ok_set_group [OF ok g, of "fst (group_reject operation_aborted (group_of s g))"])
        (use False zero some server_okD(5) [OF ok] in
          \<open>auto simp: exec_begin_start_def group_reject_def complete_server_def Let_def\<close>)
  qed
qed

subsection \<open>Submitting children\<close>

lemma take_failed:
  assumes "i < length ecs" and "filter failed (drop i ecs) = []"
  shows "filter failed (take (Suc i) ecs) = filter failed (take i ecs)"
    and "filter failed (drop (Suc i) ecs) = []"
    and "failed ec \<Longrightarrow> length (filter failed (take (Suc i) (ecs[i := ec]))) = Suc (length (filter failed (take i ecs)))"
    and "filter failed (drop (Suc i) (ecs[i := ec])) = []"
proof -
  have "\<not> failed (ecs ! i)" and drop: "filter failed (drop (Suc i) ecs) = []"
    using assms(2) unfolding Cons_nth_drop_Suc [OF assms(1), symmetric] by (auto split: if_splits)
  then show "filter failed (take (Suc i) ecs) = filter failed (take i ecs)"
    using assms(1) by (simp add: take_Suc_conv_app_nth)
  show "filter failed (drop (Suc i) ecs) = []" by (rule drop)
  show "length (filter failed (take (Suc i) (ecs[i := ec]))) = Suc (length (filter failed (take i ecs)))"
    if "failed ec" using assms(1) that by (simp add: take_Suc_conv_app_nth)
  show "filter failed (drop (Suc i) (ecs[i := ec])) = []" using drop by simp
qed

lemma server_ok_submitted:
  assumes ok: "server_ok (add_mset (Submit_loop g i w) N) s" and i: "i < length (g_listeners (group_of s g))"
  shows "server_ok ({# Check_cancelled g i, Submit_loop g (Suc i) w #} + N)
           (s\<lparr> sv_children := sv_children s @ [(g, i)], sv_calls := cs \<rparr>)" (is "server_ok ?M ?s")
proof -
  have iok: "g < length (sv_groups s)" "filter failed (drop i (g_initiation_ecs (group_of s g))) = []"
    using server_okD(1) [OF ok, of "Submit_loop g i w"] by simp_all
  have len: "length (g_initiation_ecs (group_of s g)) = length (g_listeners (group_of s g))"
    using server_okD(2) [OF ok iok(1)] by (simp add: group_ok_def)
  note taken = take_failed [OF i [folded len] iok(2)]
  have out: "outstanding ?M ?s k = outstanding (add_mset (Submit_loop g i w) N) s k" for k
    using i taken(1) by (auto simp: outstanding_def)
  have lps: "loops k ?M = loops k (add_mset (Submit_loop g i w) N)" for k by simp
  have "group_ok ?M ?s k" if "k < length (sv_groups s)" for k
    using server_okD(2) [OF ok that] unfolding group_ok_def out lps by (simp del: outstanding_simps)
  moreover have "loops k ?M = 0 \<and> outstanding ?M ?s k = 0" if "\<not> k < length (sv_groups s)" for k
    using server_okD(3,4) [OF ok that] unfolding out lps by simp
  moreover have "\<forall>ins \<in># ?M. instr_ok (sv_groups s) ins"
    using server_okD(1) [OF ok] iok(1) i taken(2) by auto
  ultimately show ?thesis
    using server_okD(5,6) [OF ok] by (simp add: server_ok_def)
qed

lemma server_ok_initiation_failed:
  assumes ok: "server_ok (add_mset (Submit_loop g i w) N) s" and i: "i < length (g_listeners (group_of s g))"
    and ex: "failed (exception_to_error (Some ex))"
  shows "server_ok ({# Submit_loop g (Suc i) w #} + N)
           (set_group g (group_initiation_failed i ex (group_of s g)) s)" (is "server_ok ?M ?s")
proof -
  have iok: "g < length (sv_groups s)" "filter failed (drop i (g_initiation_ecs (group_of s g))) = []"
    using server_okD(1) [OF ok, of "Submit_loop g i w"] by simp_all
  note gok = server_okD(2) [OF ok iok(1)]
  have len: "length (g_initiation_ecs (group_of s g)) = length (g_listeners (group_of s g))"
    using gok by (simp add: group_ok_def)
  note taken = take_failed [OF i [folded len] iok(2)]
  have none: "loops g N = 0" using gok by (simp add: group_ok_def)
  have out: "outstanding ?M ?s k = outstanding (add_mset (Submit_loop g i w) N) s k" for k
  proof (cases "k = g")
    case True
    with i iok(1) taken(3) [OF ex] sum_weight_no_loop [OF none, of "sv_groups ?s" "sv_groups s"]
    show ?thesis by (simp add: outstanding_def group_initiation_failed_def)
  next
    case False
    then have "weight (sv_groups ?s) k = weight (sv_groups s) k"
      by (intro ext weight_cong) simp_all
    with False show ?thesis by (simp add: outstanding_def)
  qed
  have lps: "loops k ?M = loops k (add_mset (Submit_loop g i w) N)" for k by simp
  have "group_ok ?M ?s k" if "k < length (sv_groups s)" for k
    using server_okD(2) [OF ok that] iok(1) unfolding group_ok_def out lps
    by (cases "k = g") (simp_all add: group_initiation_failed_def del: outstanding_simps split: if_splits)
  moreover have "loops k ?M = 0 \<and> outstanding ?M ?s k = 0" if "\<not> k < length (sv_groups s)" for k
    using server_okD(3,4) [OF ok that] unfolding out lps by simp
  moreover have "instr_ok (sv_groups ?s) ins" if "ins \<in># N" for ins
  proof -
    have "loop_of ins \<noteq> Some g" using that none by (auto dest!: multi_member_split)
    then show ?thesis
      using server_okD(1) [OF ok, of ins] that by (cases ins) (auto simp: nth_list_update)
  qed
  moreover have "instr_ok (sv_groups ?s) (Submit_loop g (Suc i) w)"
    using iok(1) i taken(4) by (simp add: group_initiation_failed_def)
  ultimately show ?thesis
    using server_okD(5,6) [OF ok] by (auto simp: server_ok_def)
qed

lemma server_ok_submit:
  assumes ok: "server_ok (add_mset (Submit_loop g i w) N) s"
    and ex: "e_throw e \<noteq> None \<longrightarrow> failed (exception_to_error (e_throw e))"
  shows "server_ok (mset (snd (exec_submit g i w e s)) + N) (fst (exec_submit g i w e s))"
proof (cases "i < length (g_listeners (group_of s g))")
  case True
  show ?thesis
  proof (cases "e_throw e")
    case None
    with True server_ok_submitted [OF ok True] show ?thesis
      by (simp add: exec_submit_def call_listener_def)
  next
    case (Some x)
    with True ex server_ok_initiation_failed [OF ok True] show ?thesis
      by (simp add: exec_submit_def)
  qed
next
  case False
  have iok: "g < length (sv_groups s)" "i = length (g_listeners (group_of s g))"
    using server_okD(1) [OF ok, of "Submit_loop g i w"] False by simp_all
  have len: "length (g_initiation_ecs (group_of s g)) = length (g_listeners (group_of s g))"
    using server_okD(2) [OF ok iok(1)] by (simp add: group_ok_def)
  show ?thesis
    by (rule server_ok_replace [OF ok])
      (use False iok len server_okD(5) [OF ok] in \<open>auto simp: exec_submit_def\<close>)
qed

subsection \<open>Every step keeps the invariant\<close>

lemma server_ok_exec:
  assumes ok: "server_ok (add_mset ins N) s"
    and ex: "e_throw e \<noteq> None \<longrightarrow> failed (exception_to_error (e_throw e))"
  shows "server_ok (mset (snd (exec ins e s)) + N) (fst (exec ins e s))"
proof -
  have plain: "server_ok (mset new + N) s'"
    if "\<And>g. weight (sv_groups s) g ins = 0" "sv_groups s' = sv_groups s" "sv_children s' = sv_children s"
      "sv_listeners s' = sv_listeners s" "sv_next_listener_id s' = sv_next_listener_id s"
      "sv_completions s' = sv_completions s" "\<And>i. i \<in> set new \<Longrightarrow> \<exists>l. i = Stop_one l" for new s'
    using server_okD(5) [OF ok] that by (intro server_ok_plain [OF ok]) (auto dest!: that(7))
  show ?thesis
  proof (cases ins)
    case (Begin_start g)
    with ok show ?thesis by (simp add: server_ok_begin_start)
  next
    case (Begin_start_empty h)
    with ok show ?thesis by (simp add: server_ok_begin_start_empty)
  next
    case (Submit_loop g i w)
    with ok ex show ?thesis by (simp add: server_ok_submit)
  next
    case (Report_loop g i w)
    with ok show ?thesis by (simp add: server_ok_report)
  next
    case (One g ec)
    with ok show ?thesis by (simp add: server_ok_one)
  next
    case (Finish f v h ec)
    with ok show ?thesis by (simp add: server_ok_finish)
  next
    case (Cancel_set g type)
    with ok server_ok_cancel_set [of g type N s e] show ?thesis by simp
  next
    case (Check_cancelled g i)
    then show ?thesis by (intro plain) (auto simp: call_listener_def split: if_splits)
  next
    case (Check_stop g)
    then show ?thesis by (intro plain) (auto split: if_splits)
  qed (use plain [where new = "[]"] in \<open>simp_all add: call_listener_def\<close>)
qed

text \<open>The instructions after a thread has executed one.\<close>

lemma instrs_run_thread:
  assumes "j < length (sv_threads s)" and "sv_threads s ! j = ins # rest"
  obtains N where "instrs s = add_mset ins N"
    and "instrs (run_thread j e s) = mset (snd (exec ins e s)) + N"
proof -
  define ts where "ts = sv_threads s"
  have ts: "ts = take j ts @ (ins # rest) # drop (Suc j) ts"
    using assms by (metis id_take_nth_drop ts_def)
  define N where "N = mset (concat (take j ts)) + mset rest + mset (concat (drop (Suc j) ts))"
  have "instrs s = mset (concat (take j ts @ (ins # rest) # drop (Suc j) ts))"
    using ts by (simp add: ts_def [symmetric])
  then have "instrs s = add_mset ins N" by (simp add: N_def)
  moreover have "instrs (run_thread j e s) = mset (snd (exec ins e s)) + N"
    using assms exec_threads [of ins e s]
    by (cases "exec ins e s") (simp add: run_thread_def upd_conv_take_nth_drop N_def ts_def)
  ultimately show thesis using that by blast
qed

lemma server_ok_frame:
  "server_ok M (s\<lparr> sv_threads := ts \<rparr>) = server_ok M s"
  by (simp add: server_ok_def group_ok_def outstanding_def)

lemma server_inv_run_thread:
  assumes inv: "server_inv s" and j: "j < length (sv_threads s)"
    and ex: "e_throw e \<noteq> None \<longrightarrow> failed (exception_to_error (e_throw e))"
  shows "server_inv (run_thread j e s)"
proof (cases "sv_threads s ! j")
  case Nil
  with inv show ?thesis by (simp add: run_thread_def)
next
  case (Cons ins rest)
  then obtain N where N: "instrs s = add_mset ins N"
    "instrs (run_thread j e s) = mset (snd (exec ins e s)) + N"
    using instrs_run_thread [OF j Cons] by blast
  have "server_ok (mset (snd (exec ins e s)) + N) (fst (exec ins e s))"
    using inv N ex by (intro server_ok_exec) (simp_all add: server_inv_def)
  moreover have "server_ok M (run_thread j e s) = server_ok M (fst (exec ins e s))" for M
    using Cons by (simp add: run_thread_def server_ok_frame split: prod.split)
  ultimately show ?thesis by (simp add: server_inv_def N(2))
qed

lemma server_inv_start_thread:
  "server_inv (start_thread t s) = server_ok (mset t + instrs s) s"
  by (simp add: server_inv_def start_thread_def server_ok_frame add.commute)

lemma server_inv_plain_thread:
  assumes inv: "server_inv s"
    and new: "\<And>i. i \<in> set t \<Longrightarrow>
      instr_ok (sv_groups s) i \<and> loop_of i = None \<and> (\<forall>g. weight (sv_groups s) g i = 0)"
  shows "server_inv (start_thread t s)"
proof -
  have "server_ok (add_mset Control_stop (instrs s)) s"
    using inv unfolding server_inv_def server_ok_def group_ok_def by simp
  from server_ok_plain [OF this, of s "mset t"] new server_okD(5) [OF this] show ?thesis
    by (simp add: server_inv_start_thread)
qed

lemma count_children:
  "(g, i) \<in> set cs \<Longrightarrow>
     count_list (map fst cs) k = (if k = g then 1 else 0) + count_list (map fst (remove1 (g, i) cs)) k"
  by (induction cs) auto

lemma server_inv_complete_child:
  assumes inv: "server_inv s" and child: "(g, i) \<in> set (sv_children s)"
  shows "server_inv (start_thread [One g ec] (s\<lparr> sv_children := remove1 (g, i) (sv_children s) \<rparr>))"
proof -
  let ?s = "s\<lparr> sv_children := remove1 (g, i) (sv_children s) \<rparr>"
  have ok: "server_ok (instrs s) s" using inv by (simp add: server_inv_def)
  have count: "count_list (map fst (sv_children s)) k =
      (if k = g then 1 else 0) + count_list (map fst (remove1 (g, i) (sv_children s))) k" for k
    using child by (rule count_children)
  have out: "outstanding (add_mset (One g ec) (instrs s)) ?s k = outstanding (instrs s) s k" for k
    using count [of k] by (simp add: outstanding_def)
  have g: "g < length (sv_groups s)"
  proof (rule ccontr)
    assume "\<not> g < length (sv_groups s)"
    then have "outstanding (instrs s) s g = 0" by (rule server_okD(4) [OF ok])
    with count [of g] show False by (simp add: outstanding_def)
  qed
  have "group_ok (add_mset (One g ec) (instrs s)) ?s k" if "k < length (sv_groups s)" for k
    using server_okD(2) [OF ok that] unfolding group_ok_def out by simp
  moreover have "loops k (add_mset (One g ec) (instrs s)) = 0 \<and>
      outstanding (add_mset (One g ec) (instrs s)) ?s k = 0" if "\<not> k < length (sv_groups s)" for k
    using server_okD(3,4) [OF ok that] unfolding out by simp
  moreover have "\<forall>ins \<in># add_mset (One g ec) (instrs s). instr_ok (sv_groups s) ins"
    using ok g by (simp add: server_ok_def)
  ultimately have "server_ok (add_mset (One g ec) (instrs s)) ?s"
    using server_okD(5,6) [OF ok] by (simp add: server_ok_def del: outstanding_simps loops_simps)
  then show ?thesis by (simp add: server_inv_start_thread)
qed

text \<open>A new group with the instruction that begins it.\<close>

lemma server_inv_new_group:
  assumes inv: "server_inv s" and vals: "values \<noteq> []" "length values < 2 ^ 64"
    and ins: "ins = Begin_start (length (sv_groups s)) \<or> ins = Submit_loop (length (sv_groups s)) 0 w"
    and grp: "grp = group_prepare connected (new_group values stop f h)"
  shows "server_inv (start_thread [ins] (s\<lparr> sv_groups := sv_groups s @ [grp] \<rparr>))"
proof -
  let ?s = "s\<lparr> sv_groups := sv_groups s @ [grp] \<rparr>" and ?g = "length (sv_groups s)"
  have ok: "server_ok (instrs s) s" using inv by (simp add: server_inv_def)
  have new: "sv_groups ?s ! ?g = grp" by simp
  have grps: "g_listeners grp = values" "filter failed (g_initiation_ecs grp) = []"
    "length (g_initiation_ecs grp) = length values" "g_remaining grp = of_nat (length values)"
    "g_completion grp = Some h"
    by (simp_all add: grp group_prepare_def new_group_def failed_def)
  have old: "loops ?g (instrs s) = 0" "outstanding (instrs s) s ?g = 0"
    using server_okD(3,4) [OF ok, of ?g] by simp_all
  have w_new: "sum_mset (image_mset (weight (sv_groups ?s) ?g) (instrs s)) =
      sum_mset (image_mset (weight (sv_groups s) ?g) (instrs s))"
    using old(1) by (rule sum_weight_no_loop)
  have "weight (sv_groups ?s) ?g ins = length values"
    using ins grps by auto
  then have out_new: "outstanding (add_mset ins (instrs s)) ?s ?g = length values"
    using old(2) w_new by (simp add: outstanding_def)
  have out_old: "outstanding (add_mset ins (instrs s)) ?s k = outstanding (instrs s) s k" if "k < ?g" for k
  proof -
    have "weight (sv_groups ?s) k = weight (sv_groups s) k"
      using that by (intro ext weight_cong) (simp_all add: nth_append)
    with that ins show ?thesis by (auto simp: outstanding_def)
  qed
  have "group_ok (add_mset ins (instrs s)) ?s ?g"
    unfolding group_ok_def out_new new using ins grps vals old(1) by (auto simp: unat_of_nat_64)
  moreover have "group_ok (add_mset ins (instrs s)) ?s k" if "k < ?g" for k
    using server_okD(2) [OF ok that] that ins unfolding group_ok_def out_old [OF that]
    by (auto simp: nth_append)
  moreover have "loops k (add_mset ins (instrs s)) = 0 \<and> outstanding (add_mset ins (instrs s)) ?s k = 0"
    if "\<not> k < Suc ?g" for k
  proof -
    have k: "loops k (instrs s) = 0" "outstanding (instrs s) s k = 0"
      using server_okD(3,4) [OF ok, of k] that by simp_all
    moreover have "weight (sv_groups ?s) k ins = 0" using that ins by auto
    ultimately show ?thesis
      using that ins sum_weight_no_loop [OF k(1), of "sv_groups ?s" "sv_groups s"]
      by (auto simp: outstanding_def)
  qed
  moreover have "instr_ok (sv_groups ?s) i" if "i \<in># instrs s" for i
    using server_okD(1) [OF ok that] by (cases i) (auto simp: nth_append)
  moreover have "instr_ok (sv_groups ?s) ins" using ins grps vals by auto
  ultimately have "server_ok (add_mset ins (instrs s)) ?s"
    using server_okD(5,6) [OF ok]
    by (auto simp: server_ok_def less_Suc_eq simp del: outstanding_simps loops_simps)
  then show ?thesis by (simp add: server_inv_start_thread)
qed

lemma server_inv_listen:
  assumes "server_inv s" and "sv_next_listener_id s \<noteq> - 1"
  shows "server_inv (snd (server_listen options s))" and "server_inv (snd (server_bind options s))"
  using assms unat_plus_one [OF assms(2)]
  by (auto simp: server_listen_def server_bind_def next_listener_id_def add_listener_def Let_def
      server_inv_def server_ok_def group_ok_def outstanding_def split: sum.split)

interpretation server: inductive_invariant "\<lambda>s. s = new_server" server_step server_inv
proof
  show "s = new_server \<Longrightarrow> server_inv s" for s :: "'h server"
    by (simp add: server_inv_def server_ok_def new_server_def outstanding_def)
  fix s s' :: "'h server"
  assume inv: "server_inv s" and "server_step s s'"
  from this(2) obtain x where x: "server_enabled x s" "s' = server_do x s" by (rule server_stepE)
  have "length (snapshot s) < 2 ^ 64"
    using inv unat_less_2p64 [of "sv_next_listener_id s"]
    by (simp add: server_inv_def server_ok_def snapshot_def)
  note group = server_inv_new_group [OF inv _ this]
  show "server_inv s'"
  proof (cases x)
    case (Do_complete_child child ec)
    with inv x show ?thesis by (cases child) (simp add: server_inv_complete_child)
  next
    case (Do_async_start h c)
    with inv x group show ?thesis
      by (auto simp: server_do_async_start_def Let_def intro: server_inv_plain_thread)
  next
    case (Do_async_wait h c)
    with inv x group show ?thesis
      by (auto simp: server_do_async_wait_def Let_def intro: server_inv_plain_thread)
  next
    case Do_request_stop
    with inv x show ?thesis by (auto simp: server_request_stop_def intro!: server_inv_plain_thread)
  next
    case (Do_cancel g type)
    with inv x show ?thesis by (auto intro: server_inv_plain_thread)
  next
    case (Do_run j e)
    with inv x show ?thesis by (simp add: server_inv_run_thread)
  qed (use inv x in \<open>simp_all add: server_inv_listen\<close>)
qed

subsection \<open>Handlers\<close>

fun opt_mset :: "'h option \<Rightarrow> 'h multiset" where
  "opt_mset None = {#}"
| "opt_mset (Some h) = {# h #}"

fun instr_handlers :: "'h instr \<Rightarrow> 'h multiset" where
  "instr_handlers (Begin_start_empty h) = {# h #}"
| "instr_handlers (Finish f v h ec) = opt_mset h"
| "instr_handlers _ = {#}"

definition group_handlers :: "'h operation_group list \<Rightarrow> 'h multiset" where
  "group_handlers gs = sum_list (map (\<lambda>grp. opt_mset (g_completion grp)) gs)"

definition completed_handlers :: "'h server \<Rightarrow> 'h multiset" where
  "completed_handlers s = sum_list (map (\<lambda>c. opt_mset (fst c)) (sv_completions s))"

definition server_held :: "'h instr multiset \<Rightarrow> 'h server \<Rightarrow> 'h multiset" where
  "server_held M s = group_handlers (sv_groups s) + sum_mset (image_mset instr_handlers M)"

fun server_submitted :: "'h server_action \<Rightarrow> 'h multiset" where
  "server_submitted (Do_async_start h connected) = {# h #}"
| "server_submitted (Do_async_wait h connected) = {# h #}"
| "server_submitted _ = {#}"

lemma group_handlers_update:
  "g < length gs \<Longrightarrow>
     group_handlers (gs[g := grp]) + opt_mset (g_completion (gs ! g)) =
     group_handlers gs + opt_mset (g_completion grp)"
  by (induction gs arbitrary: g) (auto simp: group_handlers_def nth_Cons algebra_simps split: nat.split)

lemma group_handlers_same:
  "g_completion grp = g_completion (gs ! g) \<Longrightarrow> group_handlers (gs[g := grp]) = group_handlers gs"
  using group_handlers_update [of g gs grp] by (cases "g < length gs") (simp_all add: list_update_beyond)

lemma handlers_stop_one [simp]:
  "sum_mset (image_mset instr_handlers (image_mset Stop_one M)) = {#}"
  by (induction M) auto

lemma handlers_cancel_one [simp]:
  "sum_mset (image_mset instr_handlers (image_mset (\<lambda>j. Cancel_one g j type) M)) = {#}"
  by (induction M) auto

lemma group_one_handlers:
  "opt_mset (g_completion (fst (group_one ec grp))) +
     (case snd (snd (group_one ec grp)) of None \<Rightarrow> {#} | Some x \<Rightarrow> opt_mset (fst x)) =
   opt_mset (g_completion grp)"
  by (simp add: group_one_def Let_def)

lemma held_one:
  assumes "g < length (sv_groups s)"
  shows "server_held (mset (snd (exec_one g ec s)) + N) (fst (exec_one g ec s)) = server_held N s"
proof -
  obtain grp stop ready where one: "group_one ec (group_of s g) = (grp, stop, ready)"
    by (cases "group_one ec (group_of s g)")
  define R where "R = (case ready of None \<Rightarrow> {#} | Some x \<Rightarrow> opt_mset (fst x))"
  have R: "opt_mset (g_completion (group_of s g)) = opt_mset (g_completion grp) + R"
    using group_one_handlers [of ec "group_of s g"] by (simp add: one R_def)
  have "group_handlers ((sv_groups s)[g := grp]) + R + opt_mset (g_completion grp) =
      group_handlers (sv_groups s) + opt_mset (g_completion grp)"
    using group_handlers_update [OF assms, of grp] by (simp add: R ac_simps)
  then have "group_handlers ((sv_groups s)[g := grp]) + R = group_handlers (sv_groups s)"
    by (rule add_right_imp_eq)
  moreover have "sum_mset (image_mset instr_handlers (mset (snd (exec_one g ec s)))) = R"
    by (cases stop; cases ready) (auto simp: exec_one_def one R_def)
  ultimately show ?thesis
    by (simp add: server_held_def exec_one_def one flip: add.assoc)
qed

lemma handlers_exec:
  assumes "instr_ok (sv_groups s) ins"
  shows "server_held (mset (snd (exec ins e s)) + N) (fst (exec ins e s)) + completed_handlers (fst (exec ins e s)) =
    server_held (add_mset ins N) s + completed_handlers s"
proof (cases ins)
  case (One g ec)
  have "completed_handlers (fst (exec_one g ec s)) = completed_handlers s"
    by (simp add: completed_handlers_def exec_one_def split: prod.split)
  moreover have "server_held (add_mset (One g ec) N) s = server_held N s"
    by (simp add: server_held_def)
  ultimately show ?thesis using One held_one [of g s ec N] assms by simp
next
  case (Begin_start g)
  then show ?thesis
    using group_handlers_update [of g "sv_groups s" "fst (group_reject operation_aborted (group_of s g))"] assms
    by (auto simp: exec_begin_start_def group_reject_def complete_server_def server_held_def
        completed_handlers_def Let_def ac_simps)
next
  case (Begin_start_empty h)
  then show ?thesis
    by (auto simp: exec_begin_start_empty_def complete_server_def server_held_def completed_handlers_def Let_def)
next
  case (Finish f v h ec)
  then show ?thesis
    by (simp add: exec_finish_def complete_server_def server_held_def completed_handlers_def Let_def)
next
  case (Submit_loop g i w)
  then show ?thesis
    by (auto simp: exec_submit_def call_listener_def server_held_def completed_handlers_def
        group_initiation_failed_def group_handlers_same split: option.split)
next
  case (Cancel_set g type)
  then show ?thesis
    by (simp add: server_held_def completed_handlers_def group_cancel_def group_handlers_same)
qed (auto simp: exec_report_def call_listener_def server_held_def completed_handlers_def)

lemma held_frame [simp]:
  "server_held M (s\<lparr> sv_threads := ts \<rparr>) = server_held M s"
  "completed_handlers (s\<lparr> sv_threads := ts \<rparr>) = completed_handlers s"
  by (simp_all add: server_held_def completed_handlers_def)

lemma handlers_do:
  assumes inv: "server_inv s" and en: "server_enabled x s"
  shows "server_held (instrs (server_do x s)) (server_do x s) + completed_handlers (server_do x s) =
    server_held (instrs s) s + completed_handlers s + server_submitted x"
proof (cases x)
  case (Do_run j e)
  show ?thesis
  proof (cases "sv_threads s ! j")
    case Nil
    with Do_run show ?thesis by (simp add: run_thread_def)
  next
    case (Cons ins rest)
    moreover have "j < length (sv_threads s)" using en Do_run by simp
    ultimately obtain N where N: "instrs s = add_mset ins N"
      "instrs (run_thread j e s) = mset (snd (exec ins e s)) + N"
      using instrs_run_thread by blast
    have "instr_ok (sv_groups s) ins"
      using inv N(1) by (intro server_okD(1) [of "instrs s"]) (simp_all add: server_inv_def)
    note handlers_exec [OF this, of e N]
    moreover have "server_held M (run_thread j e s) = server_held M (fst (exec ins e s))"
      "completed_handlers (run_thread j e s) = completed_handlers (fst (exec ins e s))" for M
      using Cons by (simp_all add: run_thread_def split: prod.split)
    ultimately show ?thesis using Do_run N by simp
  qed
qed (auto simp: server_listen_def server_bind_def next_listener_id_def add_listener_def
    server_do_async_start_def server_do_async_wait_def server_request_stop_def start_thread_def
    group_prepare_def new_group_def group_handlers_def server_held_def completed_handlers_def Let_def
    split: sum.split)

interpretation server_ledger: exactly_once server_enabled server_do server_inv
    "\<lambda>s. server_held (instrs s) s" completed_handlers server_submitted
proof
  show "server_inv (server_do x s)" if "server_inv s" "server_enabled x s"
    for x :: "'h server_action" and s
    using that by (metis server.preserved server_stepI)
qed (rule handlers_do)

lemma group_handlers_none: "\<forall>grp \<in> set gs. g_completion grp = None \<Longrightarrow> group_handlers gs = {#}"
  by (induction gs) (simp_all add: group_handlers_def)

lemma quiescent_held:
  assumes inv: "server_inv s" and "concat (sv_threads s) = []" and "sv_children s = []"
  shows "server_held (instrs s) s = {#}"
proof -
  have "outstanding (instrs s) s g = 0" for g using assms by (auto simp: outstanding_def)
  then have "g_completion (group_of s g) = None" if "g < length (sv_groups s)" for g
    using inv that by (auto simp: server_inv_def server_ok_def group_ok_def split: if_splits)
  then have "\<forall>grp \<in> set (sv_groups s). g_completion grp = None" by (metis in_set_conv_nth)
  then have "group_handlers (sv_groups s) = {#}" by (rule group_handlers_none)
  with assms(2) show ?thesis by (auto simp: server_held_def)
qed

lemma server_run_balance:
  assumes "server_run script new_server = Some s"
  shows "completed_handlers s + server_held (instrs s) s = sum_list (map server_submitted script)" "server_inv s"
proof -
  have "server_inv (new_server :: 'a server)" by (rule server.base) (rule refl)
  then show "server_inv s"
    using server.holds_after server_run_steps [OF assms] by blast
  show "completed_handlers s + server_held (instrs s) s = sum_list (map server_submitted script)"
    by (rule server_ledger.run_from_empty [OF assms [unfolded server_run_def] \<open>server_inv new_server\<close>])
      (simp_all add: server_held_def completed_handlers_def new_server_def group_handlers_def)
qed

text \<open>
  C3: in every run of a server, under any interleaving of its threads, the handlers passed to
  \<open>async_start\<close> and \<open>async_wait\<close> are, counted with multiplicity, those completed and those
  still held by a group or a thread: none is lost or completed twice, and no empty handler is
  ever completed.  When all threads have returned and no listener has a child operation
  outstanding, every handler has completed.
\<close>

theorem server_handlers_exactly_once:
  assumes "server_run script new_server = Some s"
  shows "completed_handlers s + server_held (instrs s) s = sum_list (map server_submitted script)
    \<and> None \<notin> fst ` set (sv_completions s)
    \<and> (concat (sv_threads s) = [] \<and> sv_children s = [] \<longrightarrow>
        completed_handlers s = sum_list (map server_submitted script))"
proof -
  note balance = server_run_balance [OF assms]
  then have "None \<notin> fst ` set (sv_completions s)" by (simp add: server_inv_def server_ok_def)
  moreover have "server_held (instrs s) s = {#}" if "concat (sv_threads s) = []" "sv_children s = []"
    using balance(2) that by (rule quiescent_held)
  ultimately show ?thesis using balance(1) by auto
qed

subsection \<open>Examples\<close>

definition quiet_env :: server_env where
  "quiet_env =
     \<lparr> e_status = (\<lambda>i. \<lparr> ls_state = listener_running, ls_stop_reason = reason_none,
         ls_listener_id = of_nat (i + 1), ls_generation = 1, ls_active_sessions = 0,
         ls_endpoint = [], ls_last_error = no_error, ls_last_exception = None \<rparr>),
       e_throw = None, e_post = True \<rparr>"

definition two_listeners :: "nat server_action list" where
  "two_listeners =
     [Do_listen (default_listener_options False), Do_bind (default_listener_options False)]"

definition run_times :: "nat \<Rightarrow> nat \<Rightarrow> nat server_action list" where
  "run_times n j = replicate n (Do_run j quiet_env)"

text \<open>A start of two listeners that both succeed.\<close>

definition example_server_start :: "nat server_action list" where
  "example_server_start =
     two_listeners @ [Do_async_start 1 True] @ run_times 10 0 @
     [Do_complete_child (0, 1) no_error, Do_complete_child (0, 0) no_error] @
     run_times 1 1 @ run_times 2 2"

theorem server_handlers_exactly_once_witness:
  "\<exists>s. server_run example_server_start new_server = Some s \<and> completed_handlers s = {# 1 #}"
proof -
  have "server_run example_server_start new_server \<noteq> None" by code_simp
  then obtain s where run: "server_run example_server_start new_server = Some s" by blast
  have "concat (sv_threads (the (server_run example_server_start new_server))) = []"
    "sv_children (the (server_run example_server_start new_server)) = []"
    by code_simp+
  then have "completed_handlers s = sum_list (map server_submitted example_server_start)"
    using server_handlers_exactly_once [OF run] run by simp
  moreover have "sum_list (map server_submitted example_server_start) = {# 1 #}" by code_simp
  ultimately show ?thesis using run by auto
qed

text \<open>
  A start of two listeners in which the first fails before the second is submitted: the
  stop that the failure causes reaches the second listener before its start does.
\<close>

definition early_failure :: "nat server_action list" where
  "early_failure =
     two_listeners @ [Do_async_start 1 True] @ run_times 2 0 @
     [Do_complete_child (0, 0) io_error] @ run_times 3 1 @ run_times 8 0 @
     [Do_complete_child (0, 1) no_error] @ run_times 2 2"

text \<open>
  C34: the coordinated start can leave a listener running.  There is an interleaving of two
  threads in which one listener fails to start, the other is started after the stop it was
  sent, no stop follows, the start completes with the error and the server is stopping with
  nothing left to do.
\<close>

theorem failed_start_leaves_listener_started:
  "\<exists>s. server_run early_failure new_server = Some s
     \<and> sv_calls s = [Call_start 0 0, Call_stop 0, Call_stop 1, Call_start 0 1]
     \<and> sv_completions s = [(Some 1, io_error)]
     \<and> sc_state (sv_control s) = server_stopping
     \<and> concat (sv_threads s) = [] \<and> sv_children s = []"
proof -
  define s where "s = the (server_run early_failure new_server)"
  have "server_run early_failure new_server \<noteq> None" by code_simp
  then have "server_run early_failure new_server = Some s" by (auto simp: s_def)
  moreover have "sv_calls s = [Call_start 0 0, Call_stop 0, Call_stop 1, Call_start 0 1]"
    "sv_completions s = [(Some 1, io_error)]" "sc_state (sv_control s) = server_stopping"
    "concat (sv_threads s) = []" "sv_children s = []"
    unfolding s_def by code_simp+
  ultimately show ?thesis by blast
qed

text \<open>A running server whose \<open>async_wait\<close> is cancelled.\<close>

definition cancelled_wait :: "nat server_action list" where
  "cancelled_wait =
     example_server_start @ [Do_async_wait 2 True] @ run_times 8 3 @ [Do_cancel 1 1] @
     run_times 3 4 @
     [Do_complete_child (1, 0) operation_aborted, Do_complete_child (1, 1) operation_aborted] @
     run_times 1 5 @ run_times 2 6"

text \<open>
  C35: cancelling a wait marks the server as stopped.  In this run both listeners are started
  and never told to stop; the wait is cancelled and completes with \<open>operation_aborted\<close>, and
  the server is then in the state stopped, reports that it is not ready and has announced
  that it stopped.
\<close>

theorem cancelled_wait_stops_server:
  "\<exists>s. server_run cancelled_wait new_server = Some s
     \<and> filter (\<lambda>c. \<exists>l. c = Call_stop l) (sv_calls s) = []
     \<and> sv_completions s = [(Some 1, no_error), (Some 2, operation_aborted)]
     \<and> map se_type (sc_posted (sv_control s)) = [event_starting, event_running, event_stopped]
     \<and> \<not> ss_ready (control_status (map (e_status quiet_env) (snapshot s)) (sv_control s))"
proof -
  define s where "s = the (server_run cancelled_wait new_server)"
  have "server_run cancelled_wait new_server \<noteq> None" by code_simp
  then have "server_run cancelled_wait new_server = Some s" by (auto simp: s_def)
  moreover have "sv_calls s = [Call_start 0 0, Call_start 0 1, Call_wait 1 0, Call_wait 1 1,
      Call_cancel 1 0 1, Call_cancel 1 1 1]"
    "sv_completions s = [(Some 1, no_error), (Some 2, operation_aborted)]"
    "map se_type (sc_posted (sv_control s)) = [event_starting, event_running, event_stopped]"
    "\<not> ss_ready (control_status (map (e_status quiet_env) (snapshot s)) (sv_control s))"
    unfolding s_def by code_simp+
  ultimately show ?thesis by auto
qed

end
