(* ===== verification/Serveza_Socket_Listener.thy ===== *)
theory Serveza_Socket_Listener
  imports Serveza_Acceptor
begin

text \<open>
  The bound listener: \<open>basic_socket_listener\<close> of
  \<^verbatim>\<open>src/include/serveza/detail/basic_socket_listener.h\<close>, which runs one session over one bound
  socket in each generation.  It has the members and helpers of \<open>Serveza_Listener\<close>; its
  sessions have the members and operations of \<open>Serveza_Connection\<close>, with no connection
  identifier.  The environment answers with the record \<open>asio\<close> of the accepting listener.

  Two calls into Asio are not guarded here: the post that starts the session and the wait on
  the shutdown timer.  If one throws, the exception leaves the handler, which \<open>escaped\<close>
  counts, and the rest of the handler does not run.
\<close>

datatype 'h socket_task =
    Sock_start_task nat 'h              \<comment> \<open>posted by \<open>do_async_start\<close>\<close>
  | Sock_wait_task u64 nat 'h           \<comment> \<open>posted by \<open>do_async_wait\<close>\<close>
  | Sock_cancel_wait_task u64           \<comment> \<open>posted by the cancellation callback of a wait\<close>
  | Sock_stop_task                      \<comment> \<open>posted by \<open>request_stop\<close>\<close>
  | Sock_shutdown_handler bool int      \<comment> \<open>waits on the shutdown timer: cancelled?, its delay\<close>
  | Sock_finished_task error_code exception_ptr
  | Sess_start nat                      \<comment> \<open>\<open>session->start()\<close>\<close>
  | Sess_cancel nat                     \<comment> \<open>posted by \<open>session->request_stop()\<close>\<close>
  | Sess_force nat                      \<comment> \<open>posted by \<open>session->force_close()\<close>\<close>
  | Sess_handler nat                    \<comment> \<open>the completion handler the session holds\<close>

record 'h socket_listener = "('h, 'h socket_task) listener_base" +
  m_session :: "nat option"
  sess :: "connection list"
  escaped :: nat

definition fresh_socket_listener ::
    "u64 \<Rightarrow> bool \<Rightarrow> endpoint \<Rightarrow> listener_options \<Rightarrow> 'h socket_listener" where
  "fresh_socket_listener ident observers endpoint options =
     \<lparr> m_id = ident, m_observers = observers, m_configured_endpoint = endpoint,
       m_options = options, m_endpoint = endpoint_string endpoint,
       m_stop_reason = reason_none, m_last_error = no_error, m_last_exception = None,
       m_state = listener_idle, m_generation = 0, m_active_sessions = 0,
       m_next_waiter_id = 0, m_terminal_error = no_error, m_waiters = [],
       flags = [], slots = [], pending = [], completions = [], events = [],
       m_session = None, sess = [], escaped = 0 \<rparr>"

definition new_socket_listener ::
    "u64 \<Rightarrow> bool \<Rightarrow> endpoint \<Rightarrow> listener_options \<Rightarrow> argument_error + 'h socket_listener" where
  "new_socket_listener ident observers endpoint options =
     (case validate_socket_options options of
        Inl e \<Rightarrow> Inl e
      | Inr _ \<Rightarrow> Inr (fresh_socket_listener ident observers endpoint options))"

fun cancel_sock_wait :: "'h socket_task \<Rightarrow> 'h socket_task" where
  "cancel_sock_wait (Sock_shutdown_handler c d) = Sock_shutdown_handler True d"
| "cancel_sock_wait t = t"

definition cancel_sock_timer :: "'h socket_listener \<Rightarrow> 'h socket_listener" where
  "cancel_sock_timer l = l\<lparr> pending := map cancel_sock_wait (pending l) \<rparr>"

subsection \<open>The session\<close>

definition sess_notify ::
    "nat \<Rightarrow> connection \<times> (connection_info \<times> error_code \<times> exception_ptr) option \<Rightarrow>
     asio \<Rightarrow> 'h socket_listener \<Rightarrow> 'h socket_listener" where
  "sess_notify a result r l =
     l\<lparr> sess := (sess l)[a := fst result],
        pending := pending l @
          (case snd result of
             Some (info, ec, ep) \<Rightarrow>
               if r_notify_owner r a then [Sock_finished_task ec ep] else []
           | None \<Rightarrow> []) \<rparr>"

definition sess_finish ::
    "nat \<Rightarrow> error_code \<Rightarrow> exception_ptr \<Rightarrow> asio \<Rightarrow> 'h socket_listener \<Rightarrow> 'h socket_listener" where
  "sess_finish a ec ep r l = sess_notify a (connection_finish ec ep (sess l ! a)) r l"

definition sess_force_close :: "asio \<Rightarrow> nat \<Rightarrow> 'h socket_listener \<Rightarrow> 'h socket_listener" where
  "sess_force_close r a l =
     (if r_force_post r a then sess_finish a operation_aborted None r l
      else post (Sess_force a) l)"

definition sess_request_stop :: "asio \<Rightarrow> nat \<Rightarrow> 'h socket_listener \<Rightarrow> 'h socket_listener" where
  "sess_request_stop r a l =
     (if r_stop_post r a then sess_force_close r a l else post (Sess_cancel a) l)"

definition sess_start :: "nat \<Rightarrow> asio \<Rightarrow> 'h socket_listener \<Rightarrow> 'h socket_listener" where
  "sess_start a r l =
     (let l1 = post (Sess_handler a) l
      in case r_async_run r of
           None \<Rightarrow> l1
         | Some e \<Rightarrow> sess_finish a (exception_to_error (Some e)) (Some e) r l1)"

subsection \<open>Stopping\<close>

definition socket_finish ::
    "error_code \<Rightarrow> listener_stop_reason \<Rightarrow> 'h socket_listener \<Rightarrow> 'h socket_listener" where
  "socket_finish ec reason l =
     (if m_state l = listener_stopped then l
      else let l = l\<lparr> m_terminal_error := ec \<rparr>;
               l = set_stop_reason reason l;
               l = keep_first_error ec l;
               l = cancel_sock_timer l;
               l = transition_to listener_stopped l
           in release_waiters l)"

definition socket_maybe_finish :: "'h socket_listener \<Rightarrow> 'h socket_listener" where
  "socket_maybe_finish l =
     (if m_state l = listener_stopping \<and> m_session l = None
      then socket_finish (m_terminal_error l) (m_stop_reason l) l else l)"

text \<open>
  The part of \<open>stop_on_strand\<close> for a session: request its stop and arm the timer.  When
  arming throws, the call of \<open>maybe_finish\<close> that follows is skipped.
\<close>

definition socket_stop_session :: "asio \<Rightarrow> nat \<Rightarrow> 'h socket_listener \<Rightarrow> 'h socket_listener" where
  "socket_stop_session r a l =
     (let l = sess_request_stop r a l
      in case r_shutdown_timer r of
           None \<Rightarrow>
             socket_maybe_finish
               (post (Sock_shutdown_handler False (shutdown_grace_period (m_options l)))
                  (cancel_sock_timer l))
         | Some _ \<Rightarrow> l\<lparr> escaped := escaped l + 1 \<rparr>)"

definition socket_stop_on_strand :: "asio \<Rightarrow> 'h socket_listener \<Rightarrow> 'h socket_listener" where
  "socket_stop_on_strand r l =
     (if m_state l = listener_idle
      then let l = set_stop_reason requested l;
               l = transition_to listener_stopping l
           in socket_finish no_error requested l
      else if m_state l \<noteq> listener_starting \<and> m_state l \<noteq> listener_running then l
      else let l = set_stop_reason requested l;
               l = transition_to listener_stopping l
           in case m_session l of
                None \<Rightarrow> socket_maybe_finish l
              | Some a \<Rightarrow> socket_stop_session r a l)"

definition socket_shutdown_expired :: "error_code \<Rightarrow> asio \<Rightarrow> 'h socket_listener \<Rightarrow> 'h socket_listener" where
  "socket_shutdown_expired ec r l =
     (if failed ec then l
      else let l = record_diagnostic timed_out None l;
               l = emit shutdown_forced no_connection timed_out None l
           in case m_session l of None \<Rightarrow> l | Some a \<Rightarrow> sess_force_close r a l)"

definition socket_report_finished ::
    "error_code \<Rightarrow> exception_ptr \<Rightarrow> 'h socket_listener \<Rightarrow> 'h socket_listener" where
  "socket_report_finished ec ep l =
     emit session_stopped no_connection ec ep
       (if ec \<noteq> operation_aborted \<and> (failed ec \<or> ep \<noteq> None)
        then record_diagnostic ec ep l else l)"

definition socket_session_finished ::
    "error_code \<Rightarrow> exception_ptr \<Rightarrow> 'h socket_listener \<Rightarrow> 'h socket_listener" where
  "socket_session_finished ec ep l =
     (let l = socket_report_finished ec ep (l\<lparr> m_session := None, m_active_sessions := 0 \<rparr>)
      in if m_state l = listener_running
         then socket_finish ec (if failed ec then runtime_failure else completed)
                (transition_to listener_stopping l)
         else socket_maybe_finish l)"

subsection \<open>Starting\<close>

definition socket_configure :: "endpoint \<Rightarrow> asio \<Rightarrow> error_code" where
  "socket_configure configured r =
     (let ec = r_open r;
          ec = (if has_ip_endpoint configured
                then let ec = (if \<not> failed ec \<and> ip_is_v6 configured then r_set_v6_only r else ec)
                     in if \<not> failed ec then r_set_reuse_address r else ec
                else ec)
      in if \<not> failed ec then r_bind r else ec)"

definition socket_enter_starting :: "'h socket_listener \<Rightarrow> 'h socket_listener" where
  "socket_enter_starting l =
     (let l = l\<lparr> m_generation := m_generation l + 1 \<rparr>;
          l = l\<lparr> m_terminal_error := no_error \<rparr>;
          l = clear_diagnostics l
      in transition_to listener_starting l)"

definition bound_endpoint :: "asio \<Rightarrow> 'h socket_listener \<Rightarrow> string" where
  "bound_endpoint r l =
     (if failed (fst (r_local_endpoint r)) then endpoint_string (m_configured_endpoint l)
      else endpoint_string (snd (r_local_endpoint r)))"

definition socket_factory_failed ::
    "'h \<Rightarrow> exn \<Rightarrow> 'h socket_listener \<Rightarrow> 'h socket_listener" where
  "socket_factory_failed handler e l =
     (let factory_ec = exception_to_error (Some e);
          l = record_diagnostic factory_ec (Some e) l;
          l = emit session_factory_failed no_connection factory_ec (Some e) l;
          l = complete handler factory_ec l
      in socket_finish factory_ec startup_failure l)"

definition socket_run_session :: "'h \<Rightarrow> asio \<Rightarrow> 'h socket_listener \<Rightarrow> 'h socket_listener" where
  "socket_run_session handler r l =
     (let a = length (sess l);
          info = \<lparr> ci_id = 0, ci_local_endpoint = m_endpoint l, ci_remote_endpoint = [] \<rparr>;
          l = l\<lparr> sess := sess l @ [new_connection (m_id l) info], m_session := Some a \<rparr>;
          l = l\<lparr> m_active_sessions := 1 \<rparr>;
          l = transition_to listener_running l;
          l = emit session_started no_connection no_error None l;
          l = complete handler no_error l
      in if r_start_post r then l\<lparr> escaped := escaped l + 1 \<rparr> else post (Sess_start a) l)"

definition socket_start_on_strand :: "'h \<Rightarrow> asio \<Rightarrow> 'h socket_listener \<Rightarrow> 'h socket_listener" where
  "socket_start_on_strand handler r l =
     (if m_state l = listener_running then complete handler no_error l
      else if m_state l \<noteq> listener_idle \<and> m_state l \<noteq> listener_stopped
      then complete handler operation_aborted l
      else let l = socket_enter_starting l;
               ec = socket_configure (m_configured_endpoint l) r
           in if failed ec
              then socket_finish ec startup_failure (complete handler ec l)
              else let l = l\<lparr> m_endpoint := bound_endpoint r l \<rparr>
                   in case r_factory r of
                        Some e \<Rightarrow> socket_factory_failed handler e l
                      | None \<Rightarrow> socket_run_session handler r l)"

subsection \<open>Initiating functions and cancellation\<close>

definition socket_do_async_start ::
    "'h \<Rightarrow> bool \<Rightarrow> asio \<Rightarrow> 'h socket_listener \<Rightarrow> 'h socket_listener" where
  "socket_do_async_start handler connected r l =
     (let cancelled = length (flags l);
          l = l\<lparr> flags := flags l @ [False] \<rparr>;
          l = (if connected then l\<lparr> slots := slots l @ [(cancelled, None)] \<rparr> else l)
      in case r_post r of
           None \<Rightarrow> post (Sock_start_task cancelled handler) l
         | Some e \<Rightarrow> complete handler (exception_to_error (Some e)) l)"

definition socket_start_task :: "nat \<Rightarrow> 'h \<Rightarrow> asio \<Rightarrow> 'h socket_listener \<Rightarrow> 'h socket_listener" where
  "socket_start_task cancelled handler r l =
     (let l = clear_slot cancelled l
      in if flags l ! cancelled then complete handler operation_aborted l
         else socket_start_on_strand handler r l)"

definition socket_do_async_wait ::
    "'h \<Rightarrow> bool \<Rightarrow> asio \<Rightarrow> 'h socket_listener \<Rightarrow> 'h socket_listener" where
  "socket_do_async_wait handler connected r l =
     (let ident = m_next_waiter_id l + 1;
          l = l\<lparr> m_next_waiter_id := ident \<rparr>;
          cancelled = length (flags l);
          l = l\<lparr> flags := flags l @ [False] \<rparr>;
          l = (if connected then l\<lparr> slots := slots l @ [(cancelled, Some ident)] \<rparr> else l)
      in case r_post r of
           None \<Rightarrow> post (Sock_wait_task ident cancelled handler) l
         | Some e \<Rightarrow> complete handler (exception_to_error (Some e)) (clear_slot cancelled l))"

definition socket_wait_task :: "u64 \<Rightarrow> nat \<Rightarrow> 'h \<Rightarrow> 'h socket_listener \<Rightarrow> 'h socket_listener" where
  "socket_wait_task ident cancelled handler l =
     (if flags l ! cancelled
      then complete handler operation_aborted (clear_slot cancelled l)
      else if m_state l = listener_stopped
      then complete handler (m_terminal_error l) (clear_slot cancelled l)
      else l\<lparr> m_waiters := m_waiters l @
                [\<lparr> w_id = ident, w_cancelled = cancelled, w_handler = handler \<rparr>] \<rparr>)"

definition socket_emit_cancellation ::
    "nat \<times> u64 option \<Rightarrow> asio \<Rightarrow> 'h socket_listener \<Rightarrow> 'h socket_listener" where
  "socket_emit_cancellation slot r l =
     (let l = l\<lparr> flags := (flags l)[fst slot := True] \<rparr>
      in case snd slot of
           None \<Rightarrow> l
         | Some ident \<Rightarrow>
             (case r_post r of None \<Rightarrow> post (Sock_cancel_wait_task ident) l | Some _ \<Rightarrow> l))"

definition socket_request_stop :: "asio \<Rightarrow> 'h socket_listener \<Rightarrow> 'h socket_listener" where
  "socket_request_stop r l =
     (if m_state l = listener_stopped then l
      else case r_post r of None \<Rightarrow> post Sock_stop_task l | Some _ \<Rightarrow> l)"

subsection \<open>Runs\<close>

fun run_socket_task :: "'h socket_task \<Rightarrow> asio \<Rightarrow> 'h socket_listener \<Rightarrow> 'h socket_listener" where
  "run_socket_task (Sock_start_task cancelled handler) r l = socket_start_task cancelled handler r l"
| "run_socket_task (Sock_wait_task ident cancelled handler) r l =
     socket_wait_task ident cancelled handler l"
| "run_socket_task (Sock_cancel_wait_task ident) r l = cancel_wait ident l"
| "run_socket_task Sock_stop_task r l = socket_stop_on_strand r l"
| "run_socket_task (Sock_shutdown_handler c d) r l = socket_shutdown_expired (r_ec r) r l"
| "run_socket_task (Sock_finished_task ec ep) r l = socket_session_finished ec ep l"
| "run_socket_task (Sess_start a) r l = sess_start a r l"
| "run_socket_task (Sess_cancel a) r l = l\<lparr> sess := (sess l)[a := connection_cancel (sess l ! a)] \<rparr>"
| "run_socket_task (Sess_force a) r l = sess_finish a operation_aborted None r l"
| "run_socket_task (Sess_handler a) r l = sess_notify a (connection_complete (r_ec r) (sess l ! a)) r l"

datatype 'h socket_action =
    Sock_call_start 'h bool
  | Sock_call_wait 'h bool
  | Sock_call_stop
  | Sock_emit "nat \<times> u64 option"
  | Sock_report nat exception_ptr
  | Sock_run "'h socket_task"

fun socket_enabled :: "'h socket_action \<times> asio \<Rightarrow> 'h socket_listener \<Rightarrow> bool" where
  "socket_enabled (Sock_emit slot, r) l = (slot \<in> set (slots l))"
| "socket_enabled (Sock_report a ep, r) l = (a < length (sess l))"
| "socket_enabled (Sock_run t, r) l =
     (t \<in> set (pending l) \<and>
      (case t of Sock_shutdown_handler c d \<Rightarrow> timer_delivers c (r_ec r) | _ \<Rightarrow> True))"
| "socket_enabled _ l = True"

fun socket_do :: "'h socket_action \<times> asio \<Rightarrow> 'h socket_listener \<Rightarrow> 'h socket_listener" where
  "socket_do (Sock_call_start handler connected, r) l = socket_do_async_start handler connected r l"
| "socket_do (Sock_call_wait handler connected, r) l = socket_do_async_wait handler connected r l"
| "socket_do (Sock_call_stop, r) l = socket_request_stop r l"
| "socket_do (Sock_emit slot, r) l = socket_emit_cancellation slot r l"
| "socket_do (Sock_report a ep, r) l =
     l\<lparr> sess := (sess l)[a := context_report_exception ep (sess l ! a)] \<rparr>"
| "socket_do (Sock_run t, r) l = run_socket_task t r (l\<lparr> pending := remove1 t (pending l) \<rparr>)"

inductive socket_step :: "'h socket_listener \<Rightarrow> 'h socket_listener \<Rightarrow> bool" where
  socket_stepI: "socket_enabled xr l \<Longrightarrow> socket_step l (socket_do xr l)"

inductive_cases socket_stepE: "socket_step l l'"

definition socket_init :: "'h socket_listener \<Rightarrow> bool" where
  "socket_init l \<longleftrightarrow>
     (\<exists>ident observers endpoint options. new_socket_listener ident observers endpoint options = Inr l)"

definition socket_run ::
    "('h socket_action \<times> asio) list \<Rightarrow> 'h socket_listener \<Rightarrow> 'h socket_listener option" where
  "socket_run = run_script socket_enabled socket_do"

lemma socket_initE:
  assumes "socket_init l"
  obtains ident observers endpoint options where
    "l = fresh_socket_listener ident observers endpoint options"
proof -
  obtain i ob e opts where "new_socket_listener i ob e opts = Inr l"
    using assms by (auto simp: socket_init_def)
  then show thesis
    by (cases "validate_socket_options opts") (auto simp: new_socket_listener_def intro: that)
qed

lemma socket_run_reachable:
  assumes "new_socket_listener ident observers endpoint options = Inr l"
    and "socket_run script l = Some l'"
  shows "reachable socket_init socket_step l'"
proof (rule reachable_rtranclp [OF reach_init])
  show "socket_init l" using assms(1) by (auto simp: socket_init_def)
  show "socket_step\<^sup>*\<^sup>* l l'"
    using assms(2) unfolding socket_run_def by (rule run_script_steps [rotated]) (rule socket_stepI)
qed

end
