(* ===== verification/Serveza_Socket_Inv.thy ===== *)
theory Serveza_Socket_Inv
  imports Serveza_Socket_Listener
begin

text \<open>
  Invariants of the bound listener: its lifecycle, the ledger of its completion handlers, and
  its session, which is lost neither while it runs nor when it ends.
\<close>

lemma cancel_sock_wait_cases [simp]:
  "cancel_sock_wait t = Sock_start_task c h \<longleftrightarrow> t = Sock_start_task c h"
  "cancel_sock_wait t = Sock_finished_task ec ep \<longleftrightarrow> t = Sock_finished_task ec ep"
  "cancel_sock_wait t = Sess_force a \<longleftrightarrow> t = Sess_force a"
  "cancel_sock_wait t = Sess_start a \<longleftrightarrow> t = Sess_start a"
  "cancel_sock_wait t = Sess_handler a \<longleftrightarrow> t = Sess_handler a"
  by (cases t; simp)+

subsection \<open>Lifecycle\<close>

definition socket_inv :: "'h socket_listener \<Rightarrow> bool" where
  "socket_inv l \<longleftrightarrow>
     m_active_sessions l = (if m_session l = None then 0 else 1) \<and>
     (case m_state l of
        listener_idle \<Rightarrow> m_session l = None
      | listener_starting \<Rightarrow> False
      | listener_running \<Rightarrow> m_session l \<noteq> None
      | listener_stopping \<Rightarrow> m_session l \<noteq> None
      | listener_stopped \<Rightarrow> m_session l = None \<and> m_waiters l = [])"

abbreviation sess_frame :: "'h socket_listener \<Rightarrow> 'h socket_listener \<Rightarrow> bool" where
  "sess_frame l l' \<equiv> m_active_sessions l' = m_active_sessions l \<and> m_session l' = m_session l \<and>
     m_state l' = m_state l \<and> m_waiters l' = m_waiters l"

lemma sess_frames [simp]:
  "sess_frame l (sess_notify a res r l)"
  "sess_frame l (sess_finish a ec ep r l)"
  "sess_frame l (sess_force_close r a l)"
  "sess_frame l (sess_request_stop r a l)"
  "sess_frame l (sess_start a r l)"
  by (auto simp: sess_notify_def sess_finish_def sess_force_close_def sess_request_stop_def
      sess_start_def post_def Let_def split: option.split)

lemma socket_inv_frame: "socket_inv l \<Longrightarrow> sess_frame l l' \<Longrightarrow> socket_inv l'"
  by (auto simp: socket_inv_def split: listener_state.splits)

lemma socket_finish_fields:
  assumes "m_state l \<noteq> listener_stopped"
  shows "m_state (socket_finish ec reason l) = listener_stopped"
    "m_session (socket_finish ec reason l) = m_session l"
    "m_active_sessions (socket_finish ec reason l) = m_active_sessions l"
    "m_waiters (socket_finish ec reason l) = []"
    "sess (socket_finish ec reason l) = sess l"
    "pending (socket_finish ec reason l) = map cancel_sock_wait (pending l)"
  using assms
  by (simp_all add: socket_finish_def Let_def listener_helpers cancel_sock_timer_def release_waiters_closed)

lemma socket_inv_finish:
  "m_state l \<noteq> listener_stopped \<Longrightarrow> m_session l = None \<Longrightarrow> m_active_sessions l = 0 \<Longrightarrow>
     socket_inv (socket_finish ec reason l)"
  by (simp add: socket_inv_def socket_finish_fields)

lemma socket_inv_maybe_finish:
  "socket_inv l \<or> m_state l = listener_stopping \<and> m_session l = None \<and> m_active_sessions l = 0 \<Longrightarrow>
     socket_inv (socket_maybe_finish l)"
  by (auto simp: socket_maybe_finish_def socket_inv_finish) (auto simp: socket_inv_def)

lemma socket_helper_fields [simp]:
  "m_session (emit type info ec ep l) = m_session l"
  "m_session (record_diagnostic ec ep l) = m_session l"
  "m_session (transition_to st l) = m_session l"
  "m_session (set_stop_reason reason l) = m_session l"
  "m_session (complete h ec l) = m_session l"
  "m_session (clear_slot c l) = m_session l"
  "m_session (post t l) = m_session l"
  "m_session (cancel_sock_timer l) = m_session l"
  "m_session (socket_enter_starting l) = m_session l"
  "sess (socket_enter_starting l) = sess l"
  "pending (socket_enter_starting l) = pending l"
  by (simp_all add: listener_helpers cancel_sock_timer_def socket_enter_starting_def Let_def)

lemma listener_helper_fields [simp]:
  "m_state (emit type info ec ep l) = m_state l"
  "m_state (record_diagnostic ec ep l) = m_state l"
  "m_state (transition_to st l) = st"
  "m_state (set_stop_reason reason l) = m_state l"
  "m_state (complete h ec l) = m_state l"
  "m_state (clear_slot c l) = m_state l"
  "m_state (post t l) = m_state l"
  "m_active_sessions (emit type info ec ep l) = m_active_sessions l"
  "m_active_sessions (record_diagnostic ec ep l) = m_active_sessions l"
  "m_active_sessions (transition_to st l) = m_active_sessions l"
  "m_active_sessions (set_stop_reason reason l) = m_active_sessions l"
  "m_active_sessions (complete h ec l) = m_active_sessions l"
  "m_active_sessions (clear_slot c l) = m_active_sessions l"
  "m_active_sessions (post t l) = m_active_sessions l"
  "m_waiters (emit type info ec ep l) = m_waiters l"
  "m_waiters (record_diagnostic ec ep l) = m_waiters l"
  "m_waiters (transition_to st l) = m_waiters l"
  "m_waiters (set_stop_reason reason l) = m_waiters l"
  "m_waiters (complete h ec l) = m_waiters l"
  "m_waiters (clear_slot c l) = m_waiters l"
  "m_waiters (post t l) = m_waiters l"
  by (simp_all add: listener_helpers)

lemma sock_timer_fields [simp]:
  "m_state (cancel_sock_timer l) = m_state l"
  "m_active_sessions (cancel_sock_timer l) = m_active_sessions l"
  "m_waiters (cancel_sock_timer l) = m_waiters l"
  "m_state (socket_enter_starting l) = listener_starting"
  "m_active_sessions (socket_enter_starting l) = m_active_sessions l"
  by (simp_all add: cancel_sock_timer_def socket_enter_starting_def clear_diagnostics_def Let_def)

lemma socket_inv_stop_on_strand: "socket_inv l \<Longrightarrow> socket_inv (socket_stop_on_strand r l)"
  by (cases "m_state l"; cases "m_session l")
    (auto simp: socket_stop_on_strand_def socket_stop_session_def Let_def socket_finish_fields
      socket_maybe_finish_def socket_inv_def split: option.split)

lemma socket_inv_shutdown_expired: "socket_inv l \<Longrightarrow> socket_inv (socket_shutdown_expired ec r l)"
  by (auto simp: socket_shutdown_expired_def Let_def elim!: socket_inv_frame split: option.split)

lemma socket_inv_session_finished: "socket_inv l \<Longrightarrow> socket_inv (socket_session_finished ec ep l)"
  by (cases "m_state l")
    (auto simp: socket_session_finished_def socket_report_finished_def Let_def socket_finish_fields
      socket_maybe_finish_def socket_inv_def)

lemma socket_inv_frames [simp]:
  "socket_inv (complete h ec l) = socket_inv l"
  "socket_inv (clear_slot c l) = socket_inv l"
  "socket_inv (post t l) = socket_inv l"
  "socket_inv (l\<lparr> pending := ts \<rparr>) = socket_inv l"
  "socket_inv (l\<lparr> flags := fs \<rparr>) = socket_inv l"
  "socket_inv (l\<lparr> slots := ss \<rparr>) = socket_inv l"
  "socket_inv (l\<lparr> sess := cs \<rparr>) = socket_inv l"
  "socket_inv (l\<lparr> m_next_waiter_id := i \<rparr>) = socket_inv l"
  by (simp_all add: socket_inv_def complete_def clear_slot_def post_def cong: listener_state.case_cong)

lemma socket_inv_start_on_strand: "socket_inv l \<Longrightarrow> socket_inv (socket_start_on_strand h r l)"
proof -
  assume inv: "socket_inv l"
  show ?thesis
  proof (cases "m_state l = listener_idle \<or> m_state l = listener_stopped")
    case False
    with inv show ?thesis by (auto simp: socket_start_on_strand_def)
  next
    case True
    with inv have "m_session l = None" "m_active_sessions l = 0" by (auto simp: socket_inv_def)
    then have "socket_inv (socket_run_session h r (l1\<lparr> m_endpoint := e \<rparr>))"
      "socket_inv (socket_factory_failed h ex (l1\<lparr> m_endpoint := e \<rparr>))"
      "socket_inv (socket_finish ec startup_failure (complete h ec l1))"
      if "l1 = socket_enter_starting l" for l1 e ex ec
      using that
      by (auto simp: socket_factory_failed_def Let_def intro!: socket_inv_finish)
        (auto simp: socket_run_session_def Let_def socket_inv_def)
    with True show ?thesis
      by (auto simp: socket_start_on_strand_def Let_def split: option.split)
  qed
qed

lemma socket_inv_waiters:
  "socket_inv l \<Longrightarrow> m_state l \<noteq> listener_stopped \<Longrightarrow> socket_inv (l\<lparr> m_waiters := ws \<rparr>)"
  by (auto simp: socket_inv_def split: listener_state.splits)

lemma socket_inv_cancel_wait: "socket_inv l \<Longrightarrow> socket_inv (cancel_wait i l)"
proof (cases "m_state l = listener_stopped")
  case True
  assume "socket_inv l"
  with True have "m_waiters l = []" by (simp add: socket_inv_def)
  with \<open>socket_inv l\<close> show ?thesis by (simp add: cancel_wait_def)
next
  case False
  assume "socket_inv l"
  with False show ?thesis
    by (simp add: cancel_wait_def socket_inv_waiters split: option.split)
qed

lemma socket_inv_run_task: "socket_inv l \<Longrightarrow> socket_inv (run_socket_task t r l)"
  by (cases t)
    (auto simp: socket_start_task_def Let_def socket_inv_start_on_strand socket_wait_task_def
      socket_inv_waiters socket_inv_cancel_wait socket_inv_stop_on_strand socket_inv_shutdown_expired
      socket_inv_session_finished elim!: socket_inv_frame)

interpretation socket: inductive_invariant socket_init socket_step socket_inv
proof
  fix l l' :: "'h socket_listener"
  show "socket_init l \<Longrightarrow> socket_inv l"
    by (erule socket_initE) (simp add: fresh_socket_listener_def socket_inv_def)
  assume inv: "socket_inv l" and "socket_step l l'"
  from this(2) obtain x r where x: "socket_enabled (x, r) l" "l' = socket_do (x, r) l"
    by (metis socket_stepE surj_pair)
  then show "socket_inv l'"
    using inv
    by (cases x)
      (auto simp: socket_do_async_start_def socket_do_async_wait_def socket_request_stop_def
        socket_emit_cancellation_def Let_def socket_inv_run_task split: option.split)
qed

text \<open>Example runs: a bound listener that is started and stopped.\<close>

definition example_socket_start :: "(nat socket_action \<times> asio) list" where
  "example_socket_start =
     [(Sock_call_start 1 True, all_succeed), (Sock_run (Sock_start_task 0 1), all_succeed),
      (Sock_call_wait 2 True, all_succeed), (Sock_run (Sock_wait_task 1 1 2), all_succeed)]"

definition example_socket_stop :: "(nat socket_action \<times> asio) list" where
  "example_socket_stop =
     [(Sock_run (Sess_start 0), all_succeed), (Sock_call_stop, all_succeed),
      (Sock_run Sock_stop_task, all_succeed), (Sock_run (Sess_cancel 0), all_succeed),
      (Sock_run (Sess_handler 0), all_succeed\<lparr> r_ec := operation_aborted \<rparr>),
      (Sock_run (Sock_finished_task operation_aborted None), all_succeed)]"

definition example_socket :: "(nat socket_action \<times> asio) list \<Rightarrow> nat socket_listener" where
  "example_socket script =
     the (socket_run script
       (fresh_socket_listener 3 True (path_endpoint ''/run/d'') (default_listener_options False)))"

lemma example_socket_new:
  "new_socket_listener 3 True (path_endpoint ''/run/d'') (default_listener_options False) =
     Inr (fresh_socket_listener 3 True (path_endpoint ''/run/d'') (default_listener_options False)
       :: nat socket_listener)"
proof -
  have "validate_socket_options (default_listener_options False) = Inr ()" by code_simp
  then show ?thesis by (simp add: new_socket_listener_def)
qed

lemma example_socket_runs:
  "socket_run example_socket_start
     (fresh_socket_listener 3 True (path_endpoint ''/run/d'') (default_listener_options False)) =
     Some (example_socket example_socket_start)"
  "socket_run (example_socket_start @ example_socket_stop)
     (fresh_socket_listener 3 True (path_endpoint ''/run/d'') (default_listener_options False)) =
     Some (example_socket (example_socket_start @ example_socket_stop))"
proof -
  have "socket_run example_socket_start
      (fresh_socket_listener 3 True (path_endpoint ''/run/d'') (default_listener_options False)) \<noteq> None"
    "socket_run (example_socket_start @ example_socket_stop)
      (fresh_socket_listener 3 True (path_endpoint ''/run/d'') (default_listener_options False)) \<noteq> None"
    by code_simp+
  then show "socket_run example_socket_start
      (fresh_socket_listener 3 True (path_endpoint ''/run/d'') (default_listener_options False)) =
      Some (example_socket example_socket_start)"
    "socket_run (example_socket_start @ example_socket_stop)
      (fresh_socket_listener 3 True (path_endpoint ''/run/d'') (default_listener_options False)) =
      Some (example_socket (example_socket_start @ example_socket_stop))"
    by (auto simp: example_socket_def)
qed

text \<open>
  C20: in every reachable state a bound listener has a session exactly while it is running or
  stopping, it is never found in the state starting, its published count of active sessions
  is one with a session and zero without, and a stopped listener has no waiter left.
\<close>

theorem socket_lifecycle:
  assumes "reachable socket_init socket_step l"
  shows "(m_session l \<noteq> None \<longleftrightarrow> m_state l = listener_running \<or> m_state l = listener_stopping)
    \<and> m_state l \<noteq> listener_starting
    \<and> ls_active_sessions (status_of l) = (if m_session l = None then 0 else 1)
    \<and> (m_state l = listener_stopped \<longrightarrow> m_waiters l = [])"
  using socket.holds [OF assms]
  by (auto simp: socket_inv_def status_of_def split: listener_state.splits)

theorem socket_lifecycle_witness:
  "m_session (example_socket example_socket_start) \<noteq> None \<longleftrightarrow>
     m_state (example_socket example_socket_start) = listener_running \<or>
     m_state (example_socket example_socket_start) = listener_stopping"
  using socket_lifecycle [OF socket_run_reachable [OF example_socket_new example_socket_runs(1)]]
  by blast

subsection \<open>Handlers\<close>

fun socket_task_handlers :: "'h socket_task \<Rightarrow> 'h list" where
  "socket_task_handlers (Sock_start_task c h) = [h]"
| "socket_task_handlers (Sock_wait_task i c h) = [h]"
| "socket_task_handlers _ = []"

definition socket_held :: "'h socket_listener \<Rightarrow> 'h multiset" where
  "socket_held l =
     mset (concat (map socket_task_handlers (pending l))) + mset (map w_handler (m_waiters l))"

definition socket_completed :: "'h socket_listener \<Rightarrow> 'h multiset" where
  "socket_completed l = mset (map fst (completions l))"

definition socket_ledger :: "'h socket_listener \<Rightarrow> 'h multiset" where
  "socket_ledger l = socket_held l + socket_completed l"

fun socket_submitted :: "'h socket_action \<times> asio \<Rightarrow> 'h multiset" where
  "socket_submitted (Sock_call_start h connected, r) = {# h #}"
| "socket_submitted (Sock_call_wait h connected, r) = {# h #}"
| "socket_submitted _ = {#}"

lemmas socket_ledger_defs = socket_ledger_def socket_held_def socket_completed_def

lemma socket_handlers_cancelled [simp]:
  "map (socket_task_handlers \<circ> cancel_sock_wait) ts = map socket_task_handlers ts"
proof -
  have "socket_task_handlers (cancel_sock_wait t) = socket_task_handlers t" for t :: "'a socket_task"
    by (cases t) simp_all
  then show ?thesis by simp
qed

lemma socket_ledger_helpers [simp]:
  "socket_ledger (record_diagnostic ec ep l) = socket_ledger l"
  "socket_ledger (emit type info ec ep l) = socket_ledger l"
  "socket_ledger (transition_to st l) = socket_ledger l"
  "socket_ledger (clear_diagnostics l) = socket_ledger l"
  "socket_ledger (set_stop_reason reason l) = socket_ledger l"
  "socket_ledger (keep_first_error ec l) = socket_ledger l"
  "socket_ledger (clear_slot c l) = socket_ledger l"
  "socket_ledger (cancel_sock_timer l) = socket_ledger l"
  "socket_ledger (complete h ec l) = add_mset h (socket_ledger l)"
  "socket_ledger (post t l) = mset (socket_task_handlers t) + socket_ledger l"
  by (simp_all add: socket_ledger_defs listener_helpers cancel_sock_timer_def)

lemma socket_ledger_updates [simp]:
  "socket_ledger (l\<lparr> m_terminal_error := ec \<rparr>) = socket_ledger l"
  "socket_ledger (l\<lparr> m_endpoint := e \<rparr>) = socket_ledger l"
  "socket_ledger (l\<lparr> m_generation := g \<rparr>) = socket_ledger l"
  "socket_ledger (l\<lparr> m_next_waiter_id := i \<rparr>) = socket_ledger l"
  "socket_ledger (l\<lparr> m_active_sessions := n \<rparr>) = socket_ledger l"
  "socket_ledger (l\<lparr> m_session := a \<rparr>) = socket_ledger l"
  "socket_ledger (l\<lparr> sess := cs \<rparr>) = socket_ledger l"
  "socket_ledger (l\<lparr> escaped := k \<rparr>) = socket_ledger l"
  "socket_ledger (l\<lparr> flags := fs \<rparr>) = socket_ledger l"
  "socket_ledger (l\<lparr> slots := sl \<rparr>) = socket_ledger l"
  by (simp_all add: socket_ledger_defs)

lemma socket_ledger_notify [simp]: "socket_ledger (sess_notify a res r l) = socket_ledger l"
  by (auto simp: socket_ledger_defs sess_notify_def split: option.split)

lemma socket_ledger_sess [simp]:
  "socket_ledger (sess_finish a ec ep r l) = socket_ledger l"
  "socket_ledger (sess_force_close r a l) = socket_ledger l"
  "socket_ledger (sess_request_stop r a l) = socket_ledger l"
  "socket_ledger (sess_start a r l) = socket_ledger l"
  by (simp_all add: sess_finish_def sess_force_close_def sess_request_stop_def sess_start_def Let_def
      split: option.split)

lemma socket_ledger_finish [simp]: "socket_ledger (socket_finish ec reason l) = socket_ledger l"
proof -
  have "socket_ledger (release_waiters l') = socket_ledger l'" for l' :: "'a socket_listener"
    by (simp add: socket_ledger_defs release_waiters_closed comp_def)
  then show ?thesis by (simp add: socket_finish_def Let_def)
qed

lemma socket_ledger_stop [simp]:
  "socket_ledger (socket_maybe_finish l) = socket_ledger l"
  "socket_ledger (socket_stop_on_strand r l) = socket_ledger l"
  "socket_ledger (socket_shutdown_expired ec r l) = socket_ledger l"
  "socket_ledger (socket_session_finished ec ep l) = socket_ledger l"
  by (simp_all add: socket_maybe_finish_def socket_stop_on_strand_def socket_stop_session_def
      socket_shutdown_expired_def socket_session_finished_def socket_report_finished_def Let_def
      split: option.split)

lemma socket_ledger_start [simp]:
  "socket_ledger (socket_start_on_strand h r l) = add_mset h (socket_ledger l)"
  by (simp add: socket_start_on_strand_def socket_enter_starting_def socket_factory_failed_def
      socket_run_session_def Let_def split: option.split)

lemma socket_ledger_cancel_wait [simp]:
  "socket_ledger (cancel_wait i l) = socket_ledger (l :: 'h socket_listener)"
proof (cases "find (\<lambda>w. w_id w = i) (m_waiters l)")
  case (Some w)
  then have "w \<in> set (m_waiters l)" by (auto simp: find_Some_iff)
  then have "mset (map w_handler (m_waiters l)) =
      add_mset (w_handler w) (mset (map w_handler (remove1 w (m_waiters l))))"
    by (metis mset_map image_mset_add_mset insert_DiffM mset_remove1 set_mset_mset)
  with Some show ?thesis
    by (simp add: cancel_wait_def socket_ledger_defs complete_def clear_slot_def)
qed (simp add: cancel_wait_def)

lemma socket_ledger_wait_task [simp]:
  "socket_ledger (socket_wait_task i c h l) = add_mset h (socket_ledger l)"
  by (simp add: socket_wait_task_def) (simp add: socket_ledger_defs)

lemma socket_ledger_run_task:
  "socket_ledger (run_socket_task t r l) = mset (socket_task_handlers t) + socket_ledger l"
  by (cases t) (simp_all add: socket_start_task_def Let_def)

lemma socket_ledger_taken:
  "t \<in> set (pending l) \<Longrightarrow>
     socket_ledger l = mset (socket_task_handlers t) + socket_ledger (l\<lparr> pending := remove1 t (pending l) \<rparr>)"
  by (simp add: socket_ledger_defs mset_concat_map_remove1 [of t "pending l"])

lemma socket_ledger_do:
  assumes "socket_enabled xr l"
  shows "socket_ledger (socket_do xr l) = socket_ledger l + socket_submitted xr"
proof -
  obtain x r where xr: "xr = (x, r)" by (cases xr)
  show ?thesis
  proof (cases x)
    case (Sock_run t)
    with assms xr have "t \<in> set (pending l)" by simp
    with Sock_run xr show ?thesis by (simp add: socket_ledger_run_task socket_ledger_taken [of t l])
  qed (simp_all add: xr socket_do_async_start_def socket_do_async_wait_def socket_request_stop_def
      socket_emit_cancellation_def Let_def split: option.split)
qed

interpretation socket_once: exactly_once socket_enabled socket_do "\<lambda>l. True" socket_held
    socket_completed socket_submitted
  by unfold_locales (simp_all add: socket_ledger_do flip: socket_ledger_def)

text \<open>
  C22: in every run of a bound listener the handlers passed to \<open>async_start\<close> and \<open>async_wait\<close> are,
  counted with multiplicity, those completed and those still held: none is dropped or
  completed twice.
\<close>

theorem socket_handlers_exactly_once:
  assumes "new_socket_listener ident observers endpoint options = Inr l"
    and "socket_run script l = Some l'"
  shows "socket_completed l' + socket_held l' = sum_list (map socket_submitted script)
    \<and> (m_state l' = listener_stopped \<and> (\<forall>t \<in> set (pending l'). socket_task_handlers t = []) \<longrightarrow>
        socket_completed l' = sum_list (map socket_submitted script))"
proof -
  have "socket_held l = {#}" "socket_completed l = {#}"
    using assms(1)
    by (auto simp: new_socket_listener_def fresh_socket_listener_def socket_held_def
        socket_completed_def split: sum.splits)
  note balance = socket_once.run_from_empty [OF assms(2) [unfolded socket_run_def] TrueI this]
  have "m_waiters l' = []" if "m_state l' = listener_stopped"
    using that socket.holds [OF socket_run_reachable [OF assms]] by (simp add: socket_inv_def)
  then have "socket_held l' = {#}"
    if "m_state l' = listener_stopped" "\<forall>t \<in> set (pending l'). socket_task_handlers t = []"
    using that by (simp add: socket_held_def)
  with balance show ?thesis by auto
qed

theorem socket_handlers_exactly_once_witness:
  "socket_completed (example_socket (example_socket_start @ example_socket_stop)) = {# 1, 2 #}"
proof -
  let ?l = "example_socket (example_socket_start @ example_socket_stop)"
  have "m_state ?l = listener_stopped" "\<forall>t \<in> set (pending ?l). socket_task_handlers t = []"
    by code_simp+
  then have "socket_completed ?l = sum_list (map socket_submitted (example_socket_start @ example_socket_stop))"
    using socket_handlers_exactly_once [OF example_socket_new example_socket_runs(2)] by blast
  then show ?thesis by (simp add: example_socket_start_def example_socket_stop_def)
qed

end
