(* ===== verification/Serveza_System.thy ===== *)
theory Serveza_System
  imports Serveza_Server_Inv Serveza_Acceptor_Ledger Serveza_Socket_Inv
begin

text \<open>
  A server together with its listeners.  The server of \<open>Serveza_Server\<close> treats listeners as
  an environment that may complete any child operation it was given; here the listeners are
  those of \<open>Serveza_Acceptor\<close> and \<open>Serveza_Socket_Listener\<close>.  The handler a listener gets from
  an operation group is \<open>Child\<close> with the name of the child; handlers of callers that use a
  listener directly are \<open>User\<close>.

  A call the server makes reaches the listener at once.  A completion that a listener
  schedules leaves it for \<open>sy_arriving\<close>, from where it reaches the group, the lambda of
  \<open>listener_operation_group::start\<close>, at any later time and in any order.  \<open>sy_slots\<close> tells which
  cancellation slot of which listener the signal of a child is connected to.
\<close>

datatype listener_handler = Child "nat \<times> nat" | User nat

datatype listener_node =
    Accepting "listener_handler acceptor"
  | Bound "listener_handler socket_listener"

record 'h system =
  sy_server :: "'h server"
  sy_nodes :: "listener_node list"
  sy_slots :: "((nat \<times> nat) \<times> nat \<times> nat \<times> u64 option) list"
  sy_arriving :: "((nat \<times> nat) \<times> error_code) list"

definition new_system :: "'h system" where
  "new_system = \<lparr> sy_server = new_server, sy_nodes = [], sy_slots = [], sy_arriving = [] \<rparr>"

subsection \<open>What a server asks of a listener\<close>

fun node_completions :: "listener_node \<Rightarrow> (listener_handler \<times> error_code) list" where
  "node_completions (Accepting l) = completions l"
| "node_completions (Bound l) = completions l"

fun node_flush :: "listener_node \<Rightarrow> listener_node" where
  "node_flush (Accepting l) = Accepting (l\<lparr> completions := [] \<rparr>)"
| "node_flush (Bound l) = Bound (l\<lparr> completions := [] \<rparr>)"

fun node_held :: "listener_node \<Rightarrow> listener_handler multiset" where
  "node_held (Accepting l) = held l"
| "node_held (Bound l) = socket_held l"

fun node_start :: "listener_handler \<Rightarrow> asio \<Rightarrow> listener_node \<Rightarrow> listener_node" where
  "node_start h r (Accepting l) = Accepting (acceptor_do_async_start h True r l)"
| "node_start h r (Bound l) = Bound (socket_do_async_start h True r l)"

fun node_wait :: "listener_handler \<Rightarrow> asio \<Rightarrow> listener_node \<Rightarrow> listener_node" where
  "node_wait h r (Accepting l) = Accepting (acceptor_do_async_wait h True r l)"
| "node_wait h r (Bound l) = Bound (socket_do_async_wait h True r l)"

fun node_request_stop :: "asio \<Rightarrow> listener_node \<Rightarrow> listener_node" where
  "node_request_stop r (Accepting l) = Accepting (acceptor_request_stop r l)"
| "node_request_stop r (Bound l) = Bound (socket_request_stop r l)"

text \<open>The slot the next operation installs, and the emission of the signal connected to it.\<close>

definition base_slot :: "bool \<Rightarrow> ('h, 't, 'z) listener_base_scheme \<Rightarrow> nat \<times> u64 option" where
  "base_slot wait l = (length (flags l), if wait then Some (m_next_waiter_id l + 1) else None)"

fun node_slot :: "bool \<Rightarrow> listener_node \<Rightarrow> nat \<times> u64 option" where
  "node_slot wait (Accepting l) = base_slot wait l"
| "node_slot wait (Bound l) = base_slot wait l"

fun node_emit :: "nat \<times> u64 option \<Rightarrow> asio \<Rightarrow> listener_node \<Rightarrow> listener_node" where
  "node_emit slot r (Accepting l) =
     Accepting (if slot \<in> set (slots l) then acceptor_emit_cancellation slot r l else l)"
| "node_emit slot r (Bound l) =
     Bound (if slot \<in> set (slots l) then socket_emit_cancellation slot r l else l)"

subsection \<open>Steps\<close>

text \<open>The completions of a listener that has run leave it; those of children are for the server.\<close>

fun child_completion :: "listener_handler \<times> error_code \<Rightarrow> ((nat \<times> nat) \<times> error_code) list" where
  "child_completion (Child c, ec) = [(c, ec)]"
| "child_completion (User u, ec) = []"

definition settle :: "nat \<Rightarrow> listener_node \<Rightarrow> 'h system \<Rightarrow> 'h system" where
  "settle k n s =
     s\<lparr> sy_nodes := (sy_nodes s)[k := node_flush n],
        sy_arriving := sy_arriving s @ concat (map child_completion (node_completions n)) \<rparr>"

definition submit_child ::
    "bool \<Rightarrow> nat \<times> nat \<Rightarrow> asio \<Rightarrow> 'h system \<Rightarrow> 'h system" where
  "submit_child wait child r s =
     (let k = g_listeners (group_of (sy_server s) (fst child)) ! snd child;
          n = sy_nodes s ! k;
          s = s\<lparr> sy_slots := sy_slots s @ [(child, k, node_slot wait n)] \<rparr>
      in settle k ((if wait then node_wait else node_start) (Child child) r n) s)"

fun deliver_call :: "asio \<Rightarrow> listener_call \<Rightarrow> 'h system \<Rightarrow> 'h system" where
  "deliver_call r (Call_start g i) s = submit_child False (g, i) r s"
| "deliver_call r (Call_wait g i) s = submit_child True (g, i) r s"
| "deliver_call r (Call_stop k) s = settle k (node_request_stop r (sy_nodes s ! k)) s"
| "deliver_call r (Call_cancel g i type) s =
     (case map_of (sy_slots s) (g, i) of
        None \<Rightarrow> s
      | Some (k, slot) \<Rightarrow> settle k (node_emit slot r (sy_nodes s ! k)) s)"

definition serve :: "'h server_action \<Rightarrow> asio \<Rightarrow> 'h system \<Rightarrow> 'h system" where
  "serve x r s =
     (let sv = server_do x (sy_server s);
          calls = drop (length (sv_calls (sy_server s))) (sv_calls sv)
      in fold (deliver_call r) calls (s\<lparr> sy_server := sv \<rparr>))"

datatype 'h system_action =
    Sys_listen endpoint listener_options
  | Sys_bind endpoint listener_options
  | Sys_server "'h server_action" asio                    \<comment> \<open>a call or a thread of the server\<close>
  | Sys_acceptor nat "listener_handler acceptor_action" asio
  | Sys_socket nat "listener_handler socket_action" asio
  | Sys_deliver "nat \<times> nat" error_code                    \<comment> \<open>a child completion reaches its group\<close>

text \<open>Actions of a listener other than the calls of the server.\<close>

fun is_user :: "listener_handler \<Rightarrow> bool" where
  "is_user (User u) \<longleftrightarrow> True"
| "is_user (Child c) \<longleftrightarrow> False"

fun is_own_acceptor :: "listener_handler acceptor_action \<Rightarrow> bool" where
  "is_own_acceptor (Call_async_start h connected) \<longleftrightarrow> is_user h"
| "is_own_acceptor (Call_async_wait h connected) \<longleftrightarrow> is_user h"
| "is_own_acceptor _ \<longleftrightarrow> True"

fun is_own_socket :: "listener_handler socket_action \<Rightarrow> bool" where
  "is_own_socket (Sock_call_start h connected) \<longleftrightarrow> is_user h"
| "is_own_socket (Sock_call_wait h connected) \<longleftrightarrow> is_user h"
| "is_own_socket _ \<longleftrightarrow> True"

fun is_call :: "'h server_action \<Rightarrow> bool" where
  "is_call (Do_listen options) \<longleftrightarrow> False"
| "is_call (Do_bind options) \<longleftrightarrow> False"
| "is_call (Do_complete_child child ec) \<longleftrightarrow> False"
| "is_call _ \<longleftrightarrow> True"

fun system_enabled :: "'h system_action \<Rightarrow> 'h system \<Rightarrow> bool" where
  "system_enabled (Sys_listen endpoint options) s \<longleftrightarrow> server_enabled (Do_listen options) (sy_server s)"
| "system_enabled (Sys_bind endpoint options) s \<longleftrightarrow> server_enabled (Do_bind options) (sy_server s)"
| "system_enabled (Sys_server x r) s \<longleftrightarrow>
     is_call x \<and> asio_throws_errors r \<and> server_enabled x (sy_server s)"
| "system_enabled (Sys_acceptor k x r) s \<longleftrightarrow>
     k < length (sy_nodes s) \<and>
     (case sy_nodes s ! k of
        Accepting l \<Rightarrow> is_own_acceptor x \<and> asio_throws_errors r \<and> acceptor_enabled x r l
      | Bound l \<Rightarrow> False)"
| "system_enabled (Sys_socket k x r) s \<longleftrightarrow>
     k < length (sy_nodes s) \<and>
     (case sy_nodes s ! k of
        Accepting l \<Rightarrow> False
      | Bound l \<Rightarrow> is_own_socket x \<and> socket_enabled (x, r) l)"
| "system_enabled (Sys_deliver child ec) s \<longleftrightarrow> (child, ec) \<in> set (sy_arriving s)"

fun node_acceptor_do :: "listener_handler acceptor_action \<Rightarrow> asio \<Rightarrow> listener_node \<Rightarrow> listener_node" where
  "node_acceptor_do x r (Accepting l) = Accepting (acceptor_do x r l)"
| "node_acceptor_do x r n = n"

fun node_socket_do :: "listener_handler socket_action \<Rightarrow> asio \<Rightarrow> listener_node \<Rightarrow> listener_node" where
  "node_socket_do x r (Bound l) = Bound (socket_do (x, r) l)"
| "node_socket_do x r n = n"

text \<open>\<open>listen\<close> and \<open>bind\<close> construct a listener with the identifier the server gave it.\<close>

definition register ::
    "(argument_error + u64) \<times> 'h server \<Rightarrow> (u64 \<Rightarrow> listener_node) \<Rightarrow> 'h system \<Rightarrow> 'h system" where
  "register result construct s =
     s\<lparr> sy_server := snd result,
        sy_nodes := sy_nodes s @ (case fst result of Inl e \<Rightarrow> [] | Inr ident \<Rightarrow> [construct ident]) \<rparr>"

definition system_listen :: "endpoint \<Rightarrow> listener_options \<Rightarrow> 'h system \<Rightarrow> 'h system" where
  "system_listen endpoint options s =
     register (server_listen options (sy_server s))
       (\<lambda>ident. Accepting (fresh_acceptor ident True endpoint options)) s"

definition system_bind :: "endpoint \<Rightarrow> listener_options \<Rightarrow> 'h system \<Rightarrow> 'h system" where
  "system_bind endpoint options s =
     register (server_bind options (sy_server s))
       (\<lambda>ident. Bound (fresh_socket_listener ident True endpoint options)) s"

fun system_do :: "'h system_action \<Rightarrow> 'h system \<Rightarrow> 'h system" where
  "system_do (Sys_listen endpoint options) s = system_listen endpoint options s"
| "system_do (Sys_bind endpoint options) s = system_bind endpoint options s"
| "system_do (Sys_server x r) s = serve x r s"
| "system_do (Sys_acceptor k x r) s = settle k (node_acceptor_do x r (sy_nodes s ! k)) s"
| "system_do (Sys_socket k x r) s = settle k (node_socket_do x r (sy_nodes s ! k)) s"
| "system_do (Sys_deliver child ec) s =
     serve (Do_complete_child child ec) all_succeed
       (s\<lparr> sy_arriving := remove1 (child, ec) (sy_arriving s) \<rparr>)"

definition system_run :: "'h system_action list \<Rightarrow> 'h system \<Rightarrow> 'h system option" where
  "system_run = run_script system_enabled system_do"

subsection \<open>Where the child operations are\<close>

fun child_of :: "listener_handler \<Rightarrow> (nat \<times> nat) multiset" where
  "child_of (Child c) = {# c #}"
| "child_of (User u) = {#}"

definition children :: "listener_handler multiset \<Rightarrow> (nat \<times> nat) multiset" where
  "children M = sum_mset (image_mset child_of M)"

lemma children_simps [simp]:
  "children {#} = {#}" "children (add_mset h M) = child_of h + children M"
  "children (M + N) = children M + children N"
  by (simp_all add: children_def)

definition node_children :: "listener_node list \<Rightarrow> (nat \<times> nat) multiset" where
  "node_children ns = sum_list (map (\<lambda>n. children (node_held n)) ns)"

lemma exchange:
  fixes x :: "'a multiset"
  assumes "h' + c = h + m" and "x + h = n + h'"
  shows "x + (a + c) = n + a + m"
proof (rule multiset_eqI)
  fix z
  from assms have "count h' z + count c z = count h z + count m z" "count x z + count h z = count n z + count h' z"
    by (metis count_union)+
  then show "count (x + (a + c)) z = count (n + a + m) z" by simp
qed

lemma node_children_update:
  "k < length ns \<Longrightarrow>
     node_children (ns[k := n]) + children (node_held (ns ! k)) = node_children ns + children (node_held n)"
  by (induction ns arbitrary: k) (auto simp: node_children_def nth_Cons algebra_simps split: nat.split)

lemma arriving_children:
  "image_mset fst (mset (concat (map child_completion cs))) = children (image_mset fst (mset cs))"
proof (induction cs)
  case (Cons c cs)
  then show ?case by (cases c; cases "fst c") auto
qed simp

definition under_way :: "'h system \<Rightarrow> (nat \<times> nat) multiset" where
  "under_way s = node_children (sy_nodes s) + mset (map fst (sy_arriving s))"

fun node_inv :: "listener_node \<Rightarrow> bool" where
  "node_inv (Accepting l) \<longleftrightarrow> acceptor_inv l"
| "node_inv (Bound l) \<longleftrightarrow> socket_inv l"

text \<open>A listener that has run: what it holds and has completed grew by \<open>M\<close>.\<close>

definition node_step :: "listener_node \<Rightarrow> listener_handler multiset \<Rightarrow> listener_node \<Rightarrow> bool" where
  "node_step n M n' \<longleftrightarrow> node_inv n' \<and>
     node_held n' + mset (map fst (node_completions n')) = node_held n + mset (map fst (node_completions n)) + M"

lemma inv_completions:
  "acceptor_inv (l\<lparr> completions := cs \<rparr>) = acceptor_inv l"
  "socket_inv (l'\<lparr> completions := cs \<rparr>) = socket_inv l'"
  by (cases "m_state l"; simp add: acceptor_inv_def counters_ok_def lifecycle_ok_def drained_def)
    (cases "m_state l'"; simp add: socket_inv_def)

lemma node_flush_simps [simp]:
  "node_completions (node_flush n) = []" "node_held (node_flush n) = node_held n"
  "node_inv (node_flush n) = node_inv n"
  by (cases n; simp add: held_def socket_held_def inv_completions)+

lemma acceptor_node_step:
  assumes "acceptor_inv l" "asio_throws_errors r" "acceptor_enabled x r l"
  shows "node_step (Accepting l) (mset (submitted x)) (Accepting (acceptor_do x r l))"
  using assms acceptor.preserved [OF assms(1) acceptor_stepI [OF assms(2,3)]] ledger_do [OF assms(3)]
  by (simp add: node_step_def ledger_def)

lemma socket_node_step:
  assumes "socket_inv l" "socket_enabled (x, r) l"
  shows "node_step (Bound l) (socket_submitted (x, r)) (Bound (socket_do (x, r) l))"
  using assms socket.preserved [OF assms(1) socket_stepI [OF assms(2)]] socket_ledger_do [OF assms(2)]
  by (simp add: node_step_def socket_ledger_def socket_completed_def)

lemma node_call_steps:
  assumes "node_inv n" and "asio_throws_errors r"
  shows "node_step n {# h #} (node_start h r n)" "node_step n {# h #} (node_wait h r n)"
    "node_step n {#} (node_request_stop r n)" "node_step n {#} (node_emit slot r n)"
proof -
  show "node_step n {# h #} (node_start h r n)"
    using assms acceptor_node_step [of _ r "Call_async_start h True"] socket_node_step [of _ "Sock_call_start h True" r]
    by (cases n) simp_all
  show "node_step n {# h #} (node_wait h r n)"
    using assms acceptor_node_step [of _ r "Call_async_wait h True"] socket_node_step [of _ "Sock_call_wait h True" r]
    by (cases n) simp_all
  show "node_step n {#} (node_request_stop r n)"
    using assms acceptor_node_step [of _ r Call_request_stop] socket_node_step [of _ Sock_call_stop r]
    by (cases n) simp_all
  have "node_step n {#} n" using assms(1) by (simp add: node_step_def)
  then show "node_step n {#} (node_emit slot r n)"
    using assms acceptor_node_step [of _ r "Emit_cancellation slot"] socket_node_step [of _ "Sock_emit slot" r]
    by (cases n) simp_all
qed

text \<open>The listeners are as many as the server knows, and keep their invariants.\<close>

definition nodes_ok :: "'h system \<Rightarrow> bool" where
  "nodes_ok s \<longleftrightarrow> length (sy_nodes s) = length (sv_listeners (sy_server s)) \<and>
     (\<forall>n \<in> set (sy_nodes s). node_inv n \<and> node_completions n = []) \<and>
     (\<forall>e \<in> set (sy_slots s). fst (snd e) < length (sv_listeners (sy_server s)))"

lemma settle_step:
  assumes "nodes_ok s" and k: "k < length (sy_nodes s)" and n: "node_step (sy_nodes s ! k) M n"
  shows "nodes_ok (settle k n s)" "sy_server (settle k n s) = sy_server s"
    "length (sy_nodes (settle k n s)) = length (sy_nodes s)"
    "under_way (settle k n s) = under_way s + children M"
proof -
  have empty: "node_completions (sy_nodes s ! k) = []" using assms(1) k by (simp add: nodes_ok_def)
  show "nodes_ok (settle k n s)"
    using assms by (auto simp: nodes_ok_def settle_def node_step_def dest!: set_update_subset_insert [THEN subsetD])
  show "sy_server (settle k n s) = sy_server s" "length (sy_nodes (settle k n s)) = length (sy_nodes s)"
    by (simp_all add: settle_def)
  have "children (node_held n) + children (mset (map fst (node_completions n))) =
      children (node_held (sy_nodes s ! k)) + children M"
    using n empty by (simp add: node_step_def flip: children_simps(3))
  moreover have "node_children ((sy_nodes s)[k := node_flush n]) + children (node_held (sy_nodes s ! k)) =
      node_children (sy_nodes s) + children (node_held n)"
    using node_children_update [OF k, of "node_flush n"] by simp
  ultimately have "node_children ((sy_nodes s)[k := node_flush n]) +
      (mset (map fst (sy_arriving s)) + children (mset (map fst (node_completions n)))) =
      node_children (sy_nodes s) + mset (map fst (sy_arriving s)) + children M"
    by (rule exchange)
  then show "under_way (settle k n s) = under_way s + children M"
    by (simp add: under_way_def settle_def arriving_children)
qed

subsection \<open>Calls of the server\<close>

fun call_child :: "listener_call \<Rightarrow> (nat \<times> nat) list" where
  "call_child (Call_start g i) = [(g, i)]"
| "call_child (Call_wait g i) = [(g, i)]"
| "call_child _ = []"

fun call_ok :: "'h server \<Rightarrow> listener_call \<Rightarrow> bool" where
  "call_ok sv (Call_start g i) \<longleftrightarrow>
     i < length (g_listeners (group_of sv g)) \<and> g_listeners (group_of sv g) ! i < length (sv_listeners sv)"
| "call_ok sv (Call_wait g i) \<longleftrightarrow>
     i < length (g_listeners (group_of sv g)) \<and> g_listeners (group_of sv g) ! i < length (sv_listeners sv)"
| "call_ok sv (Call_stop k) \<longleftrightarrow> k < length (sv_listeners sv)"
| "call_ok sv (Call_cancel g i type) \<longleftrightarrow> True"

lemma deliver_call_step:
  assumes ok: "nodes_ok s" and c: "call_ok (sy_server s) c" and r: "asio_throws_errors r"
  shows "nodes_ok (deliver_call r c s) \<and> sy_server (deliver_call r c s) = sy_server s \<and>
    under_way (deliver_call r c s) = under_way s + mset (call_child c)"
proof -
  have len: "length (sy_nodes s) = length (sv_listeners (sy_server s))" using ok by (simp add: nodes_ok_def)
  have inv: "node_inv (sy_nodes s ! k)" if "k < length (sy_nodes s)" for k using ok that by (simp add: nodes_ok_def)
  note settled = settle_step [OF ok]
  have submit: "nodes_ok (submit_child wait child r s) \<and> sy_server (submit_child wait child r s) = sy_server s \<and>
      under_way (submit_child wait child r s) = under_way s + {# child #}"
    if "g_listeners (group_of (sy_server s) (fst child)) ! snd child < length (sy_nodes s)" for wait child
  proof -
    let ?k = "g_listeners (group_of (sy_server s) (fst child)) ! snd child"
    let ?n = "sy_nodes s ! ?k"
    let ?s = "s\<lparr> sy_slots := sy_slots s @ [(child, ?k, node_slot wait ?n)] \<rparr>"
    have "nodes_ok ?s" using ok that by (auto simp: nodes_ok_def)
    moreover have "node_step ?n {# Child child #} ((if wait then node_wait else node_start) (Child child) r ?n)"
      using node_call_steps(1,2) [OF inv [OF that] r] by simp
    ultimately show ?thesis
      using settle_step [of ?s ?k "{# Child child #}"] that by (simp add: submit_child_def Let_def under_way_def)
  qed
  show ?thesis
  proof (cases c)
    case (Call_stop k)
    with c len have "k < length (sy_nodes s)" by simp
    with settled [OF this node_call_steps(3) [OF inv [OF this] r]] Call_stop show ?thesis by simp
  next
    case (Call_cancel g i type)
    show ?thesis
    proof (cases "map_of (sy_slots s) (g, i)")
      case (Some kslot)
      obtain k slot where kslot: "kslot = (k, slot)" by (cases kslot)
      then have "k < length (sy_nodes s)"
        using Some ok by (auto simp: nodes_ok_def dest!: map_of_SomeD)
      with settled [OF this node_call_steps(4) [OF inv [OF this] r]] Call_cancel Some kslot show ?thesis by simp
    qed (use Call_cancel ok in simp)
  qed (use c len submit in auto)
qed

lemma deliver_calls:
  assumes "nodes_ok s" and "\<forall>c \<in> set cs. call_ok (sy_server s) c" and r: "asio_throws_errors r"
  shows "nodes_ok (fold (deliver_call r) cs s) \<and> sy_server (fold (deliver_call r) cs s) = sy_server s \<and>
    under_way (fold (deliver_call r) cs s) = under_way s + mset (concat (map call_child cs))"
  using assms(1,2)
proof (induction cs arbitrary: s)
  case (Cons c cs)
  have "call_ok (sy_server s) c" using Cons.prems(2) by simp
  note c = deliver_call_step [OF Cons.prems(1) this r]
  then have "nodes_ok (deliver_call r c s)" "\<forall>c' \<in> set cs. call_ok (sy_server (deliver_call r c s)) c'"
    using Cons.prems(2) by simp_all
  from Cons.IH [OF this] c show ?case by (simp add: add.assoc)
qed simp

text \<open>The server only calls listeners it has registered.\<close>

definition groups_ok :: "'h server \<Rightarrow> bool" where
  "groups_ok sv \<longleftrightarrow> (\<forall>grp \<in> set (sv_groups sv). \<forall>k \<in> set (g_listeners grp). k < length (sv_listeners sv))"

definition stops_ok :: "'h server \<Rightarrow> 'h instr multiset \<Rightarrow> bool" where
  "stops_ok sv M \<longleftrightarrow> (\<forall>k. Stop_one k \<in># M \<longrightarrow> k < length (sv_listeners sv))"

definition server_in_range :: "'h server \<Rightarrow> bool" where
  "server_in_range sv \<longleftrightarrow> groups_ok sv \<and> stops_ok sv (instrs sv)"

lemma group_listeners [simp]:
  "g_listeners (fst (group_one ec g)) = g_listeners g"
  "g_listeners (fst (group_reject ec g)) = g_listeners g"
  "g_listeners (group_initiation_failed i ex g) = g_listeners g"
  "g_listeners (group_cancel type g) = g_listeners g"
  "g_listeners (group_prepare connected g) = g_listeners g"
  "g_listeners (new_group values stop finished h) = values"
  by (simp_all add: group_one_def group_reject_def group_initiation_failed_def group_cancel_def
      group_prepare_def new_group_def Let_def)

lemma groups_okD:
  "groups_ok sv \<Longrightarrow> g < length (sv_groups sv) \<Longrightarrow> k \<in> set (g_listeners (group_of sv g)) \<Longrightarrow> k < length (sv_listeners sv)"
  using nth_mem [of g "sv_groups sv"] unfolding groups_ok_def by blast

declare map_update_same [simp]

lemma groups_ok_same:
  fixes sv sv' :: "'h server"
  assumes "groups_ok sv" and "map g_listeners (sv_groups sv') = map g_listeners (sv_groups sv)"
    and "sv_listeners sv' = sv_listeners sv"
  shows "groups_ok sv'"
proof -
  have "groups_ok s \<longleftrightarrow> (\<forall>ks \<in> set (map g_listeners (sv_groups s)). \<forall>k \<in> set ks. k < length (sv_listeners s))"
    for s :: "'h server"
    by (simp add: groups_ok_def)
  note iff = this
  show ?thesis using assms(1) unfolding iff assms(2,3) .
qed

text \<open>What one action of the server does: calls of listeners, and a new child for each of some.\<close>

definition calls_made :: "'h server \<Rightarrow> 'h server \<Rightarrow> listener_call list \<Rightarrow> bool" where
  "calls_made sv sv' cs \<longleftrightarrow> sv_calls sv' = sv_calls sv @ cs \<and>
     mset (sv_children sv') = mset (sv_children sv) + mset (concat (map call_child cs)) \<and>
     (\<forall>c \<in> set cs. call_ok sv' c) \<and> sv_listeners sv' = sv_listeners sv \<and> groups_ok sv'"

lemma calls_made_none:
  "sv_calls sv' = sv_calls sv \<Longrightarrow> sv_children sv' = sv_children sv \<Longrightarrow> sv_listeners sv' = sv_listeners sv \<Longrightarrow>
     groups_ok sv' \<Longrightarrow> \<exists>cs. calls_made sv sv' cs"
  by (intro exI [of _ "[]"]) (simp add: calls_made_def)

lemma calls_made_one:
  "sv_calls sv' = sv_calls sv @ [c] \<Longrightarrow> mset (sv_children sv') = mset (sv_children sv) + mset (call_child c) \<Longrightarrow>
     sv_listeners sv' = sv_listeners sv \<Longrightarrow> groups_ok sv' \<Longrightarrow> call_ok sv' c \<Longrightarrow> \<exists>cs. calls_made sv sv' cs"
  by (intro exI [of _ "[c]"]) (simp add: calls_made_def)

lemma exec_effect:
  assumes g: "groups_ok sv" and ins: "instr_ok (sv_groups sv) ins" and stops: "stops_ok sv {# ins #}"
  shows "(\<exists>cs. calls_made sv (fst (exec ins e sv)) cs) \<and> stops_ok sv (mset (snd (exec ins e sv)))"
proof -
  note range = groups_okD [OF g] and none = calls_made_none and one = calls_made_one
  show ?thesis
  proof (cases ins)
    case (Begin_start k)
    with ins g show ?thesis
      by (auto simp: exec_begin_start_def Let_def stops_ok_def complete_server_def
          intro!: none groups_ok_same [OF g])
  next
    case (Submit_loop k i wait)
    show ?thesis
    proof (cases "i < length (g_listeners (group_of sv k)) \<and> e_throw e = None")
      case True
      then have "g_listeners (group_of sv k) ! i < length (sv_listeners sv)"
        using ins Submit_loop by (intro range [of k]) simp_all
      with True g Submit_loop show ?thesis
        by (cases wait) (auto simp: exec_submit_def call_listener_def stops_ok_def intro!: one groups_ok_same [OF g])
    next
      case False
      with g Submit_loop show ?thesis
        by (auto simp: exec_submit_def stops_ok_def split: option.split intro!: none groups_ok_same [OF g])
    qed
  next
    case (One k ec)
    obtain grp stop ready where grp: "group_one ec (group_of sv k) = (grp, stop, ready)"
      by (cases "group_one ec (group_of sv k)")
    then have ks: "g_listeners grp = g_listeners (group_of sv k)"
      using group_listeners(1) [of ec "group_of sv k"] by simp
    then have "groups_ok (set_group k grp sv)"
      by (intro groups_ok_same [OF g]) simp_all
    with ins range [of k] One grp ks show ?thesis
      by (auto simp: exec_one_def stops_ok_def split: option.split intro!: none)
  next
    case (Check_cancelled k i)
    with g show ?thesis
      by (cases "g_cancelled (group_of sv k) = 0")
        (auto simp: call_listener_def stops_ok_def intro!: none [where sv' = sv] one groups_ok_same [OF g])
  next
    case (Stop_one k)
    with g stops show ?thesis by (auto simp: call_listener_def stops_ok_def intro!: one groups_ok_same [OF g])
  next
    case (Cancel_one k i type)
    with g show ?thesis by (auto simp: call_listener_def stops_ok_def intro!: one groups_ok_same [OF g])
  qed (use ins g range in \<open>auto simp: exec_begin_start_empty_def exec_report_def exec_finish_def Let_def stops_ok_def
      complete_server_def intro!: none groups_ok_same [OF g]\<close>)
qed

lemma run_thread_effect:
  assumes inv: "server_inv sv" and range: "server_in_range sv" and j: "j < length (sv_threads sv)"
  shows "\<exists>cs. calls_made sv (run_thread j e sv) cs \<and> server_in_range (run_thread j e sv)"
proof (cases "sv_threads sv ! j")
  case Nil
  then show ?thesis using range by (auto simp: run_thread_def server_in_range_def intro!: exI [of _ "[]"] simp: calls_made_def)
next
  case (Cons ins rest)
  from instrs_run_thread [OF j this] obtain N where N: "instrs sv = add_mset ins N"
    "instrs (run_thread j e sv) = mset (snd (exec ins e sv)) + N" .
  have "instr_ok (sv_groups sv) ins"
    using inv N(1) by (intro server_okD(1) [of "instrs sv"]) (simp_all add: server_inv_def)
  moreover have "groups_ok sv" "stops_ok sv {# ins #}" "stops_ok sv N"
    using range N(1) by (simp_all add: server_in_range_def stops_ok_def)
  ultimately obtain cs where cs: "calls_made sv (fst (exec ins e sv)) cs"
    and new: "stops_ok sv (mset (snd (exec ins e sv)))"
    using exec_effect by blast
  define sv' where "sv' = run_thread j e sv"
  have sv': "sv' = (fst (exec ins e sv))\<lparr> sv_threads := (sv_threads sv)[j := snd (exec ins e sv) @ rest] \<rparr>"
    using Cons exec_threads [of ins e sv] by (cases "exec ins e sv") (simp add: run_thread_def sv'_def)
  have call_ok: "call_ok (s\<lparr> sv_threads := ts \<rparr>) c = call_ok s c" for s :: "'a server" and ts c
    by (cases c) simp_all
  have "groups_ok (s\<lparr> sv_threads := ts \<rparr>) = groups_ok s" for s :: "'a server" and ts
    by (simp add: groups_ok_def)
  with cs have made: "calls_made sv sv' cs" by (simp add: sv' calls_made_def call_ok)
  have "stops_ok sv' (instrs sv')"
    using new \<open>stops_ok sv N\<close> N(2) made by (auto simp: stops_ok_def calls_made_def sv'_def)
  with made show ?thesis by (auto simp: server_in_range_def calls_made_def sv'_def)
qed

lemma start_thread_range:
  "groups_ok sv \<Longrightarrow> stops_ok sv (instrs sv) \<Longrightarrow> stops_ok sv (mset t) \<Longrightarrow> server_in_range (start_thread t sv)"
  by (auto simp: server_in_range_def stops_ok_def groups_ok_def start_thread_def)

lemma server_do_effect:
  assumes inv: "server_inv sv" and range: "server_in_range sv" and en: "server_enabled x sv" and call: "is_call x"
  shows "\<exists>cs. calls_made sv (server_do x sv) cs \<and> server_in_range (server_do x sv)"
proof -
  have sv: "groups_ok sv" "stops_ok sv (instrs sv)" using range by (simp_all add: server_in_range_def)
  have thread: "\<exists>cs. calls_made sv (start_thread t sv) cs \<and> server_in_range (start_thread t sv)"
    if "stops_ok sv (mset t)" for t
    using start_thread_range [OF sv that]
    by (intro exI [of _ "[]"]) (auto simp: calls_made_def start_thread_def server_in_range_def)
  have grp: "\<exists>cs. calls_made sv (start_thread t (sv\<lparr> sv_groups := sv_groups sv @ [g] \<rparr>)) cs \<and>
      server_in_range (start_thread t (sv\<lparr> sv_groups := sv_groups sv @ [g] \<rparr>))"
    if "stops_ok sv (mset t)" "g_listeners g = snapshot sv" for t g
  proof -
    let ?sv = "sv\<lparr> sv_groups := sv_groups sv @ [g] \<rparr>"
    have "groups_ok ?sv" using sv(1) that(2) by (auto simp: groups_ok_def snapshot_def)
    moreover have "stops_ok ?sv M = stops_ok sv M" for M by (simp add: stops_ok_def)
    ultimately have "server_in_range (start_thread t ?sv)" using sv(2) that(1) by (intro start_thread_range) simp_all
    then show ?thesis
      by (intro exI [of _ "[]"]) (auto simp: calls_made_def start_thread_def server_in_range_def)
  qed
  show ?thesis
  proof (cases x)
    case (Do_run j e)
    with run_thread_effect [OF inv range] en show ?thesis by simp
  next
    case Do_request_stop
    have "stops_ok sv (mset (Control_stop # map Stop_one (snapshot sv)))"
      by (auto simp: stops_ok_def snapshot_def)
    from thread [OF this] Do_request_stop show ?thesis by (simp add: server_request_stop_def)
  qed (use call thread grp in \<open>auto simp: server_do_async_start_def server_do_async_wait_def server_request_stop_def
      Let_def stops_ok_def snapshot_def\<close>)
qed

subsection \<open>The system\<close>

definition system_inv :: "'h system \<Rightarrow> bool" where
  "system_inv s \<longleftrightarrow> server_inv (sy_server s) \<and> server_in_range (sy_server s) \<and> nodes_ok s \<and>
     under_way s = mset (sv_children (sy_server s))"

fun system_submitted :: "'h system_action \<Rightarrow> 'h multiset" where
  "system_submitted (Sys_server x r) = server_submitted x"
| "system_submitted _ = {#}"

lemma serve_step:
  assumes inv: "system_inv s" and call: "is_call x" and en: "server_enabled x (sy_server s)" and r: "asio_throws_errors r"
  shows "system_inv (serve x r s)" "sy_server (serve x r s) = server_do x (sy_server s)"
proof -
  let ?sv = "sy_server s"
  have sv: "server_inv ?sv" "server_in_range ?sv" using inv by (simp_all add: system_inv_def)
  obtain cs where cs: "calls_made ?sv (server_do x ?sv) cs" "server_in_range (server_do x ?sv)"
    using server_do_effect [OF sv en call] by blast
  let ?s = "s\<lparr> sy_server := server_do x ?sv \<rparr>"
  have "nodes_ok ?s" using inv cs(1) by (simp add: system_inv_def nodes_ok_def calls_made_def)
  moreover have "\<forall>c \<in> set cs. call_ok (sy_server ?s) c" using cs(1) by (simp add: calls_made_def)
  ultimately have new: "nodes_ok (fold (deliver_call r) cs ?s)" "sy_server (fold (deliver_call r) cs ?s) = server_do x ?sv"
    "under_way (fold (deliver_call r) cs ?s) = under_way ?s + mset (concat (map call_child cs))"
    using deliver_calls [of ?s cs r] r by simp_all
  have serve: "serve x r s = fold (deliver_call r) cs ?s"
    using cs(1) by (simp add: serve_def Let_def calls_made_def)
  then show "sy_server (serve x r s) = server_do x ?sv" using new by simp
  have "under_way ?s = under_way s" by (simp add: under_way_def)
  then have "under_way (serve x r s) = mset (sv_children (server_do x ?sv))"
    using inv cs(1) new(3) by (simp add: serve system_inv_def calls_made_def)
  moreover have "server_inv (server_do x ?sv)" using server.preserved [OF sv(1) server_stepI [OF en]] .
  ultimately show "system_inv (serve x r s)"
    using new(1,2) cs(2) by (simp add: system_inv_def serve)
qed

lemma deliver_step:
  assumes inv: "system_inv s" and arriving: "(child, ec) \<in> set (sy_arriving s)"
  shows "server_enabled (Do_complete_child child ec) (sy_server s)"
    "system_inv (system_do (Sys_deliver child ec) s)"
    "sy_server (system_do (Sys_deliver child ec) s) = server_do (Do_complete_child child ec) (sy_server s)"
proof -
  let ?sv = "sy_server s"
  let ?sv' = "server_do (Do_complete_child child ec) ?sv"
  have way: "under_way s = mset (sv_children ?sv)" and sv: "server_inv ?sv" "server_in_range ?sv"
    using inv by (simp_all add: system_inv_def)
  have "child \<in># under_way s" using arriving by (force simp: under_way_def)
  then have "child \<in> set (sv_children ?sv)" using way by simp
  then show en: "server_enabled (Do_complete_child child ec) ?sv" by simp
  have sv': "sv_calls ?sv' = sv_calls ?sv" "sv_listeners ?sv' = sv_listeners ?sv"
    "sv_children ?sv' = remove1 child (sv_children ?sv)"
    by (simp_all add: start_thread_def)
  let ?s = "s\<lparr> sy_arriving := remove1 (child, ec) (sy_arriving s), sy_server := ?sv' \<rparr>"
  have s: "system_do (Sys_deliver child ec) s = ?s"
    using sv'(1) by (simp add: serve_def Let_def del: server_do.simps)
  then show "sy_server (system_do (Sys_deliver child ec) s) = ?sv'" by simp
  have taken: "mset (sy_arriving s) = add_mset (child, ec) (mset (remove1 (child, ec) (sy_arriving s)))"
    using arriving by simp
  have "image_mset fst (mset (sy_arriving s)) = add_mset child (image_mset fst (mset (remove1 (child, ec) (sy_arriving s))))"
    by (subst taken) simp
  then have "under_way s = add_mset child (under_way ?s)" by (simp add: under_way_def)
  then have "under_way ?s = mset (sv_children ?sv')"
    using way sv'(3) by (metis add_mset_remove_trivial mset_remove1)
  moreover have "server_in_range ?sv'"
  proof -
    let ?c = "?sv\<lparr> sv_children := remove1 child (sv_children ?sv) \<rparr>"
    have "groups_ok ?c" "stops_ok ?c (instrs ?c)" "stops_ok ?c (mset [One (fst child) ec])"
      using sv(2) by (simp_all add: server_in_range_def groups_ok_def stops_ok_def)
    then show ?thesis by (simp add: start_thread_range)
  qed
  moreover have "server_inv ?sv'" using server.preserved [OF sv(1) server_stepI [OF en]] .
  ultimately show "system_inv (system_do (Sys_deliver child ec) s)"
    using inv sv'(2) unfolding s by (simp add: system_inv_def nodes_ok_def del: server_do.simps)
qed

lemma register_step:
  assumes inv: "system_inv s" and sv': "server_inv (snd result)"
    and same: "sv_groups (snd result) = sv_groups (sy_server s)" "sv_threads (snd result) = sv_threads (sy_server s)"
      "sv_children (snd result) = sv_children (sy_server s)"
      "sv_listeners (snd result) = sv_listeners (sy_server s) @ (case fst result of Inl e \<Rightarrow> [] | Inr ident \<Rightarrow> [ident])"
    and node: "\<And>ident. fst result = Inr ident \<Longrightarrow>
      node_inv (construct ident) \<and> node_held (construct ident) = {#} \<and> node_completions (construct ident) = []"
  shows "system_inv (register result construct s)"
proof -
  have range: "server_in_range (sy_server s)" and nodes: "nodes_ok s"
    and way: "under_way s = mset (sv_children (sy_server s))"
    using inv by (simp_all add: system_inv_def)
  have more: "length (sv_listeners (sy_server s)) \<le> length (sv_listeners (snd result))" using same(4) by simp
  have "groups_ok (snd result)" "stops_ok (snd result) (instrs (snd result))"
    using range more unfolding server_in_range_def groups_ok_def stops_ok_def same(1,2) by fastforce+
  moreover have "nodes_ok (register result construct s)"
    using nodes node more same(4) by (fastforce simp: nodes_ok_def register_def split: sum.splits)
  moreover have "under_way (register result construct s) = mset (sv_children (snd result))"
    using way node same(3) by (simp add: under_way_def node_children_def register_def split: sum.splits)
  ultimately show ?thesis
    using sv' by (simp add: system_inv_def server_in_range_def register_def)
qed

lemma listener_init:
  "validate_acceptor_options options = Inr u \<Longrightarrow> acceptor_init (fresh_acceptor ident obs endpoint options)"
  "validate_socket_options options = Inr u \<Longrightarrow> socket_init (fresh_socket_listener ident obs endpoint options)"
proof -
  assume "validate_acceptor_options options = Inr u"
  then have "new_acceptor ident obs endpoint options = Inr (fresh_acceptor ident obs endpoint options)"
    by (simp add: new_acceptor_def)
  then show "acceptor_init (fresh_acceptor ident obs endpoint options)" unfolding acceptor_init_def by blast
next
  assume "validate_socket_options options = Inr u"
  then have "new_socket_listener ident obs endpoint options = Inr (fresh_socket_listener ident obs endpoint options)"
    by (simp add: new_socket_listener_def)
  then show "socket_init (fresh_socket_listener ident obs endpoint options)" unfolding socket_init_def by blast
qed

lemmas listener_made = listener_init(1) [THEN acceptor.base] listener_init(2) [THEN socket.base]

lemma system_listen_step:
  assumes inv: "system_inv s"
  shows "server_enabled (Do_listen options) (sy_server s) \<Longrightarrow> system_inv (system_listen endpoint options s)"
    "server_enabled (Do_bind options) (sy_server s) \<Longrightarrow> system_inv (system_bind endpoint options s)"
proof -
  let ?sv = "sy_server s"
  have sv: "server_inv ?sv" using inv by (simp add: system_inv_def)
  note defs = server_listen_def server_bind_def next_listener_id_def add_listener_def Let_def
  assume "server_enabled (Do_listen options) ?sv"
  then have "server_inv (snd (server_listen options ?sv))"
    using server.preserved [OF sv server_stepI] by (metis server_do.simps(1))
  then show "system_inv (system_listen endpoint options s)"
    unfolding system_listen_def
    by (rule register_step [OF inv])
      (auto simp: defs fresh_acceptor_def held_def listener_made [unfolded fresh_acceptor_def] split: sum.splits)
next
  let ?sv = "sy_server s"
  have sv: "server_inv ?sv" using inv by (simp add: system_inv_def)
  note defs = server_listen_def server_bind_def next_listener_id_def add_listener_def Let_def
  assume "server_enabled (Do_bind options) ?sv"
  then have "server_inv (snd (server_bind options ?sv))"
    using server.preserved [OF sv server_stepI] by (metis server_do.simps(2))
  then show "system_inv (system_bind endpoint options s)"
    unfolding system_bind_def
    by (rule register_step [OF inv])
      (auto simp: defs fresh_socket_listener_def socket_held_def listener_made [unfolded fresh_socket_listener_def] split: sum.splits)
qed

text \<open>A system refines its server: what the listeners do to it is what the server expects of them.\<close>

fun server_part :: "'h system_action \<Rightarrow> 'h server_action list" where
  "server_part (Sys_listen endpoint options) = [Do_listen options]"
| "server_part (Sys_bind endpoint options) = [Do_bind options]"
| "server_part (Sys_server x r) = [x]"
| "server_part (Sys_deliver child ec) = [Do_complete_child child ec]"
| "server_part _ = []"

lemma own_submit:
  "is_own_acceptor x \<Longrightarrow> children (mset (submitted x)) = {#}"
  "is_own_socket y \<Longrightarrow> children (socket_submitted (y, r)) = {#}"
  by (cases x; auto elim!: is_user.elims) (cases y; auto elim!: is_user.elims)

lemma listener_step:
  assumes inv: "system_inv s" and k: "k < length (sy_nodes s)" and n: "node_step (sy_nodes s ! k) M n"
    and own: "children M = {#}"
  shows "system_inv (settle k n s)" "sy_server (settle k n s) = sy_server s"
  using settle_step [OF _ k n] inv own by (simp_all add: system_inv_def)

lemma system_step:
  assumes inv: "system_inv s" and en: "system_enabled x s"
  shows "system_inv (system_do x s) \<and>
    server_run (server_part x) (sy_server s) = Some (sy_server (system_do x s))"
proof (cases x)
  case (Sys_listen endpoint options)
  with system_listen_step(1) [OF inv] en show ?thesis
    by (simp add: server_run_def system_listen_def register_def)
next
  case (Sys_bind endpoint options)
  with system_listen_step(2) [OF inv] en show ?thesis
    by (simp add: server_run_def system_bind_def register_def)
next
  case (Sys_server y r)
  with serve_step [OF inv, of y r] en show ?thesis by (simp add: server_run_def)
next
  case (Sys_acceptor k y r)
  with en obtain l where l: "sy_nodes s ! k = Accepting l" and k: "k < length (sy_nodes s)"
    and y: "is_own_acceptor y" "asio_throws_errors r" "acceptor_enabled y r l"
    by (auto split: listener_node.splits)
  have "acceptor_inv l" using inv k l by (force simp: system_inv_def nodes_ok_def dest!: nth_mem)
  from listener_step [OF inv k _ own_submit(1) [OF y(1)], unfolded l, OF acceptor_node_step [OF this y(2,3)]]
  show ?thesis using Sys_acceptor l by (simp add: server_run_def)
next
  case (Sys_socket k y r)
  with en obtain l where l: "sy_nodes s ! k = Bound l" and k: "k < length (sy_nodes s)"
    and y: "is_own_socket y" "socket_enabled (y, r) l"
    by (auto split: listener_node.splits)
  have "socket_inv l" using inv k l by (force simp: system_inv_def nodes_ok_def dest!: nth_mem)
  from listener_step [OF inv k _ own_submit(2) [OF y(1)], unfolded l, OF socket_node_step [OF this y(2)]]
  show ?thesis using Sys_socket l by (simp add: server_run_def)
next
  case (Sys_deliver child ec)
  with deliver_step [OF inv] en show ?thesis by (simp add: server_run_def del: server_do.simps system_do.simps)
qed

lemma system_new: "system_inv new_system"
proof -
  have "server_inv (new_server :: 'h server)" by (rule server.base) (rule refl)
  then show ?thesis
    by (simp add: system_inv_def new_system_def server_in_range_def groups_ok_def stops_ok_def nodes_ok_def
        under_way_def node_children_def new_server_def)
qed

lemma system_refines_server:
  assumes "system_run script s = Some t" and "system_inv s"
  shows "system_inv t \<and> server_run (concat (map server_part script)) (sy_server s) = Some (sy_server t)"
  using assms
proof (induction script arbitrary: s)
  case (Cons x script)
  then have en: "system_enabled x s" and rest: "system_run script (system_do x s) = Some t"
    by (auto simp: system_run_def split: if_splits)
  note step = system_step [OF Cons.prems(2) en]
  have "server_run (server_part x @ concat (map server_part script)) (sy_server s) =
      server_run (concat (map server_part script)) (sy_server (system_do x s))"
    using step unfolding server_run_def by (intro run_script_append) simp
  with Cons.IH [OF rest] step show ?case by simp
qed (simp add: system_run_def server_run_def)

lemma server_part_submitted:
  "sum_list (map server_submitted (concat (map server_part script))) = sum_list (map system_submitted script)"
proof (induction script)
  case (Cons x script)
  then show ?case by (cases x) simp_all
qed simp

text \<open>A listener that is stopped, with no start or wait posted, holds no handler.\<close>

fun node_quiet :: "listener_node \<Rightarrow> bool" where
  "node_quiet (Accepting l) \<longleftrightarrow> m_state l = listener_stopped \<and> (\<forall>t \<in> set (pending l). task_handlers t = [])"
| "node_quiet (Bound l) \<longleftrightarrow> m_state l = listener_stopped \<and> (\<forall>t \<in> set (pending l). socket_task_handlers t = [])"

lemma node_quiet_held: "node_inv n \<Longrightarrow> node_quiet n \<Longrightarrow> node_held n = {#}"
  by (cases n) (simp_all add: held_def socket_held_def acceptor_inv_def lifecycle_ok_def socket_inv_def)

lemma node_children_none: "\<forall>n \<in> set ns. node_held n = {#} \<Longrightarrow> node_children ns = {#}"
  by (induction ns) (simp_all add: node_children_def)

lemma system_at_rest:
  assumes inv: "system_inv s" and "concat (sv_threads (sy_server s)) = []" and "sy_arriving s = []"
    and quiet: "\<forall>n \<in> set (sy_nodes s). node_quiet n"
  shows "server_held (instrs (sy_server s)) (sy_server s) = {#}"
proof -
  have "\<forall>n \<in> set (sy_nodes s). node_held n = {#}"
    using quiet inv node_quiet_held by (auto simp: system_inv_def nodes_ok_def)
  then have "node_children (sy_nodes s) = {#}" by (rule node_children_none)
  with inv assms(3) have "sv_children (sy_server s) = []" by (simp add: system_inv_def under_way_def)
  with inv assms(2) show ?thesis unfolding system_inv_def by (blast intro: quiescent_held)
qed

lemma system_balance:
  assumes "system_run script new_system = Some s"
  shows "completed_handlers (sy_server s) + server_held (instrs (sy_server s)) (sy_server s) =
    sum_list (map system_submitted script)"
proof -
  have "server_run (concat (map server_part script)) new_server = Some (sy_server s)"
    using system_refines_server [OF assms system_new] by (simp add: new_system_def)
  from server_run_balance(1) [OF this] show ?thesis by (simp add: server_part_submitted)
qed

text \<open>
  C5: a server and its listeners work together.  In every run of a server with any number of
  accepting and bound listeners, under any interleaving, the child operations the server
  counts as outstanding are exactly those that a listener holds or whose completion is on its
  way back, so that the run is one of the server alone and every completion a listener
  delivers is one the server expects.  The handlers passed to the server are those it has
  completed and those it holds; when its threads have returned, nothing is on its way and every
  listener is stopped with no start or wait posted, each of them has completed exactly once.
\<close>

theorem system_operations_complete:
  assumes "system_run script new_system = Some s"
  shows "server_run (concat (map server_part script)) new_server = Some (sy_server s)
    \<and> mset (sv_children (sy_server s)) =
        node_children (sy_nodes s) + mset (map fst (sy_arriving s))
    \<and> completed_handlers (sy_server s) + server_held (instrs (sy_server s)) (sy_server s) =
        sum_list (map system_submitted script)
    \<and> (concat (sv_threads (sy_server s)) = [] \<and> sy_arriving s = [] \<and> (\<forall>n \<in> set (sy_nodes s). node_quiet n) \<longrightarrow>
        completed_handlers (sy_server s) = sum_list (map system_submitted script))"
proof -
  have inv: "system_inv s"
    and run: "server_run (concat (map server_part script)) new_server = Some (sy_server s)"
    using system_refines_server [OF assms system_new] by (simp_all add: new_system_def)
  moreover have "mset (sv_children (sy_server s)) = node_children (sy_nodes s) + mset (map fst (sy_arriving s))"
    using inv by (simp add: system_inv_def under_way_def)
  ultimately show ?thesis using system_balance [OF assms] system_at_rest [OF inv] by auto
qed

text \<open>An example: a server with one accepting listener is started, awaited and stopped.\<close>

definition serve_times :: "nat \<Rightarrow> nat \<Rightarrow> nat system_action list" where
  "serve_times n j = replicate n (Sys_server (Do_run j quiet_env) all_succeed)"

definition example_system_start :: "nat system_action list" where
  "example_system_start =
     [Sys_listen (path_endpoint ''/run/s'') example_options, Sys_server (Do_async_start 1 True) all_succeed] @
     serve_times 8 0 @
     [Sys_acceptor 0 (Run (Start_task 0 (Child (0, 0)))) all_succeed, Sys_deliver (0, 0) no_error] @
     serve_times 2 1"

definition example_system :: "nat system_action list" where
  "example_system = example_system_start @
     [Sys_server (Do_async_wait 2 True) all_succeed] @ serve_times 8 2 @
     [Sys_acceptor 0 (Run (Wait_task 1 1 (Child (1, 0)))) all_succeed, Sys_server Do_request_stop all_succeed] @
     serve_times 2 3 @
     [Sys_acceptor 0 (Run Stop_task) all_succeed,
      Sys_acceptor 0 (Run Accept_handler) (all_succeed\<lparr> r_ec := operation_aborted \<rparr>),
      Sys_deliver (1, 0) no_error] @
     serve_times 2 4"

theorem system_operations_complete_witness:
  "\<exists>s. system_run example_system new_system = Some s \<and> completed_handlers (sy_server s) = {# 1, 2 #}"
proof -
  define s where "s = the (system_run example_system new_system)"
  have "system_run example_system new_system \<noteq> None" by code_simp
  then have run: "system_run example_system new_system = Some s" by (auto simp: s_def)
  have "concat (sv_threads (sy_server s)) = []" "sy_arriving s = []" "\<forall>n \<in> set (sy_nodes s). node_quiet n"
    unfolding s_def by code_simp+
  with system_operations_complete [OF run]
  have "completed_handlers (sy_server s) = sum_list (map system_submitted example_system)" by blast
  moreover have "sum_list (map system_submitted example_system) = {# 1, 2 #}" by code_simp
  ultimately show ?thesis using run by auto
qed

end
