(* ===== verification/Serveza_Socket_Session.thy ===== *)
theory Serveza_Socket_Session
  imports Serveza_Socket_Inv
begin

text \<open>
  The session of the bound listener, when the listener outlives it and Asio accepts the posts
  and timer waits that the code does not guard.
\<close>

definition socket_answers :: "asio \<Rightarrow> bool" where
  "socket_answers r \<longleftrightarrow> (\<forall>a. r_notify_owner r a) \<and> \<not> r_start_post r \<and> r_shutdown_timer r = None"

inductive socket_live_step :: "'h socket_listener \<Rightarrow> 'h socket_listener \<Rightarrow> bool" where
  socket_live_stepI:
    "socket_enabled (x, r) l \<Longrightarrow> socket_answers r \<Longrightarrow> socket_live_step l (socket_do (x, r) l)"

inductive_cases socket_live_stepE: "socket_live_step l l'"

fun is_notice :: "'h socket_task \<Rightarrow> bool" where
  "is_notice (Sock_finished_task ec ep) = True"
| "is_notice _ = False"

fun sess_of :: "'h socket_task \<Rightarrow> nat list" where
  "sess_of (Sess_start a) = [a]"
| "sess_of (Sess_cancel a) = [a]"
| "sess_of (Sess_force a) = [a]"
| "sess_of (Sess_handler a) = [a]"
| "sess_of _ = []"

definition notices :: "'h socket_listener \<Rightarrow> nat" where
  "notices l = length (filter is_notice (pending l))"

definition sess_open :: "'h socket_listener \<Rightarrow> nat \<Rightarrow> bool" where
  "sess_open l a \<longleftrightarrow> a < length (sess l) \<and> \<not> conn_finished (sess l ! a)"

definition sess_driven :: "'h socket_listener \<Rightarrow> nat \<Rightarrow> bool" where
  "sess_driven l a \<longleftrightarrow>
     Sess_start a \<in> set (pending l) \<or> Sess_handler a \<in> set (pending l) \<or>
     Sess_force a \<in> set (pending l)"

text \<open>\<open>A\<close> is the session whose function object is running.\<close>

definition sess_ok :: "nat set \<Rightarrow> 'h socket_listener \<Rightarrow> bool" where
  "sess_ok A l \<longleftrightarrow>
     (\<forall>t \<in> set (pending l). set (sess_of t) \<subseteq> {..<length (sess l)}) \<and>
     (\<forall>a. m_session l = Some a \<longrightarrow> a < length (sess l)) \<and>
     (\<forall>a. sess_open l a \<longrightarrow> m_session l = Some a \<and> (a \<in> A \<or> sess_driven l a)) \<and>
     notices l = (if \<exists>a. m_session l = Some a \<and> \<not> sess_open l a then 1 else 0)"

definition sess_forced :: "nat set \<Rightarrow> 'h socket_listener \<Rightarrow> bool" where
  "sess_forced A l \<longleftrightarrow>
     (m_state l = listener_stopping \<longrightarrow>
      (\<exists>d. Sock_shutdown_handler False d \<in> set (pending l)) \<or>
      (\<forall>a. sess_open l a \<longrightarrow> a \<in> A \<or> Sess_force a \<in> set (pending l)))"

definition sess_inv :: "'h socket_listener \<Rightarrow> bool" where
  "sess_inv l \<longleftrightarrow> socket_inv l \<and> sess_ok {} l \<and> sess_forced {} l"

subsection \<open>Operations on sessions\<close>

lemma sess_ok_post:
  assumes "sess_ok A l" and "\<not> is_notice t" and "set (sess_of t) \<subseteq> {..<length (sess l)}"
  shows "sess_ok A (post t l)"
proof -
  have "notices (post t l) = notices l" and "sess_open (post t l) = sess_open l"
    and "sess_driven l a \<Longrightarrow> sess_driven (post t l) a" for a
    using assms(2) by (auto simp: notices_def sess_open_def sess_driven_def post_def)
  moreover have "sess (post t l) = sess l" "m_session (post t l) = m_session l"
    "set (pending (post t l)) = insert t (set (pending l))"
    by (simp_all add: post_def)
  ultimately show ?thesis using assms(1,3) unfolding sess_ok_def by auto
qed

lemma sess_forced_post: "sess_forced A l \<Longrightarrow> sess_forced A (post t l)"
  by (auto simp: sess_forced_def post_def sess_open_def)

lemma sess_ok_notify:
  assumes ok: "sess_ok A l" and a: "a < length (sess l)" and r: "r_notify_owner r a"
    and res: "snd res = None \<and> conn_finished (fst res) = conn_finished (sess l ! a) \<or>
      (\<exists>info ec ep. snd res = Some (info, ec, ep) \<and>
        \<not> conn_finished (sess l ! a) \<and> conn_finished (fst res))"
  shows "sess_ok A (sess_notify a res r l)"
proof -
  let ?l = "sess_notify a res r l"
  have opens: "sess_open ?l b = (sess_open l b \<and> (b = a \<longrightarrow> snd res = None))" for b
    using res a by (cases "b = a") (auto simp: sess_open_def sess_notify_def)
  have pend: "set (pending l) \<subseteq> set (pending ?l)" "t \<in> set (pending ?l) \<Longrightarrow> t \<in> set (pending l) \<or> sess_of t = []"
    and len: "length (sess ?l) = length (sess l)" and cur: "m_session ?l = m_session l" for t
    by (auto simp: sess_notify_def split: option.splits if_splits)
  have count: "notices ?l = notices l + (if snd res = None then 0 else 1)"
    using res r by (auto simp: notices_def sess_notify_def)
  have "snd res = None \<or> sess_open l a" using res a by (auto simp: sess_open_def)
  then have "notices ?l = (if \<exists>b. m_session ?l = Some b \<and> \<not> sess_open ?l b then 1 else 0)"
    using ok unfolding sess_ok_def opens cur count by (cases "snd res") auto
  moreover have "sess_driven l b \<Longrightarrow> sess_driven ?l b" for b
    using pend(1) unfolding sess_driven_def by blast
  moreover have "set (sess_of t) \<subseteq> {..<length (sess ?l)}" if "t \<in> set (pending ?l)" for t
    using that ok pend(2) [OF that] unfolding sess_ok_def len by auto
  ultimately show ?thesis
    using ok unfolding sess_ok_def len cur opens by blast
qed

lemma sess_forced_notify:
  assumes "sess_forced A l" and "conn_finished (sess l ! a) \<Longrightarrow> conn_finished (fst res)"
  shows "sess_forced A (sess_notify a res r l)"
proof -
  have "sess_open l b" if "sess_open (sess_notify a res r l) b" for b
    using that assms(2) by (cases "b = a") (auto simp: sess_open_def sess_notify_def)
  then show ?thesis
    using assms(1) unfolding sess_forced_def by (auto simp: sess_notify_def)
qed

lemma sess_ok_finish:
  "sess_ok A l \<Longrightarrow> a < length (sess l) \<Longrightarrow> r_notify_owner r a \<Longrightarrow> sess_ok A (sess_finish a ec ep r l)"
  unfolding sess_finish_def by (rule sess_ok_notify) (auto simp: connection_finish_result)

lemma sess_forced_finish: "sess_forced A l \<Longrightarrow> sess_forced A (sess_finish a ec ep r l)"
  unfolding sess_finish_def by (rule sess_forced_notify) (simp_all add: connection_finish_result)

lemma finish_closes: "\<not> sess_open (sess_finish a ec ep r l) a"
  by (auto simp: sess_open_def sess_finish_def sess_notify_def connection_finish_result)

lemma complete_closes: "\<not> sess_open (sess_notify a (connection_complete ec (sess l ! a)) r l) a"
  by (auto simp: sess_open_def sess_notify_def connection_complete_result)

lemma force_close_effect:
  assumes "sess_ok A l" and "a < length (sess l)" and "r_notify_owner r a"
  shows "sess_ok A (sess_force_close r a l)"
    and "\<not> sess_open (sess_force_close r a l) a \<or> Sess_force a \<in> set (pending (sess_force_close r a l))"
  using assms finish_closes [of a operation_aborted None r l]
  by (auto simp: sess_force_close_def sess_ok_finish sess_ok_post) (simp add: post_def)

lemma sess_forced_force: "sess_forced A l \<Longrightarrow> sess_forced A (sess_force_close r a l)"
  by (simp add: sess_force_close_def sess_forced_finish sess_forced_post)

text \<open>What the two parts depend on: the function objects of sessions and the notifications.\<close>

definition keyed :: "'h socket_task \<Rightarrow> bool" where
  "keyed t \<longleftrightarrow> is_notice t \<or> sess_of t \<noteq> []"

lemma notices_keyed: "notices l = length (filter is_notice (filter keyed (pending l)))"
  by (auto simp: notices_def keyed_def filter_filter intro!: arg_cong [where f = length] filter_cong)

lemma sess_driven_keyed: "sess_driven l a \<longleftrightarrow>
    (\<exists>t \<in> set (filter keyed (pending l)). t = Sess_start a \<or> t = Sess_handler a \<or> t = Sess_force a)"
  by (auto simp: sess_driven_def keyed_def)

lemma range_keyed: "(\<forall>t \<in> set (pending l). set (sess_of t) \<subseteq> B) \<longleftrightarrow>
    (\<forall>t \<in> set (filter keyed (pending l)). set (sess_of t) \<subseteq> B)"
  by (auto simp: keyed_def)

lemma sess_ok_frame:
  assumes "m_session l' = m_session l" "sess l' = sess l"
    and "filter keyed (pending l') = filter keyed (pending l)"
  shows "sess_ok A l' = sess_ok A l"
  unfolding sess_ok_def sess_open_def range_keyed notices_keyed sess_driven_keyed assms by (rule refl)

lemma keyed_cancel [simp]: "filter keyed (map cancel_sock_wait ts) = filter keyed ts"
proof (induction ts)
  case (Cons t ts)
  then show ?case by (cases t) (auto simp: keyed_def)
qed simp

lemma sess_ok_helpers [simp]:
  "sess_ok A (emit type info ec ep l) = sess_ok A l"
  "sess_ok A (record_diagnostic ec ep l) = sess_ok A l"
  "sess_ok A (transition_to st l) = sess_ok A l"
  "sess_ok A (set_stop_reason reason l) = sess_ok A l"
  "sess_ok A (complete h ec l) = sess_ok A l"
  "sess_ok A (clear_slot c l) = sess_ok A l"
  "sess_ok A (cancel_sock_timer l) = sess_ok A l"
  "sess_ok A (socket_enter_starting l) = sess_ok A l"
  "sess_ok A (l\<lparr> m_waiters := ws \<rparr>) = sess_ok A l"
  "sess_ok A (l\<lparr> m_endpoint := e \<rparr>) = sess_ok A l"
  "sess_ok A (l\<lparr> flags := fs \<rparr>) = sess_ok A l"
  "sess_ok A (l\<lparr> slots := ss \<rparr>) = sess_ok A l"
  "sess_ok A (l\<lparr> m_next_waiter_id := i \<rparr>) = sess_ok A l"
  by (rule sess_ok_frame; simp add: listener_helpers cancel_sock_timer_def)+

lemma sess_ok_socket_finish [simp]: "sess_ok A (socket_finish ec reason l) = sess_ok A l"
proof (cases "m_state l = listener_stopped")
  case False
  then show ?thesis by (intro sess_ok_frame) (simp_all add: socket_finish_fields)
qed (simp add: socket_finish_def)

lemma sess_forced_frame:
  "m_state l' = m_state l \<Longrightarrow> sess l' = sess l \<Longrightarrow> pending l' = pending l \<Longrightarrow>
     sess_forced A l' = sess_forced A l"
  by (simp add: sess_forced_def sess_open_def)

lemma sess_forced_helpers [simp]:
  "sess_forced A (emit type info ec ep l) = sess_forced A l"
  "sess_forced A (record_diagnostic ec ep l) = sess_forced A l"
  "sess_forced A (set_stop_reason reason l) = sess_forced A l"
  "sess_forced A (complete h ec l) = sess_forced A l"
  "sess_forced A (clear_slot c l) = sess_forced A l"
  "sess_forced A (l\<lparr> m_waiters := ws \<rparr>) = sess_forced A l"
  "sess_forced A (l\<lparr> flags := fs \<rparr>) = sess_forced A l"
  "sess_forced A (l\<lparr> slots := ss \<rparr>) = sess_forced A l"
  "sess_forced A (l\<lparr> m_next_waiter_id := i \<rparr>) = sess_forced A l"
  by (rule sess_forced_frame; simp add: listener_helpers)+

lemma sess_forced_other [simp]: "m_state l \<noteq> listener_stopping \<Longrightarrow> sess_forced A l"
  by (simp add: sess_forced_def)

lemma sess_forced_finish_state [simp]: "sess_forced A (socket_finish ec reason l)"
proof (cases "m_state l = listener_stopped")
  case False
  then show ?thesis by (intro sess_forced_other) (simp add: socket_finish_fields)
qed (simp add: socket_finish_def)

lemma sess_ok_maybe_finish [simp]: "sess_ok A (socket_maybe_finish l) = sess_ok A l"
  by (simp add: socket_maybe_finish_def)

lemma sess_forced_maybe_finish: "sess_forced A l \<Longrightarrow> sess_forced A (socket_maybe_finish l)"
  by (simp add: socket_maybe_finish_def)

subsection \<open>Function objects that run\<close>

fun drives :: "'h socket_task \<Rightarrow> nat set" where
  "drives (Sess_start a) = {a}"
| "drives (Sess_force a) = {a}"
| "drives (Sess_handler a) = {a}"
| "drives _ = {}"

fun forces :: "'h socket_task \<Rightarrow> nat set" where
  "forces (Sess_force a) = {a}"
| "forces _ = {}"

lemma sess_driven_drives: "sess_driven l a \<longleftrightarrow> (\<exists>t \<in> set (pending l). a \<in> drives t)"
proof
  assume "\<exists>t \<in> set (pending l). a \<in> drives t"
  then obtain t where t: "t \<in> set (pending l)" "a \<in> drives t" by blast
  have "t = Sess_start a \<or> t = Sess_handler a \<or> t = Sess_force a" using t(2) by (cases t) simp_all
  with t(1) show "sess_driven l a" unfolding sess_driven_def by blast
qed (auto simp: sess_driven_def intro: bexI [of _ "Sess_start a"] bexI [of _ "Sess_handler a"]
    bexI [of _ "Sess_force a"])

lemma sess_ok_taken:
  assumes ok: "sess_ok {} l" and t: "t \<in> set (pending l)" and "\<not> is_notice t"
  shows "sess_ok (drives t) (l\<lparr> pending := remove1 t (pending l) \<rparr>)"
proof -
  let ?l = "l\<lparr> pending := remove1 t (pending l) \<rparr>"
  have "notices ?l = notices l"
    using assms(3) by (simp add: notices_def filter_remove1 remove1_idem)
  moreover have "sess_open ?l = sess_open l" by (simp add: sess_open_def fun_eq_iff)
  moreover have "a \<in> drives t \<or> sess_driven ?l a" if "sess_driven l a" for a
    using that in_remove1 [of _ "pending l" t] unfolding sess_driven_drives by fastforce
  moreover have "set (pending ?l) \<subseteq> set (pending l)" by (simp add: set_remove1_subset)
  ultimately show ?thesis using ok unfolding sess_ok_def by (auto simp: subset_iff)
qed

lemma sess_forced_taken:
  assumes "sess_forced {} l" and "t \<in> set (pending l)" and "\<And>d. t \<noteq> Sock_shutdown_handler False d"
  shows "sess_forced (forces t) (l\<lparr> pending := remove1 t (pending l) \<rparr>)"
proof -
  have "Sock_shutdown_handler False d \<in> set (remove1 t (pending l))"
    if "Sock_shutdown_handler False d \<in> set (pending l)" for d
    using in_remove1 [OF that, of t] assms(3) by blast
  moreover have "a \<in> forces t \<or> Sess_force a \<in> set (remove1 t (pending l))"
    if "Sess_force a \<in> set (pending l)" for a
    using in_remove1 [OF that, of t] by (elim disjE) auto
  ultimately show ?thesis
    using assms(1) unfolding sess_forced_def sess_open_def by auto
qed

lemma sess_closed:
  assumes "\<not> sess_open l a"
  shows "sess_ok {a} l \<Longrightarrow> sess_ok {} l" and "sess_forced {a} l \<Longrightarrow> sess_forced {} l"
  using assms unfolding sess_ok_def sess_forced_def by auto

lemma sess_ok_driven: "sess_ok {a} l \<Longrightarrow> sess_driven l a \<Longrightarrow> sess_ok {} l"
  unfolding sess_ok_def by auto

lemma sess_forced_mono: "sess_forced {} l \<Longrightarrow> sess_forced A l"
  unfolding sess_forced_def by auto

lemma sess_ok_range: "sess_ok A l \<Longrightarrow> t \<in> set (pending l) \<Longrightarrow> set (sess_of t) \<subseteq> {..<length (sess l)}"
  unfolding sess_ok_def by blast

subsection \<open>Handlers\<close>

abbreviation sess_both :: "'h socket_listener \<Rightarrow> bool" where
  "sess_both l \<equiv> sess_ok {} l \<and> sess_forced {} l"

lemma sess_ok_session_range: "sess_ok A l \<Longrightarrow> m_session l = Some a \<Longrightarrow> a < length (sess l)"
  unfolding sess_ok_def by blast

lemma sess_ok_request_stop:
  assumes "sess_ok {} l" and "a < length (sess l)" and "socket_answers r"
  shows "sess_ok {} (sess_request_stop r a l)"
  using assms force_close_effect(1) [OF assms(1,2)]
  by (simp add: sess_request_stop_def sess_ok_post socket_answers_def)

lemma sess_both_stop_on_strand:
  fixes l :: "'h socket_listener"
  assumes ok: "sess_both l" and r: "socket_answers r"
  shows "sess_both (socket_stop_on_strand r l)"
proof -
  let ?l = "transition_to listener_stopping (set_stop_reason requested l)"
  have len: "sess ?l = sess l" by (simp add: transition_to_def set_stop_reason_def emit_def)
  have "sess_both (socket_stop_session r a ?l)" if a: "m_session l = Some a" for a
  proof -
    define l1 where "l1 = cancel_sock_timer (sess_request_stop r a ?l)"
    define t :: "'h socket_task" where
      "t = Sock_shutdown_handler False (shutdown_grace_period (m_options (sess_request_stop r a ?l)))"
    have "sess_ok {} l1"
      unfolding l1_def using ok a r sess_ok_request_stop [of ?l a r] sess_ok_session_range [of "{}" l a]
      by (simp add: len)
    then have "sess_ok {} (post t l1)" by (rule sess_ok_post) (simp_all add: t_def)
    moreover have "sess_forced {} (post t l1)" by (auto simp: sess_forced_def t_def post_def)
    ultimately show ?thesis
      using r by (simp add: socket_stop_session_def Let_def socket_answers_def sess_forced_maybe_finish l1_def t_def)
  qed
  moreover have "sess_forced {} (socket_maybe_finish ?l)" if "m_session l = None"
    using that by (simp add: socket_maybe_finish_def)
  ultimately show ?thesis
    using ok by (auto simp: socket_stop_on_strand_def Let_def split: option.split)
qed

lemma sess_force_all:
  assumes "sess_ok {} l" and "m_session l = Some a" and "socket_answers r"
  shows "sess_both (sess_force_close r a l)"
proof -
  have r: "r_notify_owner r a" using assms(3) by (simp add: socket_answers_def)
  note range = sess_ok_session_range [OF assms(1,2)]
  let ?l = "sess_force_close r a l"
  have ok: "sess_ok {} ?l" using force_close_effect(1) [OF assms(1) range r] .
  have "m_session ?l = Some a" using assms(2) sess_frames(3) [of r a l] by simp
  then have "b = a" if "sess_open ?l b" for b using ok that unfolding sess_ok_def by auto
  then have "sess_forced {} ?l"
    using force_close_effect(2) [OF assms(1) range r] unfolding sess_forced_def by auto
  with ok show ?thesis by simp
qed

lemma sess_both_shutdown_expired:
  assumes "sess_ok {} l" and "failed ec \<longrightarrow> sess_forced {} l" and "socket_answers r"
  shows "sess_both (socket_shutdown_expired ec r l)"
proof (cases "failed ec \<or> m_session l = None")
  case True
  moreover have "sess_forced {} l" if "m_session l = None"
    using that assms(1) unfolding sess_ok_def sess_forced_def by simp
  ultimately show ?thesis
    using assms by (auto simp: socket_shutdown_expired_def Let_def)
next
  case False
  then obtain a where "m_session l = Some a" by auto
  with False assms show ?thesis
    by (simp add: socket_shutdown_expired_def Let_def sess_force_all)
qed

lemma sess_ok_no_session:
  "m_session l = None \<Longrightarrow> sess_ok A l \<longleftrightarrow>
     (\<forall>t \<in> set (pending l). set (sess_of t) \<subseteq> {..<length (sess l)}) \<and> (\<forall>a. \<not> sess_open l a) \<and>
     notices l = 0"
  by (auto simp: sess_ok_def)

lemma sess_both_session_finished:
  assumes ok: "sess_ok {} l" and t: "Sock_finished_task ec ep \<in> set (pending l)"
  shows "sess_both (socket_session_finished ec ep
    (l\<lparr> pending := remove1 (Sock_finished_task ec ep) (pending l) \<rparr>))"
proof -
  let ?t = "Sock_finished_task ec ep"
  let ?l = "l\<lparr> pending := remove1 ?t (pending l), m_session := None, m_active_sessions := 0 \<rparr>"
  have "?t \<in> set (filter is_notice (pending l))" using t by simp
  then have "0 < notices l" unfolding notices_def by (metis length_pos_if_in_set)
  then have one: "notices l = 1" and closed: "\<exists>a. m_session l = Some a \<and> \<not> sess_open l a"
    using ok unfolding sess_ok_def by (auto split: if_splits)
  have "notices ?l = 0"
    using one t by (simp add: notices_def filter_remove1 length_remove1)
  moreover have "\<not> sess_open ?l a" for a
  proof -
    have "sess_open l a \<Longrightarrow> m_session l = Some a" using ok unfolding sess_ok_def by blast
    then have "\<not> sess_open l a" using closed by auto
    then show ?thesis by (simp add: sess_open_def)
  qed
  moreover have "set (sess_of u) \<subseteq> {..<length (sess ?l)}" if "u \<in> set (pending ?l)" for u
    using that sess_ok_range [OF ok] set_remove1_subset [of ?t "pending l"] by auto
  ultimately have ok': "sess_ok {} ?l" by (subst sess_ok_no_session) auto
  have "sess_forced {} ?l" using ok' unfolding sess_ok_def sess_forced_def by auto
  then show ?thesis
    using ok' by (auto simp: socket_session_finished_def socket_report_finished_def Let_def
        intro!: sess_forced_maybe_finish)
qed

lemma sess_ok_run_session:
  assumes ok: "sess_ok {} l" and none: "m_session l = None" and r: "socket_answers r"
  shows "sess_ok {} (socket_run_session h r l)"
proof -
  let ?l = "socket_run_session h r l"
  let ?c = "new_connection (m_id l) \<lparr> ci_id = 0, ci_local_endpoint = m_endpoint l, ci_remote_endpoint = [] \<rparr>"
  have l': "pending ?l = pending l @ [Sess_start (length (sess l))]" "m_session ?l = Some (length (sess l))"
    "sess ?l = sess l @ [?c]"
    using r by (simp_all add: socket_run_session_def Let_def listener_helpers socket_answers_def)
  have "\<not> conn_finished ?c" by (simp add: new_connection_def)
  then have "sess_open ?l a = (a = length (sess l))" for a
    using ok none unfolding sess_open_def l'
    by (auto simp: sess_ok_no_session nth_append sess_open_def less_Suc_eq)
  moreover have "notices ?l = notices l" by (simp add: notices_def l')
  moreover have "set (sess_of t) \<subseteq> {..<length (sess ?l)}" if "t \<in> set (pending ?l)" for t
    using that sess_ok_range [OF ok, of t] by (fastforce simp: l')
  ultimately show ?thesis
    using ok none unfolding sess_ok_def by (auto simp: l' sess_driven_def)
qed

lemma sess_both_start_on_strand:
  assumes ok: "sess_both l" and inv: "socket_inv l" and r: "socket_answers r"
  shows "sess_both (socket_start_on_strand h r l)"
proof (cases "m_state l = listener_idle \<or> m_state l = listener_stopped")
  case True
  define l1 where "l1 = (\<lambda>e. (socket_enter_starting l)\<lparr> m_endpoint := e \<rparr>)"
  have none: "m_session l = None" using True inv by (auto simp: socket_inv_def)
  have "sess_ok {} (socket_run_session h r (l1 e))" for e
    by (rule sess_ok_run_session) (use ok none r in \<open>simp_all add: l1_def\<close>)
  moreover have "m_state (socket_run_session h r (l1 e)) = listener_running" for e
    using r by (simp add: socket_run_session_def Let_def socket_answers_def)
  ultimately show ?thesis
    using True ok
    by (auto simp: socket_start_on_strand_def Let_def socket_factory_failed_def l1_def split: option.split)
qed (use ok in \<open>auto simp: socket_start_on_strand_def\<close>)

lemma sess_both_session_task:
  assumes ok: "sess_ok {a} l" and forced: "sess_forced {a} l" and a: "a < length (sess l)"
    and r: "socket_answers r"
  shows "sess_both (sess_finish a ec ep r l)"
    and "sess_both (sess_notify a (connection_complete ec (sess l ! a)) r l)"
proof -
  have own: "r_notify_owner r a" using r by (simp add: socket_answers_def)
  show "sess_both (sess_finish a ec ep r l)"
    using sess_closed [OF finish_closes] sess_ok_finish [OF ok a own] sess_forced_finish [OF forced] by blast
  have "sess_ok {a} (sess_notify a (connection_complete ec (sess l ! a)) r l)"
    by (rule sess_ok_notify [OF ok a own]) (auto simp: connection_complete_result)
  moreover have "sess_forced {a} (sess_notify a (connection_complete ec (sess l ! a)) r l)"
    by (rule sess_forced_notify [OF forced]) (simp add: connection_complete_result)
  ultimately show "sess_both (sess_notify a (connection_complete ec (sess l ! a)) r l)"
    using sess_closed [OF complete_closes] by blast
qed

lemma sess_both_start:
  assumes ok: "sess_ok {a} l" and forced: "sess_forced {} l" and a: "a < length (sess l)"
    and r: "socket_answers r"
  shows "sess_both (sess_start a r l)"
proof -
  let ?l = "post (Sess_handler a) l"
  have "sess_ok {a} ?l" using ok by (rule sess_ok_post) (simp_all add: a)
  then have both: "sess_both ?l"
    using sess_ok_driven [of a ?l] sess_forced_post [OF forced] by (simp add: sess_driven_def post_def)
  have "sess_both (sess_finish a ec ep r ?l)" for ec ep
    using both a r sess_ok_finish [of "{}" ?l a r] sess_forced_finish [of "{}" ?l]
    by (simp add: socket_answers_def post_def)
  with both show ?thesis by (simp add: sess_start_def Let_def split: option.split)
qed

lemma finished_update:
  "conn_finished c = conn_finished (cs ! a) \<Longrightarrow> conn_finished (cs[a := c] ! b) = conn_finished (cs ! b)"
  by (cases "a < length cs"; cases "b = a") (simp_all add: list_update_beyond)

lemma sess_ok_update:
  assumes "conn_finished c = conn_finished (sess l ! a)"
  shows "sess_ok A (l\<lparr> sess := (sess l)[a := c] \<rparr>) = sess_ok A l"
    and "sess_forced A (l\<lparr> sess := (sess l)[a := c] \<rparr>) = sess_forced A l"
proof -
  let ?l = "l\<lparr> sess := (sess l)[a := c] \<rparr>"
  have eq: "sess_open ?l = sess_open l" "sess_driven ?l = sess_driven l" "notices ?l = notices l"
    "length (sess ?l) = length (sess l)" "m_session ?l = m_session l" "pending ?l = pending l"
    "m_state ?l = m_state l"
    using assms by (auto simp: sess_open_def sess_driven_def notices_def fun_eq_iff finished_update)
  show "sess_ok A ?l = sess_ok A l" unfolding sess_ok_def eq by (rule refl)
  show "sess_forced A ?l = sess_forced A l" unfolding sess_forced_def eq by (rule refl)
qed

lemma sess_both_cancel_wait: "sess_both l \<Longrightarrow> sess_both (cancel_wait i l)"
  by (simp add: cancel_wait_def split: option.split)

lemma sess_both_run_task:
  assumes inv: "sess_inv l" and t: "t \<in> set (pending l)" and r: "socket_answers r"
    and timer: "\<And>c d. t = Sock_shutdown_handler c d \<Longrightarrow> timer_delivers c (r_ec r)"
  shows "sess_both (run_socket_task t r (l\<lparr> pending := remove1 t (pending l) \<rparr>))"
proof -
  let ?l = "l\<lparr> pending := remove1 t (pending l) \<rparr>"
  have sinv: "socket_inv ?l" and ok: "sess_ok {} l" and forced: "sess_forced {} l"
    using inv by (simp_all add: sess_inv_def)
  have taken: "\<not> is_notice t \<Longrightarrow> sess_ok (drives t) ?l"
    and kept: "(\<And>d. t \<noteq> Sock_shutdown_handler False d) \<Longrightarrow> sess_forced (forces t) ?l"
    using sess_ok_taken [OF ok t] sess_forced_taken [OF forced t] by auto
  have range: "set (sess_of t) \<subseteq> {..<length (sess ?l)}" using sess_ok_range [OF ok t] by simp
  show ?thesis
  proof (cases t)
    case (Sock_start_task c h)
    with taken kept sinv r show ?thesis
      by (auto simp: socket_start_task_def Let_def intro!: sess_both_start_on_strand [THEN conjunct1]
          sess_both_start_on_strand [THEN conjunct2])
  next
    case (Sock_wait_task i c h)
    with taken kept show ?thesis by (simp add: socket_wait_task_def)
  next
    case (Sock_cancel_wait_task i)
    with taken kept show ?thesis by (simp add: sess_both_cancel_wait)
  next
    case Sock_stop_task
    with taken kept r show ?thesis by (simp add: sess_both_stop_on_strand)
  next
    case (Sock_shutdown_handler c d)
    with taken kept timer r show ?thesis
      by (auto simp: timer_delivers_def failed_def intro!: sess_both_shutdown_expired [THEN conjunct1]
          sess_both_shutdown_expired [THEN conjunct2])
  next
    case (Sock_finished_task ec ep)
    with sess_both_session_finished [OF ok] t show ?thesis by simp
  next
    case (Sess_start a)
    with taken kept range r show ?thesis
      by (simp add: sess_both_start)
  next
    case (Sess_cancel a)
    with taken kept sess_ok_update [of "connection_cancel (sess l ! a)" ?l a "{}"] show ?thesis
      by (simp add: connection_cancel_def)
  next
    case (Sess_force a)
    with taken kept range r show ?thesis by (simp add: sess_both_session_task)
  next
    case (Sess_handler a)
    with taken kept range r show ?thesis
      using sess_both_session_task(2) [of a ?l r "r_ec r"] sess_forced_mono [of ?l "{a}"] by simp
  qed
qed

lemma sess_inv_step:
  assumes inv: "sess_inv l" and en: "socket_enabled (x, r) l" and r: "socket_answers r"
  shows "sess_inv (socket_do (x, r) l)"
proof -
  have "socket_inv (socket_do (x, r) l)"
    using socket.preserved [OF _ socket_stepI [OF en]] inv unfolding sess_inv_def by blast
  moreover have "sess_both (socket_do (x, r) l)"
  proof (cases x)
    case (Sock_run t)
    have "timer_delivers c (r_ec r)" if "t = Sock_shutdown_handler c d" for c d
      using en that Sock_run by simp
    with Sock_run en sess_both_run_task [OF inv _ r, of t] show ?thesis by simp
  next
    case (Sock_report a ep)
    with inv show ?thesis
      by (simp add: sess_inv_def sess_ok_update context_report_exception_def store_exception_def)
  qed (use inv in \<open>auto simp: sess_inv_def socket_do_async_start_def socket_do_async_wait_def
      socket_request_stop_def socket_emit_cancellation_def Let_def sess_ok_post sess_forced_post
      split: option.split\<close>)
  ultimately show ?thesis by (simp add: sess_inv_def)
qed

interpretation socket_session: inductive_invariant socket_init socket_live_step sess_inv
proof
  fix l l' :: "'h socket_listener"
  show "sess_inv l" if "socket_init l"
    using socket.base [OF that] that
    by (auto simp: sess_inv_def fresh_socket_listener_def sess_ok_no_session sess_open_def notices_def
        elim!: socket_initE)
  show "sess_inv l'" if "sess_inv l" "socket_live_step l l'"
    using that(2,1) by (cases rule: socket_live_step.cases) (simp add: sess_inv_step)
qed

subsection \<open>A stop completes\<close>

lemma answers_all_succeed [simp]:
  "socket_answers all_succeed" "r_ec all_succeed = no_error" "r_notify_owner all_succeed = (\<lambda>_. True)"
  by (simp_all add: socket_answers_def all_succeed_def)

fun sock_needs_session :: "'h socket_task \<Rightarrow> bool" where
  "sock_needs_session (Sess_start a) = True"
| "sock_needs_session (Sess_handler a) = True"
| "sock_needs_session t = False"

text \<open>How many function objects a stopping listener still needs after the next one.\<close>

definition stop_stage :: "'h socket_listener \<Rightarrow> nat" where
  "stop_stage l =
     (case m_session l of
        None \<Rightarrow> 0
      | Some a \<Rightarrow> if \<not> sess_open l a then 0 else if Sess_force a \<in> set (pending l) then 1 else 2)"

lemma stop_progress:
  assumes inv: "sess_inv l" and st: "m_state l = listener_stopping"
  obtains t where "\<not> sock_needs_session t" and "socket_enabled (Sock_run t, all_succeed) l"
    and "m_state (socket_do (Sock_run t, all_succeed) l) = listener_stopped \<or>
      m_state (socket_do (Sock_run t, all_succeed) l) = listener_stopping \<and>
      stop_stage (socket_do (Sock_run t, all_succeed) l) < stop_stage l"
proof -
  obtain a where a: "m_session l = Some a"
    using inv st by (auto simp: sess_inv_def socket_inv_def)
  consider "\<not> sess_open l a" | "sess_open l a" "Sess_force a \<in> set (pending l)"
    | d where "sess_open l a" "Sess_force a \<notin> set (pending l)" "Sock_shutdown_handler False d \<in> set (pending l)"
    using inv st unfolding sess_inv_def sess_forced_def by blast
  then show thesis
  proof cases
    case 1
    then have "notices l \<noteq> 0" using inv a unfolding sess_inv_def sess_ok_def by auto
    then obtain t where t: "t \<in> set (pending l)" "is_notice t"
      unfolding notices_def by (metis filter_False length_0_conv)
    obtain ec ep where "t = Sock_finished_task ec ep" using t(2) by (cases t) simp_all
    with t st show ?thesis
      by (intro that [of t]) (simp_all add: socket_session_finished_def socket_report_finished_def Let_def
          socket_maybe_finish_def socket_finish_fields)
  next
    case 2
    have "m_session (socket_do (Sock_run (Sess_force a), all_succeed) l) = Some a"
      "\<not> sess_open (socket_do (Sock_run (Sess_force a), all_succeed) l) a"
      "m_state (socket_do (Sock_run (Sess_force a), all_succeed) l) = listener_stopping"
      using st a by (simp_all add: finish_closes)
    with 2 a show ?thesis by (intro that [of "Sess_force a"]) (auto simp: stop_stage_def)
  next
    case (3 d)
    let ?l = "socket_do (Sock_run (Sock_shutdown_handler False d), all_succeed) l"
    have "m_state ?l = listener_stopping" "m_session ?l = Some a" "Sess_force a \<in> set (pending ?l)"
      using st a
      by (simp_all add: socket_shutdown_expired_def Let_def failed_def sess_force_close_def all_succeed_def)
        (simp add: post_def)
    with 3 a show ?thesis
      by (intro that [of "Sock_shutdown_handler False d"]) (auto simp: stop_stage_def timer_delivers_def)
  qed
qed

interpretation socket_drain: drainable
  "\<lambda>t l. \<not> sock_needs_session t \<and> socket_enabled (Sock_run t, all_succeed) l"
  "\<lambda>t. socket_do (Sock_run t, all_succeed)"
  "\<lambda>l. sess_inv l \<and> (m_state l = listener_stopping \<or> m_state l = listener_stopped)"
  "\<lambda>l. m_state l = listener_stopping" stop_stage
proof
  fix l :: "'h socket_listener"
  assume inv: "sess_inv l \<and> (m_state l = listener_stopping \<or> m_state l = listener_stopped)"
    and st: "m_state l = listener_stopping"
  obtain t where t: "\<not> sock_needs_session t" "socket_enabled (Sock_run t, all_succeed) l"
    "m_state (socket_do (Sock_run t, all_succeed) l) = listener_stopped \<or>
      m_state (socket_do (Sock_run t, all_succeed) l) = listener_stopping \<and>
      stop_stage (socket_do (Sock_run t, all_succeed) l) < stop_stage l"
    using stop_progress inv st by blast
  moreover have "sess_inv (socket_do (Sock_run t, all_succeed) l)"
    using inv t(2) by (intro sess_inv_step) auto
  ultimately show "\<exists>t. (\<not> sock_needs_session t \<and> socket_enabled (Sock_run t, all_succeed) l) \<and>
      (sess_inv (socket_do (Sock_run t, all_succeed) l) \<and>
       (m_state (socket_do (Sock_run t, all_succeed) l) = listener_stopping \<or>
        m_state (socket_do (Sock_run t, all_succeed) l) = listener_stopped)) \<and>
      (m_state (socket_do (Sock_run t, all_succeed) l) = listener_stopping \<longrightarrow>
       stop_stage (socket_do (Sock_run t, all_succeed) l) < stop_stage l)"
    by (intro exI [of _ t]) auto
qed



subsection \<open>Examples\<close>

lemma example_socket_live:
  assumes "socket_run script
      (fresh_socket_listener 3 True (path_endpoint ''/run/d'') (default_listener_options False)) =
      Some l"
    and "list_all (\<lambda>(x, r). r = all_succeed) script"
  shows "reachable socket_init socket_live_step (l :: nat socket_listener)"
proof (rule reachable_rtranclp [OF reach_init])
  let ?l = "fresh_socket_listener 3 True (path_endpoint ''/run/d'') (default_listener_options False)
    :: nat socket_listener"
  show "socket_init ?l" using example_socket_new unfolding socket_init_def by blast
  have "list_all (\<lambda>xr. socket_answers (snd xr)) script"
    using assms(2) by (auto simp: list_all_iff)
  from run_script_restrict [OF assms(1) [unfolded socket_run_def] this]
  show "socket_live_step\<^sup>*\<^sup>* ?l l"
    by (rule run_script_steps [rotated]) (auto intro: socket_live_stepI)
qed

definition example_socket_stopping :: "(nat socket_action \<times> asio) list" where
  "example_socket_stopping = example_socket_start @ take 3 example_socket_stop"

lemma example_socket_stopping_reachable:
  "reachable socket_init socket_live_step (example_socket example_socket_stopping)"
proof (rule example_socket_live)
  have "socket_run example_socket_stopping
      (fresh_socket_listener 3 True (path_endpoint ''/run/d'') (default_listener_options False)) \<noteq> None"
    by code_simp
  then show "socket_run example_socket_stopping
      (fresh_socket_listener 3 True (path_endpoint ''/run/d'') (default_listener_options False)) =
      Some (example_socket example_socket_stopping)"
    by (auto simp: example_socket_def)
  show "list_all (\<lambda>(x, r). r = all_succeed) example_socket_stopping"
    by (simp add: example_socket_stopping_def example_socket_start_def example_socket_stop_def)
qed



end
