(* ===== verification/Serveza_Requests.thy ===== *)
theory Serveza_Requests
  imports Serveza_Acceptor_Drain Serveza_Acceptor_Ledger Serveza_Socket_Session
begin

text \<open>
  The requests a listener has not looked at yet: the handlers captured by starts and waits
  that were posted.  Only the initiating functions add to them; running a function object
  takes its own request away and leaves all others alone.
\<close>

definition asked :: "'h acceptor \<Rightarrow> 'h list" where
  "asked l = concat (map task_handlers (pending l))"

lemma asked_helpers [simp]:
  "asked (record_diagnostic ec ep l) = asked l" "asked (emit type info ec ep l) = asked l"
  "asked (transition_to st l) = asked l" "asked (clear_diagnostics l) = asked l"
  "asked (set_stop_reason reason l) = asked l" "asked (keep_first_error ec l) = asked l"
  "asked (clear_slot c l) = asked l" "asked (cancel_retry_timer l) = asked l"
  "asked (cancel_shutdown_timer l) = asked l" "asked (complete h ec l) = asked l"
  "asked (post t l) = asked l @ task_handlers t" "asked (release_waiters l) = asked l"
  by (simp_all add: asked_def listener_helpers timer_defs release_waiters_closed)

lemma asked_updates [simp]:
  "asked (l\<lparr> m_terminal_error := ec \<rparr>) = asked l" "asked (l\<lparr> m_acceptor_open := b \<rparr>) = asked l"
  "asked (l\<lparr> m_accept_pending := b \<rparr>) = asked l" "asked (l\<lparr> m_endpoint := e \<rparr>) = asked l"
  "asked (l\<lparr> m_generation := g \<rparr>) = asked l" "asked (l\<lparr> m_consecutive_accept_errors := n \<rparr>) = asked l"
  "asked (l\<lparr> m_next_connection_id := i \<rparr>) = asked l" "asked (l\<lparr> m_next_waiter_id := i \<rparr>) = asked l"
  "asked (l\<lparr> conns := cs \<rparr>) = asked l" "asked (l\<lparr> m_sessions := ss \<rparr>) = asked l"
  "asked (l\<lparr> m_active_sessions := n \<rparr>) = asked l" "asked (l\<lparr> flags := fs \<rparr>) = asked l"
  "asked (l\<lparr> slots := sl \<rparr>) = asked l" "asked (l\<lparr> m_waiters := ws \<rparr>) = asked l"
  "asked (l\<lparr> completions := ps \<rparr>) = asked l"
  by (simp_all add: asked_def)

lemma asked_conn_change: "conn_change l l' \<Longrightarrow> asked l' = asked l"
  by (auto simp: conn_change_def asked_def conn_task_handlers)

lemma asked_conn_ops [simp]:
  "asked (conn_finish a ec ep r l) = asked l" "asked (conn_force_close r a l) = asked l"
  "asked (conn_start a r l) = asked l" "asked (notify_owner a res r l) = asked l"
  "asked (fold (conn_force_close r) as l) = asked l" "asked (fold (conn_request_stop r) as l) = asked l"
  by (auto intro!: asked_conn_change conn_change_start conn_change_notify_owner conn_change_fold)

lemma asked_stop [simp]:
  "asked (acceptor_finish ec reason l) = asked l" "asked (acceptor_maybe_finish l) = asked l"
  "asked (acceptor_begin_stop ec reason r l) = asked l" "asked (acceptor_shutdown_expired ec r l) = asked l"
  by (simp_all add: acceptor_finish_def acceptor_maybe_finish_def acceptor_begin_stop_def acceptor_enter_stopping_def
      acceptor_stop_sessions_def acceptor_arm_shutdown_def acceptor_shutdown_expired_def Let_def
      split: option.split)

lemma asked_accept [simp]:
  "asked (snd (acceptor_accept_next reason r l)) = asked l" "asked (acceptor_retry_accept ec r l) = asked l"
  "asked (acceptor_retry_expired ec r l) = asked l"
  by (simp_all add: acceptor_accept_next_def acceptor_accept_throws_def acceptor_retry_accept_def
      acceptor_report_accept_error_def acceptor_arm_retry_def acceptor_retry_expired_def Let_def
      split: option.split)

lemma asked_sessions [simp]:
  "asked (acceptor_accepted ec r l) = asked l" "asked (acceptor_session_finished info ec ep r l) = asked l"
  by (simp_all add: acceptor_accepted_def acceptor_factory_failed_def acceptor_launch_session_def
      acceptor_add_session_def acceptor_session_finished_def acceptor_report_finished_def
      acceptor_erase_session_def Let_def split: option.split)

lemma asked_run_task: "asked (run_task t r l) = asked l"
  by (cases t) (simp_all add: acceptor_start_task_def acceptor_start_on_strand_def acceptor_enter_starting_def
      acceptor_publish_endpoint_def acceptor_wait_task_def cancel_wait_def acceptor_stop_on_strand_def Let_def
      split: option.split)

lemma asked_run:
  "t \<in> set (pending l) \<Longrightarrow> length (asked l) = length (task_handlers t) + length (asked (acceptor_do (Run t) r l))"
  using arg_cong [OF mset_concat_map_remove1 [of t "pending l" task_handlers], of size]
  by (simp add: asked_run_task) (simp add: asked_def)

subsection \<open>The bound listener\<close>

definition sock_asked :: "'h socket_listener \<Rightarrow> 'h list" where
  "sock_asked l = concat (map socket_task_handlers (pending l))"

lemma sock_asked_helpers [simp]:
  "sock_asked (record_diagnostic ec ep l) = sock_asked l" "sock_asked (emit type info ec ep l) = sock_asked l"
  "sock_asked (transition_to st l) = sock_asked l" "sock_asked (clear_diagnostics l) = sock_asked l"
  "sock_asked (set_stop_reason reason l) = sock_asked l" "sock_asked (keep_first_error ec l) = sock_asked l"
  "sock_asked (clear_slot c l) = sock_asked l" "sock_asked (cancel_sock_timer l) = sock_asked l"
  "sock_asked (complete h ec l) = sock_asked l" "sock_asked (release_waiters l) = sock_asked l"
  "sock_asked (post t l) = sock_asked l @ socket_task_handlers t"
  by (simp_all add: sock_asked_def listener_helpers cancel_sock_timer_def release_waiters_closed)

lemma sock_asked_updates [simp]:
  "sock_asked (l\<lparr> m_terminal_error := ec \<rparr>) = sock_asked l" "sock_asked (l\<lparr> m_endpoint := e \<rparr>) = sock_asked l"
  "sock_asked (l\<lparr> m_generation := g \<rparr>) = sock_asked l" "sock_asked (l\<lparr> m_next_waiter_id := i \<rparr>) = sock_asked l"
  "sock_asked (l\<lparr> m_active_sessions := n \<rparr>) = sock_asked l" "sock_asked (l\<lparr> m_session := a \<rparr>) = sock_asked l"
  "sock_asked (l\<lparr> sess := cs \<rparr>) = sock_asked l" "sock_asked (l\<lparr> escaped := k \<rparr>) = sock_asked l"
  "sock_asked (l\<lparr> flags := fs \<rparr>) = sock_asked l" "sock_asked (l\<lparr> slots := sl \<rparr>) = sock_asked l"
  "sock_asked (l\<lparr> m_waiters := ws \<rparr>) = sock_asked l" "sock_asked (l\<lparr> completions := ps \<rparr>) = sock_asked l"
  by (simp_all add: sock_asked_def)

lemma sock_asked_sess [simp]:
  "sock_asked (sess_notify a res r l) = sock_asked l" "sock_asked (sess_finish a ec ep r l) = sock_asked l"
  "sock_asked (sess_force_close r a l) = sock_asked l" "sock_asked (sess_request_stop r a l) = sock_asked l"
  "sock_asked (sess_start a r l) = sock_asked l"
proof -
  show notify: "sock_asked (sess_notify a res r l) = sock_asked l" for a res l
    by (auto simp: sock_asked_def sess_notify_def split: option.split)
  show "sock_asked (sess_finish a ec ep r l) = sock_asked l" "sock_asked (sess_force_close r a l) = sock_asked l"
    "sock_asked (sess_request_stop r a l) = sock_asked l" "sock_asked (sess_start a r l) = sock_asked l"
    by (simp_all add: sess_finish_def sess_force_close_def sess_request_stop_def sess_start_def Let_def notify
        split: option.split)
qed

lemma sock_asked_stop [simp]:
  "sock_asked (socket_finish ec reason l) = sock_asked l" "sock_asked (socket_maybe_finish l) = sock_asked l"
  "sock_asked (socket_stop_on_strand r l) = sock_asked l" "sock_asked (socket_shutdown_expired ec r l) = sock_asked l"
  "sock_asked (socket_session_finished ec ep l) = sock_asked l"
  by (simp_all add: socket_finish_def socket_maybe_finish_def socket_stop_on_strand_def socket_stop_session_def
      socket_shutdown_expired_def socket_session_finished_def socket_report_finished_def Let_def
      split: option.split)

lemma sock_asked_run_task: "sock_asked (run_socket_task t r l) = sock_asked l"
  by (cases t) (simp_all add: socket_start_task_def socket_start_on_strand_def socket_enter_starting_def
      socket_factory_failed_def socket_run_session_def socket_wait_task_def cancel_wait_def Let_def
      split: option.split)

lemma sock_asked_run:
  "t \<in> set (pending l) \<Longrightarrow>
     length (sock_asked l) = length (socket_task_handlers t) + length (sock_asked (socket_do (Sock_run t, r) l))"
  using arg_cong [OF mset_concat_map_remove1 [of t "pending l" socket_task_handlers], of size]
  by (simp add: sock_asked_run_task) (simp add: sock_asked_def)

end
