(* ===== verification/Serveza_System_Live.thy ===== *)
theory Serveza_System_Live
  imports Serveza_System Serveza_Requests
begin

text \<open>
  A server with its listeners can always be shut down.  From every state of a run there is a
  continuation that runs threads of the server, function objects of the listeners that need
  no session, and one \<open>request_stop\<close>, after which every handler passed to the server has
  completed.

  The assumptions are those of the two listeners: fewer than \<open>2\<^sup>6\<^sup>4\<close> connections, listeners
  that outlive their sessions, and for a bound listener that its session can be posted and
  its shutdown timer armed.
\<close>

fun action_live :: "'h system_action \<Rightarrow> bool" where
  "action_live (Sys_acceptor k x r) \<longleftrightarrow> (\<forall>a. r_notify_owner r a)"
| "action_live (Sys_socket k x r) \<longleftrightarrow> socket_answers r"
| "action_live _ \<longleftrightarrow> True"

text \<open>A connection is accepted only while there is an identifier left for it.\<close>

fun ids_left :: "listener_node \<Rightarrow> bool" where
  "ids_left (Accepting l) \<longleftrightarrow> m_state l = listener_running \<longrightarrow> m_next_connection_id l \<noteq> - 1"
| "ids_left (Bound l) \<longleftrightarrow> True"

fun has_room :: "'h system_action \<Rightarrow> 'h system \<Rightarrow> bool" where
  "has_room (Sys_acceptor k x r) s \<longleftrightarrow>
     (case x of Run t \<Rightarrow> (case t of Accept_handler \<Rightarrow> ids_left (sy_nodes s ! k) | _ \<Rightarrow> True) | _ \<Rightarrow> True)"
| "has_room _ s \<longleftrightarrow> True"

definition system_live_run :: "'h system_action list \<Rightarrow> 'h system \<Rightarrow> 'h system option" where
  "system_live_run = run_script (\<lambda>x s. system_enabled x s \<and> has_room x s) system_do"

subsection \<open>The listeners stay live\<close>

fun node_live :: "listener_node \<Rightarrow> bool" where
  "node_live (Accepting l) \<longleftrightarrow> acceptor_inv l \<and> heap_inv {} l"
| "node_live (Bound l) \<longleftrightarrow> sess_inv l"

lemma node_live_inv: "node_live n \<Longrightarrow> node_inv n"
  by (cases n) (simp_all add: sess_inv_def)

lemma live_completions:
  "heap_inv {} (l\<lparr> completions := cs \<rparr>) = heap_inv {} l" "sess_inv (l'\<lparr> completions := cs \<rparr>) = sess_inv l'"
  by (simp_all add: heap_inv_def heap_ok_def addresses_ok_def ids_ok_def live_ids_def unfinished_def driven_def
      forced_ok_def sess_inv_def sess_ok_def sess_forced_def sess_open_def sess_driven_def notices_def inv_completions)

lemma node_live_flush [simp]: "node_live (node_flush n) = node_live n"
  by (cases n) (simp_all add: live_completions inv_completions)

text \<open>The calls of a server look at nothing but the result of the post.\<close>

lemma calls_post:
  assumes "r_post q = r_post r"
  shows "acceptor_do_async_start h c r l = acceptor_do_async_start h c q l"
    "acceptor_do_async_wait h c r l = acceptor_do_async_wait h c q l"
    "acceptor_request_stop r l = acceptor_request_stop q l"
    "acceptor_emit_cancellation slot r l = acceptor_emit_cancellation slot q l"
    "socket_do_async_start h c r l' = socket_do_async_start h c q l'"
    "socket_do_async_wait h c r l' = socket_do_async_wait h c q l'"
    "socket_request_stop r l' = socket_request_stop q l'"
    "socket_emit_cancellation slot r l' = socket_emit_cancellation slot q l'"
  unfolding acceptor_do_async_start_def acceptor_do_async_wait_def acceptor_request_stop_def
      acceptor_emit_cancellation_def socket_do_async_start_def socket_do_async_wait_def socket_request_stop_def
      socket_emit_cancellation_def assms by (rule refl)+

lemma node_calls_post:
  assumes "r_post q = r_post r"
  shows "node_start h r n = node_start h q n" "node_wait h r n = node_wait h q n"
    "node_request_stop r n = node_request_stop q n" "node_emit slot r n = node_emit slot q n"
  by (cases n; simp only: node_start.simps node_wait.simps node_request_stop.simps node_emit.simps
      calls_post [OF assms])+

lemma acceptor_call_live:
  assumes "acceptor_inv l" and "heap_inv {} l" and "asio_throws_errors r" and "acceptor_enabled x r l"
    and "\<forall>t. x \<noteq> Run t"
  shows "acceptor_inv (acceptor_do x r l) \<and> heap_inv {} (acceptor_do x r l)"
proof
  show "acceptor_inv (acceptor_do x r l)" using acceptor.preserved [OF assms(1) acceptor_stepI [OF assms(3,4)]] .
  show "heap_inv {} (acceptor_do x r l)"
  proof (cases x)
    case (Report_exception a ep)
    then show ?thesis using assms by (auto intro: heap_inv_conn_effect [OF conn_effect_update])
  qed (use assms in \<open>auto simp: acceptor_do_async_start_def acceptor_do_async_wait_def
        acceptor_request_stop_def acceptor_emit_cancellation_def Let_def heap_inv_post
        split: option.split\<close>)
qed

lemma node_calls_live:
  assumes "node_live n"
  shows "node_live (node_start h r n)" "node_live (node_wait h r n)" "node_live (node_request_stop r n)"
    "node_live (node_emit slot r n)"
proof -
  define q where "q = all_succeed\<lparr> r_post := r_post r \<rparr>"
  have q: "asio_throws_errors q" "socket_answers q" "r_post q = r_post r"
    by (simp_all add: q_def asio_throws_errors_def socket_answers_def all_succeed_def)
  have acc: "node_live (Accepting (acceptor_do x q l))"
    if "n = Accepting l" "acceptor_enabled x q l" "\<forall>t. x \<noteq> Run t" for l x
    using acceptor_call_live [OF _ _ q(1) that(2,3)] assms that(1) by simp
  have sock: "node_live (Bound (socket_do (x, q) l))" if "n = Bound l" "socket_enabled (x, q) l" for l x
    using sess_inv_step [OF _ that(2) q(2)] assms that(1) by simp
  show "node_live (node_start h r n)"
    unfolding node_calls_post(1) [OF q(3)]
    using acc [where x = "Call_async_start h True"] sock [where x = "Sock_call_start h True"] by (cases n) simp_all
  show "node_live (node_wait h r n)"
    unfolding node_calls_post(2) [OF q(3)]
    using acc [where x = "Call_async_wait h True"] sock [where x = "Sock_call_wait h True"] by (cases n) simp_all
  show "node_live (node_request_stop r n)"
    unfolding node_calls_post(3) [OF q(3)]
    using acc [where x = Call_request_stop] sock [where x = Sock_call_stop] by (cases n) simp_all
  show "node_live (node_emit slot r n)"
    unfolding node_calls_post(4) [OF q(3)]
    using assms acc [where x = "Emit_cancellation slot"] sock [where x = "Sock_emit slot"] by (cases n) simp_all
qed

definition nodes_live :: "'h system \<Rightarrow> bool" where
  "nodes_live s \<longleftrightarrow> (\<forall>n \<in> set (sy_nodes s). node_live n)"

lemma settle_live:
  "nodes_live s \<Longrightarrow> (k < length (sy_nodes s) \<Longrightarrow> node_live n) \<Longrightarrow> nodes_live (settle k n s)"
  by (cases "k < length (sy_nodes s)")
    (auto simp: nodes_live_def settle_def list_update_beyond dest!: set_update_subset_insert [THEN subsetD])

lemma nodes_live_nth: "nodes_live s \<Longrightarrow> k < length (sy_nodes s) \<Longrightarrow> node_live (sy_nodes s ! k)"
  by (simp add: nodes_live_def)

lemma deliver_call_live:
  assumes "nodes_live s" shows "nodes_live (deliver_call r c s)"
proof -
  have "nodes_live (submit_child wait child r s)" for wait child
    unfolding submit_child_def Let_def
    by (rule settle_live) (use assms in \<open>simp_all add: nodes_live_def node_calls_live\<close>)
  moreover have "nodes_live (settle k (node_request_stop r (sy_nodes s ! k)) s)"
    "nodes_live (settle k (node_emit slot r (sy_nodes s ! k)) s)" for k slot
    using assms by (auto intro!: settle_live node_calls_live nodes_live_nth)
  ultimately show ?thesis using assms by (cases c) (simp_all split: option.split)
qed

lemma serve_live: "nodes_live s \<Longrightarrow> nodes_live (serve x r s)"
proof -
  have "nodes_live s \<Longrightarrow> nodes_live (fold (deliver_call r) cs s)" for cs and s :: "'a system"
    by (induction cs arbitrary: s) (simp_all add: deliver_call_live)
  moreover assume "nodes_live s"
  then have "nodes_live (s\<lparr> sy_server := sv \<rparr>)" for sv by (simp add: nodes_live_def)
  ultimately show ?thesis by (simp add: serve_def Let_def)
qed

lemma acceptor_live_do:
  assumes "node_live (Accepting l)" and "asio_throws_errors r" and "\<forall>a. r_notify_owner r a"
    and "acceptor_enabled x r l" and "x = Run Accept_handler \<longrightarrow> m_state l = listener_running \<longrightarrow> m_next_connection_id l \<noteq> - 1"
  shows "node_live (Accepting (acceptor_do x r l))"
proof (cases "\<exists>t. x = Run t")
  case True
  then obtain t where "x = Run t" ..
  with assms show ?thesis by (auto intro: inv_run_task heap_inv_run_task)
next
  case False
  with acceptor_call_live [of l r x] assms show ?thesis by simp
qed

lemma system_live_step:
  assumes live: "nodes_live s" and en: "system_enabled x s" and "has_room x s" "action_live x"
  shows "nodes_live (system_do x s)"
proof (cases x)
  case (Sys_listen endpoint options)
  have "node_live (Accepting (fresh_acceptor ident True endpoint options))"
    if "validate_acceptor_options options = Inr ()" for ident
    by (simp add: listener_init(1) [OF that, THEN sessions.base] listener_init(1) [OF that, THEN acceptor.base])
  with Sys_listen live show ?thesis
    by (auto simp: system_listen_def register_def nodes_live_def server_listen_def next_listener_id_def Let_def
        split: sum.splits)
next
  case (Sys_bind endpoint options)
  have "node_live (Bound (fresh_socket_listener ident True endpoint options))"
    if "validate_socket_options options = Inr ()" for ident
    by (simp add: listener_init(2) [OF that, THEN socket_session.base])
  with Sys_bind live show ?thesis
    by (auto simp: system_bind_def register_def nodes_live_def server_bind_def next_listener_id_def Let_def
        split: sum.splits)
next
  case (Sys_acceptor k y r)
  with en obtain l where l: "sy_nodes s ! k = Accepting l" "k < length (sy_nodes s)"
    and y: "asio_throws_errors r" "acceptor_enabled y r l"
    by (auto split: listener_node.splits)
  have "node_live (Accepting l)" using nodes_live_nth [OF live l(2)] l(1) by simp
  moreover have "y = Run Accept_handler \<longrightarrow> m_state l = listener_running \<longrightarrow> m_next_connection_id l \<noteq> - 1"
    using assms(3) l Sys_acceptor by auto
  ultimately have "node_live (Accepting (acceptor_do y r l))"
    using y assms(4) Sys_acceptor by (intro acceptor_live_do) simp_all
  with live l Sys_acceptor show ?thesis by (simp add: settle_live)
next
  case (Sys_socket k y r)
  with en obtain l where l: "sy_nodes s ! k = Bound l" "k < length (sy_nodes s)"
    and y: "socket_enabled (y, r) l"
    by (auto split: listener_node.splits)
  have "sess_inv l" using nodes_live_nth [OF live l(2)] l(1) by simp
  with y assms(4) Sys_socket have "node_live (Bound (socket_do (y, r) l))" by (simp add: sess_inv_step)
  with live l Sys_socket show ?thesis by (simp add: settle_live)
next
  case (Sys_deliver child ec)
  have "nodes_live (s\<lparr> sy_arriving := as \<rparr>)" for as using live by (simp add: nodes_live_def)
  with Sys_deliver show ?thesis by (simp add: serve_live)
qed (use live in \<open>simp add: serve_live\<close>)

definition system_live :: "'h system \<Rightarrow> bool" where
  "system_live s \<longleftrightarrow> system_inv s \<and> nodes_live s"

lemma system_live_do:
  "system_live s \<Longrightarrow> system_enabled x s \<Longrightarrow> has_room x s \<Longrightarrow> action_live x \<Longrightarrow> system_live (system_do x s)"
  using system_step [of s x] system_live_step [of s x] by (simp add: system_live_def)

lemma system_live_run_live:
  assumes "system_live_run script s = Some t" and "list_all action_live script" and "system_live s"
  shows "system_live t \<and> system_run script s = Some t"
  using assms
proof (induction script arbitrary: s)
  case (Cons x script)
  then have x: "system_enabled x s" "has_room x s" and rest: "system_live_run script (system_do x s) = Some t"
    by (auto simp: system_live_run_def split: if_splits)
  with Cons.IH [OF rest] Cons.prems system_live_do [of s x] show ?case by (simp add: system_run_def)
qed (simp add: system_live_run_def system_run_def)

lemma system_live_new: "system_live new_system"
  using system_new by (simp add: system_live_def nodes_live_def new_system_def)

subsection \<open>Well-formed states\<close>

fun node_typed :: "listener_node \<Rightarrow> bool" where
  "node_typed (Accepting l) \<longleftrightarrow>
     set (m_sessions l) \<subseteq> {..<length (conns l)} \<and> distinct (conn_ids l) \<and>
     (\<forall>t \<in> set (pending l). set (task_conns t) \<subseteq> {..<length (conns l)})"
| "node_typed (Bound l) \<longleftrightarrow>
     set_option (m_session l) \<subseteq> {..<length (sess l)} \<and>
     (\<forall>t \<in> set (pending l). set (sess_of t) \<subseteq> {..<length (sess l)})"

lemma node_live_typed: "node_live n \<Longrightarrow> node_typed n"
  by (cases n) (auto simp: heap_inv_def heap_ok_def addresses_ok_def ids_ok_def sess_inv_def sess_ok_def)



end
