(* ===== verification/Serveza_System_Shutdown.thy ===== *)
theory Serveza_System_Shutdown
  imports Serveza_System_Live
begin

text \<open>
  The shutdown of a server with its listeners, in phases: the threads of the server run to
  their end, the listeners look at the starts and waits posted to them, completions travel
  back, a stop is requested, and every listener drains.
\<close>

text \<open>Actions that need neither a session nor a caller.\<close>

fun unaided :: "'h system_action \<Rightarrow> bool" where
  "unaided (Sys_server x r) \<longleftrightarrow> (case x of Do_run j e \<Rightarrow> True | _ \<Rightarrow> False)"
| "unaided (Sys_acceptor k x r) \<longleftrightarrow> (case x of Run t \<Rightarrow> \<not> needs_session t | _ \<Rightarrow> False)"
| "unaided (Sys_socket k x r) \<longleftrightarrow> (case x of Sock_run t \<Rightarrow> \<not> sock_needs_session t | _ \<Rightarrow> False)"
| "unaided (Sys_deliver child ec) \<longleftrightarrow> True"
| "unaided _ \<longleftrightarrow> False"

abbreviation unaided_enabled :: "'h system_action \<Rightarrow> 'h system \<Rightarrow> bool" where
  "unaided_enabled x s \<equiv> unaided x \<and> system_enabled x s \<and> has_room x s"

definition leads :: "'h system \<Rightarrow> 'h system \<Rightarrow> bool" where
  "leads s t \<longleftrightarrow> (\<exists>xs. run_script unaided_enabled system_do xs s = Some t)"

lemma leads_trans:
  assumes "leads s t" and "leads t u" shows "leads s u"
proof -
  from assms obtain xs ys where "run_script unaided_enabled system_do xs s = Some t"
    "run_script unaided_enabled system_do ys t = Some u" unfolding leads_def by blast
  then have "run_script unaided_enabled system_do (xs @ ys) s = Some u" by (simp add: run_script_append)
  then show ?thesis unfolding leads_def by blast
qed

lemma unaided_run:
  "run_script unaided_enabled system_do xs s = Some t \<Longrightarrow> list_all unaided xs \<and> system_run xs s = Some t"
  by (induction xs arbitrary: s) (auto simp: system_run_def split: if_splits)

lemma leads_run: "leads s t \<Longrightarrow> \<exists>xs. list_all unaided xs \<and> system_run xs s = Some t"
  unfolding leads_def using unaided_run by blast

lemma leads_drained:
  assumes "drainable unaided_enabled system_do I active rank" and "I s"
  shows "\<exists>t. leads s t \<and> I t \<and> \<not> active t"
  using drainable.drains [OF assms] unfolding leads_def by blast

subsection \<open>The threads of a server end\<close>

fun cost :: "'h operation_group list \<Rightarrow> 'h instr \<Rightarrow> nat" where
  "cost gs (Begin_start g) =
     2 * length (g_listeners (gs ! g)) + length (g_initiation_ecs (gs ! g)) * (length (g_listeners (gs ! g)) + 3) +
     length (g_listeners (gs ! g)) + 4"
| "cost gs (Begin_start_empty h) = 2"
| "cost gs (Submit_loop g i wait) =
     2 * (length (g_listeners (gs ! g)) - i) +
     length (g_initiation_ecs (gs ! g)) * (length (g_listeners (gs ! g)) + 3) + length (g_listeners (gs ! g)) + 3"
| "cost gs (Report_loop g i wait) =
     (length (g_initiation_ecs (gs ! g)) - i) * (length (g_listeners (gs ! g)) + 3) + length (g_listeners (gs ! g)) + 2"
| "cost gs (Check_stop g) = length (g_listeners (gs ! g)) + 1"
| "cost gs (One g ec) = length (g_listeners (gs ! g)) + 2"
| "cost gs (Cancel_set g type) = length (g_listeners (gs ! g)) + 1"
| "cost gs _ = 1"

definition shape :: "'h operation_group \<Rightarrow> nat \<times> nat" where
  "shape g = (length (g_listeners g), length (g_initiation_ecs g))"

lemma shape_nth:
  assumes "map shape gs' = map shape gs" and "g < length gs"
  shows "length (g_listeners (gs' ! g)) = length (g_listeners (gs ! g))"
    and "length (g_initiation_ecs (gs' ! g)) = length (g_initiation_ecs (gs ! g))"
proof -
  have "length gs' = length gs" using assms(1) by (metis length_map)
  then have "shape (gs' ! g) = shape (gs ! g)" using assms by (metis nth_map)
  then show "length (g_listeners (gs' ! g)) = length (g_listeners (gs ! g))"
    "length (g_initiation_ecs (gs' ! g)) = length (g_initiation_ecs (gs ! g))" by (simp_all add: shape_def)
qed

lemma cost_shape:
  assumes "map shape gs' = map shape gs" and "instr_ok gs ins"
  shows "cost gs' ins = cost gs ins"
  using assms(2) by (cases ins) (simp_all add: shape_nth [OF assms(1)])

lemma shape_simps [simp]:
  "shape (fst (group_one ec g)) = shape g" "shape (fst (group_reject ec g)) = shape g"
  "shape (group_initiation_failed i ex g) = shape g" "shape (group_cancel type g) = shape g"
  by (simp_all add: shape_def group_one_def group_reject_def group_initiation_failed_def group_cancel_def Let_def)

lemma exec_shape: "map shape (sv_groups (fst (exec ins e sv))) = map shape (sv_groups sv)"
proof (cases ins)
  case (One g ec)
  obtain grp stop ready where "group_one ec (group_of sv g) = (grp, stop, ready)" by (cases "group_one ec (group_of sv g)")
  with One shape_simps(1) [of ec "group_of sv g"] show ?thesis by (simp add: exec_one_def)
qed (simp_all add: exec_begin_start_def exec_begin_start_empty_def exec_submit_def exec_report_def exec_finish_def
    call_listener_def complete_server_def Let_def split: option.split)

lemma sum_ones: "\<forall>x \<in> set xs. f x = 1 \<Longrightarrow> sum_list (map f xs) = length xs"
  by (induction xs) auto

lemma exec_cost: "sum_list (map (cost (sv_groups sv)) (snd (exec ins e sv))) < cost (sv_groups sv) ins"
proof (cases ins)
  case (Report_loop g i wait)
  let ?n = "length (g_listeners (group_of sv g))" and ?m = "length (g_initiation_ecs (group_of sv g))"
  show ?thesis
  proof (cases "i < ?m")
    case True
    then have "?m - i = Suc (?m - (i + 1))" by simp
    then have "(?m - i) * (?n + 3) = ?n + 3 + (?m - (i + 1)) * (?n + 3)" by (metis mult_Suc)
    with True Report_loop show ?thesis by (simp add: exec_report_def)
  next
    case False
    with Report_loop show ?thesis by (simp add: exec_report_def)
  qed
next
  case (One g ec)
  obtain grp stop ready where "group_one ec (group_of sv g) = (grp, stop, ready)" by (cases "group_one ec (group_of sv g)")
  with One group_listeners(1) [of ec "group_of sv g"] show ?thesis
    by (auto simp: exec_one_def comp_def sum_ones split: option.split)
next
  case (Submit_loop g i wait)
  then show ?thesis by (auto simp: exec_submit_def split: option.split)
qed (auto simp: exec_begin_start_def exec_begin_start_empty_def exec_finish_def Let_def comp_def sum_ones)

definition thread_cost :: "'h server \<Rightarrow> nat" where
  "thread_cost sv = sum_mset (image_mset (cost (sv_groups sv)) (instrs sv))"

lemma run_thread_cost:
  assumes sv: "server_inv sv" and en: "server_enabled (Do_run j e) sv" and ins: "sv_threads sv ! j = ins # rest"
  shows "thread_cost (run_thread j e sv) < thread_cost sv"
    and "map shape (sv_groups (run_thread j e sv)) = map shape (sv_groups sv)"
proof -
  from en ins obtain N where N: "instrs sv = add_mset ins N"
    "instrs (run_thread j e sv) = mset (snd (exec ins e sv)) + N"
    using instrs_run_thread by (metis server_enabled.simps(5))
  show same: "map shape (sv_groups (run_thread j e sv)) = map shape (sv_groups sv)"
    using ins exec_shape [of ins e sv] by (cases "exec ins e sv") (simp add: run_thread_def)
  have "server_inv (run_thread j e sv)" using server.preserved [OF sv server_stepI [OF en]] by simp
  then have "instr_ok (sv_groups (run_thread j e sv)) i" if "i \<in># instrs (run_thread j e sv)" for i
    using that server_okD(1) by (metis server_inv_def)
  then have "image_mset (cost (sv_groups (run_thread j e sv))) (instrs (run_thread j e sv)) =
      image_mset (cost (sv_groups sv)) (instrs (run_thread j e sv))"
    using cost_shape [OF same [symmetric]] by (intro image_mset_cong) simp
  then have "thread_cost (run_thread j e sv) =
      sum_list (map (cost (sv_groups sv)) (snd (exec ins e sv))) + sum_mset (image_mset (cost (sv_groups sv)) N)"
    by (simp add: thread_cost_def N(2) sum_mset_sum_list [symmetric])
  with exec_cost [of sv ins e] N(1) show "thread_cost (run_thread j e sv) < thread_cost sv"
    by (simp add: thread_cost_def)
qed

lemma some_thread:
  assumes "concat (sv_threads sv) \<noteq> []"
  obtains j ins rest where "server_enabled (Do_run j quiet_env) sv" and "sv_threads sv ! j = ins # rest"
proof -
  from assms obtain th where "th \<in> set (sv_threads sv)" "th \<noteq> []" by auto
  then obtain j ins rest where "j < length (sv_threads sv)" "sv_threads sv ! j = ins # rest"
    by (metis in_set_conv_nth neq_Nil_conv)
  then show thesis using that by (simp add: quiet_env_def)
qed

lemma thread_live:
  assumes live: "system_live s" and en: "server_enabled (Do_run j quiet_env) (sy_server s)"
  defines "x \<equiv> Sys_server (Do_run j quiet_env) all_succeed"
  shows "unaided_enabled x s" and "system_live (system_do x s)"
    and "sy_server (system_do x s) = run_thread j quiet_env (sy_server s)"
proof -
  show x: "unaided_enabled x s" using en by (simp add: x_def)
  show "system_live (system_do x s)"
    using live x system_step [of s x] serve_live by (auto simp: system_live_def x_def)
  show "sy_server (system_do x s) = run_thread j quiet_env (sy_server s)"
    using live x system_step [of s x] by (auto simp: system_live_def x_def server_run_def)
qed

abbreviation threads_done :: "'h system \<Rightarrow> bool" where
  "threads_done s \<equiv> concat (sv_threads (sy_server s)) = []"

interpretation threads: drainable unaided_enabled system_do system_live "\<lambda>s. \<not> threads_done s"
  "\<lambda>s. thread_cost (sy_server s)"
proof
  fix s :: "'h system"
  assume live: "system_live s" and "\<not> threads_done s"
  from this(2) obtain j ins rest where j: "server_enabled (Do_run j quiet_env) (sy_server s)"
    "sv_threads (sy_server s) ! j = ins # rest" by (rule some_thread)
  have "server_inv (sy_server s)" using live by (simp add: system_live_def system_inv_def)
  from thread_live [OF live j(1)] run_thread_cost(1) [OF this j]
  show "\<exists>x. unaided_enabled x s \<and> system_live (system_do x s) \<and>
      (\<not> threads_done (system_do x s) \<longrightarrow> thread_cost (sy_server (system_do x s)) < thread_cost (sy_server s))"
    by (intro exI [of _ "Sys_server (Do_run j quiet_env) all_succeed"]) simp
qed


subsection \<open>Function objects of the listeners\<close>

fun node_state :: "listener_node \<Rightarrow> listener_state" where
  "node_state (Accepting l) = m_state l"
| "node_state (Bound l) = m_state l"

fun node_asked :: "listener_node \<Rightarrow> listener_handler list" where
  "node_asked (Accepting l) = asked l"
| "node_asked (Bound l) = sock_asked l"

fun node_told :: "listener_node \<Rightarrow> bool" where
  "node_told (Accepting l) \<longleftrightarrow> m_state l = listener_stopped \<or> Stop_task \<in> set (pending l)"
| "node_told (Bound l) \<longleftrightarrow> m_state l = listener_stopped \<or> Sock_stop_task \<in> set (pending l)"

fun node_rank :: "listener_node \<Rightarrow> nat" where
  "node_rank (Accepting l) = drain_measure l"
| "node_rank (Bound l) = stop_stage l"

lemma node_flush_fields [simp]:
  "node_state (node_flush n) = node_state n" "node_asked (node_flush n) = node_asked n"
  "node_told (node_flush n) = node_told n" "node_rank (node_flush n) = node_rank n"
proof -
  show "node_state (node_flush n) = node_state n" "node_asked (node_flush n) = node_asked n"
    "node_told (node_flush n) = node_told n" by (cases n; simp)+
  show "node_rank (node_flush n) = node_rank n"
    by (cases n) (simp_all add: drain_measure_def stop_stage_def sess_open_def split: option.split)
qed

inductive node_task :: "listener_node \<Rightarrow> listener_node \<Rightarrow> bool" where
  accepting_task: "\<not> needs_session t \<Longrightarrow> acceptor_enabled (Run t) all_succeed l \<Longrightarrow>
    (t = Accept_handler \<Longrightarrow> m_state l \<noteq> listener_running) \<Longrightarrow>
    node_task (Accepting l) (Accepting (acceptor_do (Run t) all_succeed l))"
| bound_task: "\<not> sock_needs_session t \<Longrightarrow> socket_enabled (Sock_run t, all_succeed) l \<Longrightarrow>
    node_task (Bound l) (Bound (socket_do (Sock_run t, all_succeed) l))"

inductive_simps node_task_simps: "node_task (Accepting l) n" "node_task (Bound l) n"

lemma node_task_live: "node_task n n' \<Longrightarrow> node_live n \<Longrightarrow> node_live n'"
proof (induction rule: node_task.induct)
  case (accepting_task t l)
  then show ?case by (intro acceptor_live_do) auto
next
  case (bound_task t l)
  then have "sess_inv (socket_do (Sock_run t, all_succeed) l)" by (intro sess_inv_step) simp_all
  then show ?case by simp
qed

lemma node_task_asked: "node_task n n' \<Longrightarrow> node_asked n = [] \<Longrightarrow> node_asked n' = []"
proof (induction rule: node_task.induct)
  case (accepting_task t l)
  then show ?case using asked_run [of t l all_succeed] by simp
next
  case (bound_task t l)
  then show ?case using sock_asked_run [of t l all_succeed] by simp
qed

lemma node_task_system:
  assumes live: "system_live s" and k: "k < length (sy_nodes s)" and task: "node_task (sy_nodes s ! k) n"
  shows "\<exists>x. unaided_enabled x s \<and> system_live (system_do x s) \<and> sy_server (system_do x s) = sy_server s \<and>
    sy_nodes (system_do x s) = (sy_nodes s)[k := node_flush n]"
proof -
  have "\<exists>x. unaided_enabled x s \<and> system_do x s = settle k n s"
    using task
  proof cases
    case (accepting_task t l)
    then have "has_room (Sys_acceptor k (Run t) all_succeed) s" by (cases t) simp_all
    with accepting_task k show ?thesis by (intro exI [of _ "Sys_acceptor k (Run t) all_succeed"]) simp
  next
    case (bound_task t l)
    with k show ?thesis by (intro exI [of _ "Sys_socket k (Sock_run t) all_succeed"]) simp
  qed
  then obtain x where x: "unaided_enabled x s" "system_do x s = settle k n s" by blast
  have "node_live n" using node_task_live [OF task] nodes_live_nth [OF _ k] live by (simp add: system_live_def)
  with live x(2) have "nodes_live (system_do x s)" by (simp add: settle_live system_live_def)
  moreover have "system_inv (system_do x s)" using system_step [of s x] live x(1) by (simp add: system_live_def)
  ultimately show ?thesis using x by (intro exI [of _ x]) (simp add: system_live_def, simp add: settle_def)
qed

lemma sum_list_update_less:
  "k < length xs \<Longrightarrow> f y < f (xs ! k) \<Longrightarrow> sum_list (map f (xs[k := y])) < (sum_list (map f xs) :: nat)"
  by (induction xs arbitrary: k) (auto split: nat.split)

text \<open>A phase in which listeners run until a condition \<open>Q\<close> holds of none of them.\<close>

lemma node_phase:
  fixes s :: "'h system"
  assumes step: "\<And>n. node_live n \<Longrightarrow> P n \<Longrightarrow> Q n \<Longrightarrow>
      \<exists>n'. node_task n n' \<and> P (node_flush n') \<and> (f (node_flush n') :: nat) < f n"
    and s: "system_live s" "threads_done s" "\<forall>n \<in> set (sy_nodes s). P n"
  shows "\<exists>t. leads s t \<and> system_live t \<and> threads_done t \<and> (\<forall>n \<in> set (sy_nodes t). P n \<and> \<not> Q n)"
proof -
  let ?I = "\<lambda>s :: 'h system. system_live s \<and> threads_done s \<and> (\<forall>n \<in> set (sy_nodes s). P n)"
  have "drainable unaided_enabled system_do ?I (\<lambda>s. \<exists>n \<in> set (sy_nodes s). Q n) (\<lambda>s. sum_list (map f (sy_nodes s)))"
  proof
    fix s :: "'h system"
    assume I: "?I s" and "\<exists>n \<in> set (sy_nodes s). Q n"
    then obtain k where k: "k < length (sy_nodes s)" "Q (sy_nodes s ! k)" by (metis in_set_conv_nth)
    have "node_live (sy_nodes s ! k)" "P (sy_nodes s ! k)"
      using I k(1) nodes_live_nth by (auto simp: system_live_def)
    from step [OF this k(2)] obtain n' where n': "node_task (sy_nodes s ! k) n'" "P (node_flush n')"
      "f (node_flush n') < f (sy_nodes s ! k)" by blast
    from node_task_system [OF _ k(1) n'(1)] I obtain x where x: "unaided_enabled x s" "system_live (system_do x s)"
      "sy_server (system_do x s) = sy_server s" "sy_nodes (system_do x s) = (sy_nodes s)[k := node_flush n']" by blast
    have "\<forall>n \<in> set (sy_nodes (system_do x s)). P n"
      using I n'(2) x(4) by (auto dest!: set_update_subset_insert [THEN subsetD])
    with I x n'(3) sum_list_update_less [OF k(1)] show "\<exists>x. unaided_enabled x s \<and> ?I (system_do x s) \<and>
        ((\<exists>n \<in> set (sy_nodes (system_do x s)). Q n) \<longrightarrow>
         sum_list (map f (sy_nodes (system_do x s))) < sum_list (map f (sy_nodes s)))"
      by (intro exI [of _ x]) simp
  qed
  from leads_drained [OF this, of s] s show ?thesis by blast
qed

text \<open>The starts and waits posted to a listener can be looked at.\<close>

lemma request_step:
  assumes "node_asked n \<noteq> []"
  shows "\<exists>n'. node_task n n' \<and> length (node_asked n') < length (node_asked n)"
proof (cases n)
  case (Accepting l)
  with assms obtain t where t: "t \<in> set (pending l)" "task_handlers t \<noteq> []" by (auto simp: asked_def)
  with asked_run [of t l all_succeed] have "length (asked (acceptor_do (Run t) all_succeed l)) < length (asked l)"
    by simp
  moreover have "node_task (Accepting l) (Accepting (acceptor_do (Run t) all_succeed l))"
    by (rule accepting_task; insert t; cases t; simp)
  ultimately show ?thesis using Accepting by auto
next
  case (Bound l)
  with assms obtain t where t: "t \<in> set (pending l)" "socket_task_handlers t \<noteq> []" by (auto simp: sock_asked_def)
  with sock_asked_run [of t l all_succeed]
  have "length (sock_asked (socket_do (Sock_run t, all_succeed) l)) < length (sock_asked l)" by simp
  moreover have "node_task (Bound l) (Bound (socket_do (Sock_run t, all_succeed) l))"
    by (rule bound_task; insert t; cases t; simp)
  ultimately show ?thesis using Bound by auto
qed

text \<open>A listener that was told to stop is stopping or stopped after one function object.\<close>

definition ending :: "listener_node \<Rightarrow> bool" where
  "ending n \<longleftrightarrow> node_state n = listener_stopping \<or> node_state n = listener_stopped"

lemma begin_stop_ends:
  assumes "m_state l \<noteq> listener_stopping" and "m_state l \<noteq> listener_stopped"
  shows "m_state (acceptor_begin_stop ec reason r l) \<in> {listener_stopping, listener_stopped}"
    (is "m_state ?l \<in> _")
proof (cases "m_state l = listener_idle")
  case True
  then show ?thesis by (simp add: acceptor_begin_stop_def Let_def acceptor_finish_fields)
next
  case False
  then have "m_state l = listener_starting \<or> m_state l = listener_running"
    using assms by (cases "m_state l") simp_all
  then show ?thesis by (simp add: acceptor_begin_stop_active acceptor_maybe_finish_def acceptor_finish_fields)
qed

lemma socket_stop_ends:
  assumes "m_state l \<noteq> listener_stopping" and "m_state l \<noteq> listener_stopped"
  shows "m_state (socket_stop_on_strand r l) \<in> {listener_stopping, listener_stopped}"
  using assms
  by (cases "m_state l") (auto simp: socket_stop_on_strand_def socket_stop_session_def socket_maybe_finish_def
      socket_finish_fields Let_def split: option.split)

lemma told_step:
  assumes "node_told n" and "\<not> ending n"
  shows "\<exists>n'. node_task n n' \<and> ending n'"
proof (cases n)
  case (Accepting l)
  with assms have "Stop_task \<in> set (pending l)" by (simp add: ending_def)
  then have "node_task (Accepting l) (Accepting (acceptor_do (Run Stop_task) all_succeed l))"
    by (intro accepting_task) simp_all
  with begin_stop_ends [of "l\<lparr> pending := remove1 Stop_task (pending l) \<rparr>"] Accepting assms(2) show ?thesis
    by (intro exI [of _ "Accepting (acceptor_do (Run Stop_task) all_succeed l)"])
      (simp add: ending_def acceptor_stop_on_strand_def)
next
  case (Bound l)
  with assms have "Sock_stop_task \<in> set (pending l)" by (simp add: ending_def)
  then have "node_task (Bound l) (Bound (socket_do (Sock_run Sock_stop_task, all_succeed) l))"
    by (intro bound_task) simp_all
  with socket_stop_ends [of "l\<lparr> pending := remove1 Sock_stop_task (pending l) \<rparr>"] Bound assms(2) show ?thesis
    by (intro exI [of _ "Bound (socket_do (Sock_run Sock_stop_task, all_succeed) l)"]) (simp add: ending_def)
qed

lemma ending_step:
  assumes "node_live n" and "node_state n = listener_stopping"
  shows "\<exists>n'. node_task n n' \<and> ending n' \<and> (node_state n' = listener_stopping \<longrightarrow> node_rank n' < node_rank n)"
proof (cases n)
  case (Accepting l)
  with assms acceptor_drain.progress [of l] obtain t where
    t: "\<not> needs_session t" "acceptor_enabled (Run t) all_succeed l"
    and next_state: "m_state (acceptor_do (Run t) all_succeed l) \<in> {listener_stopping, listener_stopped}"
    "m_state (acceptor_do (Run t) all_succeed l) = listener_stopping \<longrightarrow>
      drain_measure (acceptor_do (Run t) all_succeed l) < drain_measure l"
    unfolding script_enabled_def script_do_def by auto
  from t have "node_task n (Accepting (acceptor_do (Run t) all_succeed l))"
    unfolding Accepting using assms(2) Accepting by (intro accepting_task) simp_all
  with next_state Accepting show ?thesis
    by (intro exI [of _ "Accepting (acceptor_do (Run t) all_succeed l)"]) (simp add: ending_def)
next
  case (Bound l)
  with assms socket_drain.progress [of l] obtain t where
    t: "\<not> sock_needs_session t" "socket_enabled (Sock_run t, all_succeed) l"
    and next_state: "m_state (socket_do (Sock_run t, all_succeed) l) \<in> {listener_stopping, listener_stopped}"
    "m_state (socket_do (Sock_run t, all_succeed) l) = listener_stopping \<longrightarrow>
      stop_stage (socket_do (Sock_run t, all_succeed) l) < stop_stage l"
    by auto
  from t have "node_task n (Bound (socket_do (Sock_run t, all_succeed) l))"
    unfolding Bound by (rule bound_task)
  with next_state Bound show ?thesis
    by (intro exI [of _ "Bound (socket_do (Sock_run t, all_succeed) l)"]) (simp add: ending_def)
qed

lemma listeners_look:
  assumes "system_live s" "threads_done s"
  shows "\<exists>t. leads s t \<and> system_live t \<and> threads_done t \<and> (\<forall>n \<in> set (sy_nodes t). node_asked n = [])"
  using node_phase [of "\<lambda>n. True" "\<lambda>n. node_asked n \<noteq> []" "\<lambda>n. length (node_asked n)" s] request_step assms by simp

lemma listeners_stop:
  assumes "system_live s" "threads_done s" "\<forall>n \<in> set (sy_nodes s). node_asked n = [] \<and> node_told n"
  shows "\<exists>t. leads s t \<and> system_live t \<and> threads_done t \<and>
    (\<forall>n \<in> set (sy_nodes t). node_asked n = [] \<and> node_state n = listener_stopped)"
proof -
  have "\<exists>t. leads s t \<and> system_live t \<and> threads_done t \<and>
      (\<forall>n \<in> set (sy_nodes t). (node_asked n = [] \<and> (node_told n \<or> ending n)) \<and> \<not> \<not> ending n)"
  proof (rule node_phase [where f = "\<lambda>n. of_bool (\<not> ending n)"])
    fix n assume "node_asked n = [] \<and> (node_told n \<or> ending n)" "\<not> ending n"
    with told_step [of n] node_task_asked [of n] show
      "\<exists>n'. node_task n n' \<and> (node_asked (node_flush n') = [] \<and> (node_told (node_flush n') \<or> ending (node_flush n'))) \<and>
        of_bool (\<not> ending (node_flush n')) < (of_bool (\<not> ending n) :: nat)"
      by (auto simp: ending_def)
  qed (use assms in simp_all)
  then obtain u where u: "leads s u" "system_live u" "threads_done u"
    "\<forall>n \<in> set (sy_nodes u). node_asked n = [] \<and> ending n" by blast
  have "\<exists>t. leads u t \<and> system_live t \<and> threads_done t \<and>
      (\<forall>n \<in> set (sy_nodes t). (node_asked n = [] \<and> ending n) \<and> \<not> node_state n = listener_stopping)"
  proof (rule node_phase [where f = "\<lambda>n. if node_state n = listener_stopping then Suc (node_rank n) else 0"])
    fix n assume "node_live n" "node_asked n = [] \<and> ending n" "node_state n = listener_stopping"
    with ending_step [of n] node_task_asked [of n] show
      "\<exists>n'. node_task n n' \<and> (node_asked (node_flush n') = [] \<and> ending (node_flush n')) \<and>
        (if node_state (node_flush n') = listener_stopping then Suc (node_rank (node_flush n')) else 0)
        < (if node_state n = listener_stopping then Suc (node_rank n) else 0)"
      by (auto simp: ending_def)
  qed (use u in simp_all)
  with u(1) show ?thesis unfolding ending_def by (meson leads_trans)
qed


subsection \<open>Completions travel back\<close>

text \<open>Instructions after which no new child is submitted, and what they do to the listeners.\<close>

fun closing :: "'h instr \<Rightarrow> bool" where
  "closing (One g ec) \<longleftrightarrow> True"
| "closing (Finish finished values h ec) \<longleftrightarrow> True"
| "closing (Stop_one k) \<longleftrightarrow> True"
| "closing Control_stop \<longleftrightarrow> True"
| "closing _ \<longleftrightarrow> False"

lemma closing_exec:
  assumes "closing ins"
  shows "\<forall>i \<in> set (snd (exec ins e sv)). closing i"
    and "sv_calls (fst (exec ins e sv)) = sv_calls sv @ (case ins of Stop_one k \<Rightarrow> [Call_stop k] | _ \<Rightarrow> [])"
  using assms
  by (cases ins; auto simp: exec_one_def exec_finish_def complete_server_def call_listener_def Let_def
      split: prod.split option.splits)+

lemma closing_thread:
  assumes j: "j < length (sv_threads (sy_server s))" and ins: "sv_threads (sy_server s) ! j = ins # rest"
    and closing: "closing ins"
  shows "system_do (Sys_server (Do_run j e) r) s =
    (let s' = s\<lparr> sy_server := run_thread j e (sy_server s) \<rparr>
     in case ins of Stop_one k \<Rightarrow> settle k (node_request_stop r (sy_nodes s ! k)) s' | _ \<Rightarrow> s')"
proof -
  have "sv_calls (run_thread j e (sy_server s)) =
      sv_calls (sy_server s) @ (case ins of Stop_one k \<Rightarrow> [Call_stop k] | _ \<Rightarrow> [])"
    using ins closing_exec(2) [OF closing, of e "sy_server s"]
    by (cases "exec ins e (sy_server s)") (simp add: run_thread_def)
  then show ?thesis by (cases ins) (simp_all add: serve_def Let_def)
qed

lemma node_stop_fields:
  "node_completions (node_request_stop r n) = node_completions n"
  "node_asked (node_request_stop r n) = node_asked n" "node_state (node_request_stop r n) = node_state n"
  "node_told n \<Longrightarrow> node_told (node_request_stop r n)" "node_told (node_request_stop all_succeed n)"
proof -
  have "r_post all_succeed = None" by (simp add: all_succeed_def)
  then show "node_told (node_request_stop all_succeed n)"
    by (cases n) (simp_all add: acceptor_request_stop_def socket_request_stop_def post_def)
  show "node_completions (node_request_stop r n) = node_completions n"
    "node_asked (node_request_stop r n) = node_asked n" "node_state (node_request_stop r n) = node_state n"
    by (cases n; auto simp: acceptor_request_stop_def socket_request_stop_def split: option.split; simp add: post_def)+
  show "node_told n \<Longrightarrow> node_told (node_request_stop r n)"
    by (cases n) (auto simp: acceptor_request_stop_def socket_request_stop_def post_def split: option.split)
qed

definition closed_phase :: "bool \<Rightarrow> bool \<Rightarrow> 'h system \<Rightarrow> bool" where
  "closed_phase b c s \<longleftrightarrow> system_live s \<and> (\<forall>i \<in># instrs (sy_server s). closing i) \<and>
     (\<forall>n \<in> set (sy_nodes s). node_asked n = [] \<and> (b \<longrightarrow> node_state n = listener_stopped)) \<and>
     (c \<longrightarrow> (\<forall>k < length (sy_nodes s). node_told (sy_nodes s ! k) \<or> Stop_one k \<in># instrs (sy_server s)))"

definition arrival_cost :: "'h operation_group list \<Rightarrow> (nat \<times> nat) \<times> error_code \<Rightarrow> nat" where
  "arrival_cost gs a = length (g_listeners (gs ! fst (fst a))) + 3"

definition work :: "'h system \<Rightarrow> nat" where
  "work s = thread_cost (sy_server s) + sum_list (map (arrival_cost (sv_groups (sy_server s))) (sy_arriving s))"

lemma arriving_group:
  assumes "system_inv s" and "a \<in> set (sy_arriving s)"
  shows "fst (fst a) < length (sv_groups (sy_server s))"
proof (rule ccontr)
  let ?sv = "sy_server s"
  assume "\<not> fst (fst a) < length (sv_groups ?sv)"
  then have "outstanding (instrs ?sv) ?sv (fst (fst a)) = 0"
    using assms(1) server_okD(4) by (auto simp: system_inv_def server_inv_def)
  then have "fst (fst a) \<notin> set (map fst (sv_children ?sv))"
    by (simp add: outstanding_def count_list_0_iff)
  moreover have "fst a \<in># under_way s" using assms(2) by (simp add: under_way_def)
  then have "fst a \<in> set (sv_children ?sv)" using assms(1) by (simp add: system_inv_def)
  ultimately show False by simp
qed

lemma closing_thread_effect:
  fixes r :: asio and e :: server_env
  assumes inv: "system_inv s" and j: "j < length (sv_threads (sy_server s))"
    and ins: "sv_threads (sy_server s) ! j = ins # rest" and closing: "closing ins"
  defines "t \<equiv> system_do (Sys_server (Do_run j e) r) s"
  shows "sy_arriving t = sy_arriving s" and "sy_server t = run_thread j e (sy_server s)"
    and "sy_nodes t = (case ins of
      Stop_one k \<Rightarrow> (sy_nodes s)[k := node_flush (node_request_stop r (sy_nodes s ! k))] | _ \<Rightarrow> sy_nodes s)"
    and "ins = Stop_one k \<Longrightarrow> k < length (sy_nodes s)"
proof -
  have "Stop_one k \<in># instrs (sy_server s)" if "ins = Stop_one k" for k
    using that ins j by (auto simp: in_set_conv_nth intro!: bexI [of _ "sv_threads (sy_server s) ! j"])
  then show k: "ins = Stop_one k \<Longrightarrow> k < length (sy_nodes s)" for k
    using inv by (auto simp: system_inv_def server_in_range_def stops_ok_def nodes_ok_def)
  have "node_completions (sy_nodes s ! k) = []" if "ins = Stop_one k" for k
    using inv k [OF that] by (simp add: system_inv_def nodes_ok_def)
  then show "sy_arriving t = sy_arriving s" "sy_server t = run_thread j e (sy_server s)"
    "sy_nodes t = (case ins of
      Stop_one k \<Rightarrow> (sy_nodes s)[k := node_flush (node_request_stop r (sy_nodes s ! k))] | _ \<Rightarrow> sy_nodes s)"
    unfolding t_def closing_thread [OF j ins closing]
    by (cases ins; simp add: settle_def node_stop_fields Let_def)+
qed

lemma closed_thread_step:
  assumes phase: "closed_phase b c s" and j: "server_enabled (Do_run j quiet_env) (sy_server s)"
    and ins: "sv_threads (sy_server s) ! j = ins # rest"
  defines "t \<equiv> system_do (Sys_server (Do_run j quiet_env) all_succeed) s"
  shows "closed_phase b c t" and "work t < work s"
proof -
  let ?sv = "sy_server s" and ?sv' = "run_thread j quiet_env (sy_server s)"
  have live: "system_live s" and inv: "system_inv s" using phase by (simp_all add: closed_phase_def system_live_def)
  have jlen: "j < length (sv_threads ?sv)" using j by simp
  obtain N where N: "instrs ?sv = add_mset ins N" "instrs ?sv' = mset (snd (exec ins quiet_env ?sv)) + N"
    using instrs_run_thread [OF jlen ins] .
  have closing: "closing ins" using phase N(1) by (simp add: closed_phase_def)
  note t = closing_thread_effect(1-3) [OF inv jlen ins closing, of quiet_env all_succeed, folded t_def]
    closing_thread_effect(4) [OF inv jlen ins closing]
  have len: "length (sy_nodes t) = length (sy_nodes s)" using t(3) by (cases ins) simp_all
  have nodes: "node_asked n = [] \<and> (b \<longrightarrow> node_state n = listener_stopped)" if "n \<in> set (sy_nodes t)" for n
    using that phase t(3,4)
    by (cases ins) (auto simp: closed_phase_def node_stop_fields dest!: set_update_subset_insert [THEN subsetD])
  have told: "node_told (sy_nodes t ! i) \<or> Stop_one i \<in># instrs ?sv'" if "c" "i < length (sy_nodes t)" for i
  proof -
    have "node_told (sy_nodes s ! i) \<or> Stop_one i \<in># instrs ?sv" using len that phase by (simp add: closed_phase_def)
    then show ?thesis using t(3,4) that(2) len N by (cases ins) (auto simp: nth_list_update node_stop_fields)
  qed
  have "\<forall>i \<in># instrs ?sv'. closing i"
    using phase N closing_exec(1) [OF closing, of quiet_env ?sv] by (auto simp: closed_phase_def)
  with thread_live(2) [OF live j, folded t_def] nodes told t(2) show "closed_phase b c t"
    by (auto simp: closed_phase_def)
  have sv: "server_inv ?sv" using inv by (simp add: system_inv_def)
  have "arrival_cost (sv_groups ?sv') a = arrival_cost (sv_groups ?sv) a" if "a \<in> set (sy_arriving s)" for a
    using shape_nth(1) [OF run_thread_cost(2) [OF sv j ins] arriving_group [OF inv that]] by (simp add: arrival_cost_def)
  then have "map (arrival_cost (sv_groups ?sv')) (sy_arriving s) = map (arrival_cost (sv_groups ?sv)) (sy_arriving s)"
    by simp
  then show "work t < work s"
    unfolding work_def t(1,2) by (rule ssubst) (simp add: run_thread_cost(1) [OF sv j ins])
qed

lemma closed_deliver_step:
  assumes phase: "closed_phase b c s" and a: "(child, ec) \<in> set (sy_arriving s)"
  shows "closed_phase b c (system_do (Sys_deliver child ec) s)" and "work (system_do (Sys_deliver child ec) s) < work s"
proof -
  let ?sv = "sy_server s" and ?s = "system_do (Sys_deliver child ec) s"
  have inv: "system_inv s" using phase by (simp add: closed_phase_def system_live_def)
  have s: "?s = s\<lparr> sy_arriving := remove1 (child, ec) (sy_arriving s),
      sy_server := start_thread [One (fst child) ec] (?sv\<lparr> sv_children := remove1 child (sv_children ?sv) \<rparr>) \<rparr>"
    by (simp add: serve_def Let_def start_thread_def)
  have "nodes_live ?s" unfolding s using phase by (simp add: closed_phase_def system_live_def nodes_live_def)
  with deliver_step(2) [OF inv a] have "system_live ?s" by (simp only: system_live_def)
  then show "closed_phase b c ?s"
    using phase unfolding closed_phase_def s by (auto simp: start_thread_def)
  have "sum_list (map (arrival_cost (sv_groups ?sv)) (sy_arriving s)) =
      arrival_cost (sv_groups ?sv) (child, ec) + sum_list (map (arrival_cost (sv_groups ?sv)) (remove1 (child, ec) (sy_arriving s)))"
    using a by (rule sum_list_map_remove1)
  then show "work ?s < work s"
    unfolding s by (simp add: work_def thread_cost_def arrival_cost_def start_thread_def)
qed

interpretation closed: drainable unaided_enabled system_do "closed_phase b c"
  "\<lambda>s. \<not> threads_done s \<or> sy_arriving s \<noteq> []" work for b c
proof
  fix s :: "'h system"
  assume phase: "closed_phase b c s" and active: "\<not> threads_done s \<or> sy_arriving s \<noteq> []"
  show "\<exists>x. unaided_enabled x s \<and> closed_phase b c (system_do x s) \<and>
      (\<not> threads_done (system_do x s) \<or> sy_arriving (system_do x s) \<noteq> [] \<longrightarrow> work (system_do x s) < work s)"
  proof (cases "threads_done s")
    case True
    with active obtain child ec where a: "(child, ec) \<in> set (sy_arriving s)" by (cases "sy_arriving s") auto
    with closed_deliver_step [OF phase a] show ?thesis by (intro exI [of _ "Sys_deliver child ec"]) simp
  next
    case False
    then obtain j ins rest where j: "server_enabled (Do_run j quiet_env) (sy_server s)"
      "sv_threads (sy_server s) ! j = ins # rest" by (rule some_thread)
    have "system_live s" using phase by (simp add: closed_phase_def)
    from thread_live(1) [OF this j(1)] closed_thread_step [OF phase j] show ?thesis by blast
  qed
qed


subsection \<open>Shutting down\<close>

lemma completions_arrive:
  assumes "closed_phase b c s"
  shows "\<exists>t. leads s t \<and> closed_phase b c t \<and> threads_done t \<and> sy_arriving t = []"
proof -
  from leads_drained [OF closed.drainable_axioms assms] show ?thesis by blast
qed

text \<open>A stop is requested of a server whose threads have returned and reaches every listener.\<close>

abbreviation stop_request :: "'h system_action" where
  "stop_request \<equiv> Sys_server Do_request_stop all_succeed"

lemma stop_request_effect:
  "system_do stop_request s = s\<lparr> sy_server := server_request_stop (sy_server s) \<rparr>"
  by (simp add: serve_def Let_def server_request_stop_def start_thread_def)

lemma stop_reaches:
  assumes "closed_phase False False s" and "threads_done s"
  shows "\<exists>t. leads (system_do stop_request s) t \<and> system_live t \<and> threads_done t \<and>
    (\<forall>n \<in> set (sy_nodes t). node_asked n = [] \<and> node_told n)"
proof -
  have live: "system_live s" using assms(1) by (simp add: closed_phase_def)
  have len: "length (sy_nodes s) = length (sv_listeners (sy_server s))"
    using live by (simp add: system_live_def system_inv_def nodes_ok_def)
  define u where "u = system_do stop_request s"
  have u: "u = s\<lparr> sy_server := server_request_stop (sy_server s) \<rparr>"
    unfolding u_def by (rule stop_request_effect)
  have "system_live u"
    using live system_step [of s stop_request] serve_live by (auto simp: system_live_def u_def)
  moreover have "concat (sv_threads (sy_server u)) = Control_stop # map Stop_one (snapshot (sy_server s))"
    using assms(2) by (simp add: u server_request_stop_def start_thread_def)
  moreover have "sy_nodes u = sy_nodes s" by (simp add: u)
  ultimately have "closed_phase False True u"
    using assms(1) by (auto simp: closed_phase_def snapshot_def len)
  from completions_arrive [OF this] obtain t where t: "leads u t" "closed_phase False True t" "threads_done t" by blast
  then have "\<forall>n \<in> set (sy_nodes t). node_asked n = [] \<and> node_told n"
    by (auto simp: closed_phase_def in_set_conv_nth)
  with t show ?thesis by (auto simp: closed_phase_def u_def)
qed

text \<open>Before the stop everything comes to rest; after it the listeners drain.\<close>

lemma settles:
  assumes "system_live s"
  shows "\<exists>t. leads s t \<and> closed_phase False False t \<and> threads_done t \<and> sy_arriving t = []"
proof -
  obtain a where a: "leads s a" "system_live a" "threads_done a"
    using leads_drained [OF threads.drainable_axioms assms] by blast
  obtain b where b: "leads a b" "system_live b" "threads_done b" "\<forall>n \<in> set (sy_nodes b). node_asked n = []"
    using listeners_look [OF a(2,3)] by blast
  have "closed_phase False False b" using b by (force simp: closed_phase_def)
  from completions_arrive [OF this] a(1) b(1) show ?thesis by (meson leads_trans)
qed

lemma stop_completes_all:
  assumes "closed_phase False False s" and "threads_done s"
  shows "\<exists>t. leads (system_do stop_request s) t \<and> closed_phase True False t \<and> threads_done t \<and> sy_arriving t = []"
proof -
  from stop_reaches [OF assms] obtain d where d: "leads (system_do stop_request s) d" "system_live d" "threads_done d"
    "\<forall>n \<in> set (sy_nodes d). node_asked n = [] \<and> node_told n" by blast
  from listeners_stop [OF d(2,3,4)] obtain e where e: "leads d e" "system_live e" "threads_done e"
    "\<forall>n \<in> set (sy_nodes e). node_asked n = [] \<and> node_state n = listener_stopped" by blast
  have "closed_phase True False e" using e by (force simp: closed_phase_def)
  from completions_arrive [OF this] d(1) e(1) show ?thesis by (meson leads_trans)
qed

lemma closed_stopped_quiet:
  "closed_phase True c s \<Longrightarrow> n \<in> set (sy_nodes s) \<Longrightarrow> node_quiet n"
  by (cases n) (auto simp: closed_phase_def asked_def sock_asked_def)

lemma unaided_submitted: "list_all unaided xs \<Longrightarrow> sum_list (map system_submitted xs) = {#}"
proof (induction xs)
  case (Cons x xs)
  then show ?case by (cases x) (auto split: server_action.splits)
qed simp


definition example_system_running :: "nat system_action list" where
  "example_system_running = example_system_start @
     [Sys_acceptor 0 (Run Accept_handler) all_succeed, Sys_server (Do_async_wait 2 True) all_succeed]"


end
