(* ===== verification/Serveza_System_Status.thy ===== *)
theory Serveza_System_Status
  imports Serveza_System
begin

text \<open>
  The status functions of a server, \<open>status\<close>, \<open>is_ready\<close>, \<open>active_sessions\<close> and \<open>listeners\<close> of
  \<^verbatim>\<open>src/src/server.cpp\<close>, asked of a server with its listeners while no other thread runs.
\<close>

fun node_status :: "listener_node \<Rightarrow> listener_status" where
  "node_status (Accepting l) = status_of l"
| "node_status (Bound l) = status_of l"

definition system_listeners :: "'h system \<Rightarrow> listener_node list" where
  "system_listeners s = map (\<lambda>k. sy_nodes s ! k) (snapshot (sy_server s))"

definition system_status :: "'h system \<Rightarrow> server_status" where
  "system_status s = control_status (map node_status (system_listeners s)) (sv_control (sy_server s))"

definition system_is_ready :: "'h system \<Rightarrow> bool" where
  "system_is_ready s \<longleftrightarrow> ss_ready (system_status s)"

definition system_active_sessions :: "'h system \<Rightarrow> usize" where
  "system_active_sessions s = ss_active_sessions (system_status s)"

text \<open>The sessions a listener has, and whether it serves its endpoint.\<close>

fun node_sessions :: "listener_node \<Rightarrow> nat" where
  "node_sessions (Accepting l) = length (m_sessions l)"
| "node_sessions (Bound l) = (case m_session l of None \<Rightarrow> 0 | Some a \<Rightarrow> 1)"

fun node_serving :: "listener_node \<Rightarrow> bool" where
  "node_serving (Accepting l) \<longleftrightarrow> m_acceptor_open l \<and>
     (length (m_sessions l) < unat (max_active_sessions (m_options l)) \<longrightarrow>
        Accept_handler \<in> set (pending l) \<or> (\<exists>d. Retry_handler False d \<in> set (pending l)))"
| "node_serving (Bound l) \<longleftrightarrow> m_session l \<noteq> None"

lemma node_status_sessions: "node_inv n \<Longrightarrow> ls_active_sessions (node_status n) = of_nat (node_sessions n)"
  by (cases n) (auto simp: status_of_def acceptor_inv_def counters_ok_def socket_inv_def split: option.split)

lemma node_status_running: "node_inv n \<Longrightarrow> ls_state (node_status n) = listener_running \<Longrightarrow> node_serving n"
  by (cases n) (auto simp: status_of_def acceptor_inv_def counters_ok_def lifecycle_ok_def socket_inv_def
      count_list_0_iff [symmetric] split: if_splits)

lemma sum_of_nat_sessions:
  "\<forall>n \<in> set ns. node_inv n \<Longrightarrow>
     sum_list (map (ls_active_sessions \<circ> node_status) ns) = of_nat (sum_list (map node_sessions ns))"
  by (induction ns) (simp_all add: node_status_sessions)



end
