(* ===== verification/Serveza_System_Rest.thy ===== *)
theory Serveza_System_Rest
  imports Serveza_System_Shutdown Serveza_System_Status
begin

text \<open>
  When nothing is left to run: the function objects that remain in the queues of stopped
  listeners can all be run, and a listener with an empty queue has no session and is idle or
  stopped.
\<close>

fun node_empty :: "listener_node \<Rightarrow> bool" where
  "node_empty (Accepting l) \<longleftrightarrow> pending l = []"
| "node_empty (Bound l) \<longleftrightarrow> pending l = []"

text \<open>Everything that runs on the executor of a server: no call of its users.\<close>

fun pool_action :: "'h system_action \<Rightarrow> bool" where
  "pool_action (Sys_server x r) \<longleftrightarrow> (case x of Do_run j e \<Rightarrow> True | _ \<Rightarrow> False)"
| "pool_action (Sys_acceptor k x r) \<longleftrightarrow> (case x of Run t \<Rightarrow> True | Report_exception a ep \<Rightarrow> True | _ \<Rightarrow> False)"
| "pool_action (Sys_socket k x r) \<longleftrightarrow> (case x of Sock_run t \<Rightarrow> True | Sock_report a ep \<Rightarrow> True | _ \<Rightarrow> False)"
| "pool_action (Sys_deliver child ec) \<longleftrightarrow> True"
| "pool_action _ \<longleftrightarrow> False"

lemma unaided_pool: "unaided x \<Longrightarrow> pool_action x"
  by (cases x) (auto split: acceptor_action.splits socket_action.splits)

subsection \<open>Listeners with an empty queue\<close>

lemma acceptor_empty_rests:
  assumes inv: "acceptor_inv l" and heap: "heap_inv {} l" and empty: "pending l = []"
  shows "m_sessions l = []" and "m_state l = listener_idle \<or> m_state l = listener_stopped"
proof -
  have "\<not> unfinished l a" for a using heap empty by (auto simp: heap_inv_def heap_ok_def driven_def)
  then have "filter_mset (\<lambda>c. \<not> conn_finished c) (mset (conns l)) = {#}"
    by (auto simp: unfinished_def in_set_conv_nth filter_mset_eq_conv)
  then have "live_ids l = {#}" using empty by (simp add: live_ids_def)
  then show s: "m_sessions l = []" using heap by (simp add: heap_inv_def heap_ok_def ids_ok_def)
  have "\<not> m_accept_pending l" using inv empty by (auto simp: acceptor_inv_def counters_ok_def split: if_splits)
  moreover have "0 < session_limit l" using inv by (simp add: acceptor_inv_def counters_ok_def)
  ultimately show "m_state l = listener_idle \<or> m_state l = listener_stopped"
    using inv empty s by (cases "m_state l") (simp_all add: acceptor_inv_def lifecycle_ok_def drained_def)
qed

lemma socket_empty_rests:
  assumes inv: "sess_inv l" and empty: "pending l = []"
  shows "m_session l = None" and "m_state l = listener_idle \<or> m_state l = listener_stopped"
proof -
  have ok: "sess_ok {} l" and sock: "socket_inv l" using inv by (simp_all add: sess_inv_def)
  have "\<not> sess_open l a" for a using ok empty by (auto simp: sess_ok_def sess_driven_def)
  moreover have "notices l = 0" using empty by (simp add: notices_def)
  ultimately show s: "m_session l = None" using ok by (auto simp: sess_ok_def split: if_splits)
  then show "m_state l = listener_idle \<or> m_state l = listener_stopped"
    using sock by (cases "m_state l") (simp_all add: socket_inv_def)
qed

lemma node_empty_rests:
  assumes "node_live n" and "node_empty n"
  shows "node_sessions n = 0" and "node_state n = listener_idle \<or> node_state n = listener_stopped"
  using assms acceptor_empty_rests socket_empty_rests by (cases n; force)+

subsection \<open>The queues of stopped listeners\<close>

lemma stopped_acceptor_task:
  assumes inv: "acceptor_inv l" and heap: "heap_inv {} l" and st: "m_state l = listener_stopped"
    and asked: "asked l = []" and t: "t \<in> set (pending l)"
  defines "l' \<equiv> acceptor_do (Run t) all_succeed l"
  shows "m_state l' = listener_stopped"
    and "pending l' = remove1 t (pending l) @ (case t of Conn_start a \<Rightarrow> [Conn_handler a] | _ \<Rightarrow> [])"
proof -
  have s: "m_sessions l = []" "\<not> m_accept_pending l" "m_waiters l = []"
    using inv st by (simp_all add: acceptor_inv_def lifecycle_ok_def drained_def)
  then have "live_ids l = {#}" using heap by (auto simp: heap_inv_def heap_ok_def ids_ok_def)
  then have notice: "finished_ids t = []" using t by (auto simp: live_ids_def)
  have fin: "conn_finished (conns l ! a)" if "a \<in> set (task_conns t)" for a
  proof -
    have "a < length (conns l)" using that t heap by (auto simp: heap_inv_def heap_ok_def addresses_ok_def)
    moreover have "\<not> unfinished l a" using unfinished_in_sessions [of "{}" l a] heap s(1) by (auto simp: heap_inv_def)
    ultimately show ?thesis by (simp add: unfinished_def)
  qed
  have "t \<noteq> Accept_handler"
    using t inv s(2) by (auto simp: acceptor_inv_def counters_ok_def count_list_0_iff)
  moreover have "task_handlers t = []" using asked t by (auto simp: asked_def)
  ultimately have "m_state l' = listener_stopped \<and>
      pending l' = remove1 t (pending l) @ (case t of Conn_start a \<Rightarrow> [Conn_handler a] | _ \<Rightarrow> [])"
    using st s notice fin unfolding l'_def
    by (cases t) (simp_all add: cancel_wait_def acceptor_stop_on_strand_def acceptor_begin_stop_def
        acceptor_retry_expired_def acceptor_accept_next_def acceptor_maybe_finish_def acceptor_shutdown_expired_def
        failed_def Let_def conn_start_def conn_finish_def notify_owner_def connection_finish_def
        connection_complete_def listener_helpers all_succeed_def)
  then show "m_state l' = listener_stopped"
    "pending l' = remove1 t (pending l) @ (case t of Conn_start a \<Rightarrow> [Conn_handler a] | _ \<Rightarrow> [])" by simp_all
qed

lemma stopped_socket_task:
  assumes inv: "sess_inv l" and st: "m_state l = listener_stopped"
    and asked: "sock_asked l = []" and t: "t \<in> set (pending l)"
  defines "l' \<equiv> socket_do (Sock_run t, all_succeed) l"
  shows "m_state l' = listener_stopped"
    and "pending l' = remove1 t (pending l) @ (case t of Sess_start a \<Rightarrow> [Sess_handler a] | _ \<Rightarrow> [])"
proof -
  have ok: "sess_ok {} l" and s: "m_session l = None" "m_waiters l = []"
    using inv st by (simp_all add: sess_inv_def socket_inv_def)
  then have "notices l = 0" by (simp add: sess_ok_def)
  then have notice: "\<not> is_notice t" using t by (auto simp: notices_def filter_empty_conv)
  have fin: "conn_finished (sess l ! a)" if "a \<in> set (sess_of t)" for a
  proof -
    have "a < length (sess l)" using that t ok by (auto simp: sess_ok_def)
    moreover have "\<not> sess_open l a" using ok s(1) by (auto simp: sess_ok_def)
    ultimately show ?thesis by (simp add: sess_open_def)
  qed
  have "socket_task_handlers t = []" using asked t by (auto simp: sock_asked_def)
  then have "m_state l' = listener_stopped \<and>
      pending l' = remove1 t (pending l) @ (case t of Sess_start a \<Rightarrow> [Sess_handler a] | _ \<Rightarrow> [])"
    using st s notice fin unfolding l'_def
    by (cases t) (simp_all add: cancel_wait_def socket_stop_on_strand_def socket_shutdown_expired_def
        failed_def Let_def sess_start_def sess_finish_def sess_notify_def connection_finish_def
        connection_complete_def listener_helpers all_succeed_def)
  then show "m_state l' = listener_stopped"
    "pending l' = remove1 t (pending l) @ (case t of Sess_start a \<Rightarrow> [Sess_handler a] | _ \<Rightarrow> [])" by simp_all
qed

text \<open>What is still queued at a stopped listener can be run.\<close>

fun starts_connection :: "'h acceptor_task \<Rightarrow> bool" where
  "starts_connection (Conn_start a) \<longleftrightarrow> True"
| "starts_connection _ \<longleftrightarrow> False"

fun starts_session :: "'h socket_task \<Rightarrow> bool" where
  "starts_session (Sess_start a) \<longleftrightarrow> True"
| "starts_session _ \<longleftrightarrow> False"

fun queued :: "listener_node \<Rightarrow> nat" where
  "queued (Accepting l) = length (pending l) + length (filter starts_connection (pending l))"
| "queued (Bound l) = length (pending l) + length (filter starts_session (pending l))"

lemma removed_weight:
  assumes "t \<in> set ts" and "length new \<le> of_bool (P t)" and "filter P new = []"
  shows "length (remove1 t ts @ new) + length (filter P (remove1 t ts @ new)) < length ts + length (filter P ts)"
proof -
  have "length (remove1 t ts) + 1 = length ts"
    "length (filter P (remove1 t ts)) + of_bool (P t) = length (filter P ts)"
    using assms(1) by (induction ts) auto
  with assms(2,3) show ?thesis by simp
qed

abbreviation pool_enabled :: "'h system_action \<Rightarrow> 'h system \<Rightarrow> bool" where
  "pool_enabled x s \<equiv> pool_action x \<and> system_enabled x s \<and> has_room x s"

lemma leftover_step:
  assumes "node_live n" and "node_state n = listener_stopped" and "node_asked n = []" and "\<not> node_empty n"
    and k: "k < length (sy_nodes s)" "sy_nodes s ! k = n"
  obtains x n' where "pool_enabled x s" and "system_do x s = settle k n' s" and "node_step n {#} n'"
    and "node_live n'" and "node_state n' = listener_stopped" and "node_asked n' = []" and "queued n' < queued n"
proof (cases n)
  case (Accepting l)
  with assms obtain t where t: "t \<in> set (pending l)" by (cases "pending l") auto
  let ?x = "Run t" and ?n = "Accepting (acceptor_do (Run t) all_succeed l)"
  have l: "acceptor_inv l" "heap_inv {} l" "m_state l = listener_stopped" "asked l = []"
    using assms Accepting by simp_all
  note task = stopped_acceptor_task [OF l t]
  have en: "acceptor_enabled ?x all_succeed l" using t by (simp add: all_succeed_def timer_delivers_def split: acceptor_task.split)
  show thesis
  proof (rule that)
    show "pool_enabled (Sys_acceptor k ?x all_succeed) s" using en k Accepting l(3) by (cases t) simp_all
    show "system_do (Sys_acceptor k ?x all_succeed) s = settle k ?n s" using k Accepting by simp
    show "node_step n {#} ?n" using acceptor_node_step [OF l(1) _ en] Accepting by simp
    show "node_live ?n" using acceptor_live_do [of l all_succeed ?x] en l by simp
    show "node_state ?n = listener_stopped" using task(1) by simp
    show "node_asked ?n = []" using asked_run [of t l all_succeed] l(4) t by simp
    show "queued ?n < queued n"
      unfolding Accepting queued.simps task(2) using t by (intro removed_weight) (cases t; simp)+
  qed
next
  case (Bound l)
  with assms obtain t where t: "t \<in> set (pending l)" by (cases "pending l") auto
  let ?n = "Bound (socket_do (Sock_run t, all_succeed) l)"
  have l: "sess_inv l" "m_state l = listener_stopped" "sock_asked l = []" using assms Bound by simp_all
  note task = stopped_socket_task [OF l t]
  have en: "socket_enabled (Sock_run t, all_succeed) l"
    using t by (simp add: all_succeed_def timer_delivers_def split: socket_task.split)
  show thesis
  proof (rule that)
    show "pool_enabled (Sys_socket k (Sock_run t) all_succeed) s" using en k Bound by simp
    show "system_do (Sys_socket k (Sock_run t) all_succeed) s = settle k ?n s" using k Bound by simp
    show "node_step n {#} ?n" using socket_node_step [of l "Sock_run t" all_succeed] en l(1) Bound by (simp add: sess_inv_def)
    show "node_live ?n" using sess_inv_step [OF l(1) en] by simp
    show "node_state ?n = listener_stopped" using task(1) by simp
    show "node_asked ?n = []" using sock_asked_run [of t l all_succeed] l(3) t by simp
    show "queued ?n < queued n"
      unfolding Bound queued.simps task(2) using t by (intro removed_weight) (cases t; simp)+
  qed
qed

lemma queued_flush [simp]: "queued (node_flush n) = queued n"
  by (cases n) simp_all

definition at_rest :: "'h system \<Rightarrow> bool" where
  "at_rest s \<longleftrightarrow> closed_phase True False s \<and> threads_done s \<and> sy_arriving s = []"

lemma leftover_system_step:
  assumes s: "at_rest s" and n: "n \<in> set (sy_nodes s)" "\<not> node_empty n"
  shows "\<exists>x. pool_enabled x s \<and> at_rest (system_do x s) \<and> sy_server (system_do x s) = sy_server s \<and>
    sum_list (map queued (sy_nodes (system_do x s))) < sum_list (map queued (sy_nodes s))"
proof -
  from n(1) obtain k where k: "k < length (sy_nodes s)" "sy_nodes s ! k = n" by (metis in_set_conv_nth)
  have live: "system_live s" using s by (simp add: at_rest_def closed_phase_def)
  have st: "node_live n" "node_state n = listener_stopped" "node_asked n = []"
    using s n(1) by (simp_all add: at_rest_def closed_phase_def system_live_def nodes_live_def)
  obtain x n' where x: "pool_enabled x s" "system_do x s = settle k n' s" "node_step n {#} n'" "node_live n'"
    "node_state n' = listener_stopped" "node_asked n' = []" "queued n' < queued n"
    by (rule leftover_step [OF st n(2) k])
  have quiet: "node_quiet n" using closed_stopped_quiet [of False s n] s n(1) by (simp add: at_rest_def)
  moreover have "node_inv n" "node_completions n = []"
    using live n(1) by (simp_all add: system_live_def system_inv_def nodes_ok_def)
  ultimately have "node_completions n' = []"
    using x(3) node_quiet_held [of n] by (simp add: node_step_def)
  then have eff: "sy_arriving (system_do x s) = sy_arriving s" "sy_server (system_do x s) = sy_server s"
    "sy_nodes (system_do x s) = (sy_nodes s)[k := node_flush n']" by (simp_all add: x(2) settle_def)
  have "nodes_live (system_do x s)" unfolding x(2) using live x(4) by (simp add: settle_live system_live_def)
  moreover have "system_inv (system_do x s)" using system_step [of s x] live x(1) by (simp add: system_live_def)
  ultimately have "system_live (system_do x s)" by (simp add: system_live_def)
  moreover have "\<forall>m \<in> set (sy_nodes (system_do x s)). node_asked m = [] \<and> node_state m = listener_stopped"
    using s x(5,6) unfolding eff(3) at_rest_def closed_phase_def
    by (auto dest!: set_update_subset_insert [THEN subsetD])
  ultimately have "at_rest (system_do x s)"
    using s eff(1,2) by (simp add: at_rest_def closed_phase_def)
  with x(1) eff sum_list_update_less [OF k(1), of queued "node_flush n'"] x(7) k(2) show ?thesis
    by (intro exI [of _ x]) simp
qed

lemma queues_empty:
  fixes s :: "'h system"
  assumes "at_rest s"
  shows "\<exists>xs t. run_script pool_enabled system_do xs s = Some t \<and> at_rest t \<and> (\<forall>n \<in> set (sy_nodes t). node_empty n)"
proof -
  have "drainable pool_enabled system_do (at_rest :: 'h system \<Rightarrow> bool) (\<lambda>s. \<exists>n \<in> set (sy_nodes s). \<not> node_empty n)
      (\<lambda>s. sum_list (map queued (sy_nodes s)))"
    using leftover_system_step by unfold_locales blast
  from drainable.drains [OF this assms] show ?thesis by blast
qed

end
