(* ===== verification/Serveza_Examples.thy ===== *)
theory Serveza_Examples
  imports Serveza_Endpoint Serveza_Status
begin

text \<open>
  The main functions of the example programs, \<^verbatim>\<open>src/examples/*/src/main.cpp\<close>: what they do
  when a signal arrives and when \<open>async_start\<close> and \<open>async_wait\<close> of the server complete, and
  the exit status they return after \<open>pool.join()\<close>.

  All handlers run on one strand.  The state has the variable \<open>result\<close>, what is left of the
  wait on the signal set, the number of calls of \<open>server.request_stop()\<close>, the lines printed to
  the two streams, and which of the handlers of \<open>async_start\<close> and \<open>async_wait\<close> have run.  The
  programs differ in the text they print, a record \<open>main_text\<close>; \<open>message\<close> is
  \<open>error_code::message\<close>.
\<close>

datatype signal_wait = Signal_waiting | Signal_cancelled | Signal_handled

record example_main =
  em_result :: nat
  em_signal :: signal_wait
  em_stops :: nat
  em_out :: "string list"
  em_err :: "string list"
  em_started :: bool
  em_waited :: bool

record main_text =
  mt_stopping :: string
  mt_stopped_error :: string
  mt_stopped :: "string option"
  mt_start_failed :: string
  mt_running :: "string list \<Rightarrow> string list"     \<comment> \<open>given the endpoints of the listeners\<close>

definition EXIT_SUCCESS :: nat where "EXIT_SUCCESS = 0"

definition EXIT_FAILURE :: nat where "EXIT_FAILURE = 1"

definition new_main :: example_main where
  "new_main =
     \<lparr> em_result = EXIT_SUCCESS, em_signal = Signal_waiting, em_stops = 0, em_out = [], em_err = [],
       em_started = False, em_waited = False \<rparr>"

definition main_print :: "string list \<Rightarrow> example_main \<Rightarrow> example_main" where
  "main_print ls m = m\<lparr> em_out := em_out m @ ls \<rparr>"

definition main_complain :: "string \<Rightarrow> example_main \<Rightarrow> example_main" where
  "main_complain l m = m\<lparr> em_err := em_err m @ [l] \<rparr>"

definition main_request_stop :: "example_main \<Rightarrow> example_main" where
  "main_request_stop m = m\<lparr> em_stops := em_stops m + 1 \<rparr>"

definition main_cancel_signals :: "example_main \<Rightarrow> example_main" where
  "main_cancel_signals m =
     (if em_signal m = Signal_waiting then m\<lparr> em_signal := Signal_cancelled \<rparr> else m)"

subsection \<open>The programs with callbacks\<close>

definition main_signal :: "main_text \<Rightarrow> error_code \<Rightarrow> example_main \<Rightarrow> example_main" where
  "main_signal t ec m =
     (if failed ec then m
      else let m = main_print [mt_stopping t] m
           in main_request_stop m)"

definition main_waited ::
    "main_text \<Rightarrow> (error_code \<Rightarrow> string) \<Rightarrow> error_code \<Rightarrow> example_main \<Rightarrow> example_main" where
  "main_waited t message ec m =
     (let m = (if failed ec
               then let m = main_complain (mt_stopped_error t @ message ec) m
                    in m\<lparr> em_result := EXIT_FAILURE \<rparr>
               else m);
          m = (case mt_stopped t of None \<Rightarrow> m | Some line \<Rightarrow> main_print [line] m)
      in main_cancel_signals m)"

definition main_started ::
    "main_text \<Rightarrow> (error_code \<Rightarrow> string) \<Rightarrow> string list \<Rightarrow> error_code \<Rightarrow> example_main \<Rightarrow> example_main" where
  "main_started t message endpoints ec m =
     (if failed ec
      then let m = main_complain (mt_start_failed t @ message ec) m;
               m = m\<lparr> em_result := EXIT_FAILURE \<rparr>
           in main_request_stop m
      else main_print (mt_running t endpoints) m)"

datatype main_event =
    Signal error_code
  | Started "string list" error_code
  | Waited error_code

fun main_enabled :: "main_event \<Rightarrow> example_main \<Rightarrow> bool" where
  "main_enabled (Signal ec) m \<longleftrightarrow> em_signal m \<noteq> Signal_handled"
| "main_enabled (Started endpoints ec) m \<longleftrightarrow> \<not> em_started m"
| "main_enabled (Waited ec) m \<longleftrightarrow> \<not> em_waited m"

fun main_do :: "main_text \<Rightarrow> (error_code \<Rightarrow> string) \<Rightarrow> main_event \<Rightarrow> example_main \<Rightarrow> example_main" where
  "main_do t message (Signal ec) m = main_signal t ec (m\<lparr> em_signal := Signal_handled \<rparr>)"
| "main_do t message (Started endpoints ec) m =
     main_started t message endpoints ec (m\<lparr> em_started := True \<rparr>)"
| "main_do t message (Waited ec) m = main_waited t message ec (m\<lparr> em_waited := True \<rparr>)"

subsection \<open>The programs with a coroutine\<close>

text \<open>
  \<open>YieldEcho\<close> and \<open>CoroutineEcho\<close> run one coroutine that awaits \<open>async_start\<close> and then
  \<open>async_wait\<close>: it is resumed by the results of the two, in this order.
\<close>

fun coroutine_enabled :: "main_event \<Rightarrow> example_main \<Rightarrow> bool" where
  "coroutine_enabled (Signal ec) m \<longleftrightarrow> em_signal m \<noteq> Signal_handled"
| "coroutine_enabled (Started endpoints ec) m \<longleftrightarrow> \<not> em_started m"
| "coroutine_enabled (Waited ec) m \<longleftrightarrow> em_started m \<and> \<not> em_waited m"

definition yield_main_started ::
    "main_text \<Rightarrow> (error_code \<Rightarrow> string) \<Rightarrow> string list \<Rightarrow> error_code \<Rightarrow> example_main \<Rightarrow> example_main" where
  "yield_main_started t message endpoints ec m =
     (if failed ec
      then main_request_stop ((main_complain (mt_start_failed t @ message ec) m)\<lparr> em_result := EXIT_FAILURE \<rparr>)
      else main_print (mt_running t endpoints) m)"

definition yield_main_waited ::
    "main_text \<Rightarrow> (error_code \<Rightarrow> string) \<Rightarrow> error_code \<Rightarrow> example_main \<Rightarrow> example_main" where
  "yield_main_waited t message ec m =
     (let m = (if failed ec
               then (main_complain (mt_stopped_error t @ message ec) m)\<lparr> em_result := EXIT_FAILURE \<rparr>
               else m);
          m = (case mt_stopped t of None \<Rightarrow> m | Some line \<Rightarrow> main_print [line] m)
      in main_cancel_signals m)"

fun yield_main_do :: "main_text \<Rightarrow> (error_code \<Rightarrow> string) \<Rightarrow> main_event \<Rightarrow> example_main \<Rightarrow> example_main" where
  "yield_main_do t message (Signal ec) m = main_signal t ec (m\<lparr> em_signal := Signal_handled \<rparr>)"
| "yield_main_do t message (Started endpoints ec) m =
     yield_main_started t message endpoints ec (m\<lparr> em_started := True \<rparr>)"
| "yield_main_do t message (Waited ec) m = yield_main_waited t message ec (m\<lparr> em_waited := True \<rparr>)"

lemma yield_main_do_eq: "yield_main_do t message e m = main_do t message e m"
  by (cases e) (simp_all add: yield_main_started_def yield_main_waited_def main_started_def main_waited_def Let_def
      split: option.split)

text \<open>The completion handler of \<open>co_spawn\<close> in \<open>CoroutineEcho\<close>; its argument is \<open>e.what()\<close>.\<close>

definition coroutine_main_ended :: "string option \<Rightarrow> example_main \<Rightarrow> example_main" where
  "coroutine_main_ended ep m =
     (case ep of
        None \<Rightarrow> m
      | Some what \<Rightarrow> main_complain (''Coroutine failed: '' @ what) (m\<lparr> em_result := EXIT_FAILURE \<rparr>))"

subsection \<open>The programs\<close>

definition socat_lines :: "string \<Rightarrow> string list \<Rightarrow> string list" where
  "socat_lines name endpoints =
     [''Serveza '' @ name @ '' echo example is running.'',
      ''Listening on tcp://'' @ concat endpoints, ''I/O worker threads: 4'',
      ''Connect with: socat STDIO TCP4:localhost:54321'']"

definition callback_text :: main_text where
  "callback_text =
     \<lparr> mt_stopping = ''Stopping Serveza callback echo example.'',
       mt_stopped_error = ''Listener stopped with error: '',
       mt_stopped = Some ''Serveza callback echo example stopped.'',
       mt_start_failed = ''Listener start failed: '',
       mt_running = socat_lines ''callback'' \<rparr>"

definition yield_text :: main_text where
  "yield_text =
     \<lparr> mt_stopping = ''Stopping Serveza yield echo example.'',
       mt_stopped_error = ''Listener stopped with error: '',
       mt_stopped = Some ''Serveza yield echo example stopped.'',
       mt_start_failed = ''Listener start failed: '',
       mt_running = socat_lines ''yield'' \<rparr>"

definition coroutine_text :: main_text where
  "coroutine_text =
     \<lparr> mt_stopping = ''Stopping Serveza coroutine echo example.'',
       mt_stopped_error = ''Listener stopped with error: '',
       mt_stopped = Some ''Serveza coroutine echo example stopped.'',
       mt_start_failed = ''Listener start failed: '',
       mt_running = socat_lines ''coroutine'' \<rparr>"

definition udp_text :: main_text where
  "udp_text =
     \<lparr> mt_stopping = ''Stopping Serveza UDP echo example.'',
       mt_stopped_error = ''UDP listener stopped with error: '',
       mt_stopped = None,
       mt_start_failed = ''UDP listener start failed: '',
       mt_running = (\<lambda>endpoints.
         [''Serveza UDP echo is listening on '' @ concat endpoints,
          ''Try: echo hello | socat - UDP4:localhost:54321'']) \<rparr>"

definition tls_text :: main_text where
  "tls_text =
     \<lparr> mt_stopping = ''Stopping Serveza TLS echo example.'',
       mt_stopped_error = ''TLS listener stopped with error: '',
       mt_stopped = None,
       mt_start_failed = ''TLS listener start failed: '',
       mt_running = (\<lambda>endpoints.
         [''Serveza TLS echo is listening on '' @ concat endpoints, ''I/O worker threads: 4'',
          ''Connect with: openssl s_client -connect localhost:54321 -quiet'']) \<rparr>"

definition http_text :: main_text where
  "http_text =
     \<lparr> mt_stopping = ''Stopping Serveza HTTP echo example.'',
       mt_stopped_error = ''HTTP listener stopped with error: '',
       mt_stopped = None,
       mt_start_failed = ''HTTP listener start failed: '',
       mt_running = (\<lambda>endpoints.
         [''Serveza HTTP echo is listening on '' @ concat endpoints, ''I/O worker threads: 4'',
          ''Try: curl http://localhost:8080/ --data '' @ [CHR 0x27] @ ''Hello World'' @ [CHR 0x27]]) \<rparr>"

definition https_text :: main_text where
  "https_text =
     \<lparr> mt_stopping = ''Stopping Serveza HTTPS echo example.'',
       mt_stopped_error = ''HTTPS listener stopped with error: '',
       mt_stopped = None,
       mt_start_failed = ''HTTPS listener start failed: '',
       mt_running = (\<lambda>endpoints.
         [''Serveza HTTPS echo is listening on '' @ concat endpoints, ''I/O worker threads: 4'',
          ''Try: curl --insecure https://localhost:8443/ --data '' @ [CHR 0x27] @ ''Hello World'' @ [CHR 0x27]]) \<rparr>"

text \<open>\<open>LocalEcho\<close> has two listeners; the paths are those it prints.\<close>

definition local_text :: "string \<Rightarrow> string \<Rightarrow> main_text" where
  "local_text stream_path datagram_path =
     \<lparr> mt_stopping = ''Stopping Serveza local echo example.'',
       mt_stopped_error = ''Local listeners stopped with error: '',
       mt_stopped = None,
       mt_start_failed = ''Local listener start failed: '',
       mt_running = (\<lambda>endpoints.
         [''Local stream endpoint: '' @ concat (take 1 endpoints),
          ''Local datagram endpoint: '' @ concat (drop 1 endpoints),
          ''Try stream: socat STDIO UNIX-CONNECT:'' @ stream_path,
          ''Try datagram: echo hello | socat - UNIX-SENDTO:'' @ datagram_path,
          ''I/O worker threads: 4'']) \<rparr>"

text \<open>The handlers of each program, as one function of the event that calls them.\<close>

type_synonym main_program = "(error_code \<Rightarrow> string) \<Rightarrow> main_event \<Rightarrow> example_main \<Rightarrow> example_main"

definition callback_main :: main_program where
  "callback_main = main_do callback_text"

definition udp_main :: main_program where
  "udp_main = main_do udp_text"

definition tls_main :: main_program where
  "tls_main = main_do tls_text"

definition http_main :: main_program where
  "http_main = main_do http_text"

definition https_main :: main_program where
  "https_main = main_do https_text"

definition local_main :: "string \<Rightarrow> string \<Rightarrow> main_program" where
  "local_main stream_path datagram_path = main_do (local_text stream_path datagram_path)"

definition yield_main :: main_program where
  "yield_main = yield_main_do yield_text"

definition coroutine_main :: main_program where
  "coroutine_main = yield_main_do coroutine_text"

subsection \<open>Exit status\<close>

lemmas main_defs = main_signal_def main_waited_def main_started_def main_print_def main_complain_def
  main_request_stop_def main_cancel_signals_def EXIT_FAILURE_def EXIT_SUCCESS_def Let_def

definition reports_error :: "main_event \<Rightarrow> bool" where
  "reports_error e = (case e of Signal ec \<Rightarrow> False | Started es ec \<Rightarrow> failed ec | Waited ec \<Rightarrow> failed ec)"

definition asks_stop :: "main_event \<Rightarrow> bool" where
  "asks_stop e = (case e of Signal ec \<Rightarrow> \<not> failed ec | Started es ec \<Rightarrow> failed ec | Waited ec \<Rightarrow> False)"

lemma reports_error_iff:
  "reports_error e \<longleftrightarrow> (\<exists>ec. failed ec \<and> (e = Waited ec \<or> (\<exists>endpoints. e = Started endpoints ec)))"
  by (cases e) (simp_all add: reports_error_def)

lemma main_step:
  "em_result (main_do t message e m) = (if reports_error e then EXIT_FAILURE else em_result m)"
  "em_stops (main_do t message e m) = em_stops m + of_bool (asks_stop e)"
  "(em_waited m \<longrightarrow> em_signal m \<noteq> Signal_waiting) \<Longrightarrow>
     em_waited (main_do t message e m) \<longrightarrow> em_signal (main_do t message e m) \<noteq> Signal_waiting"
  by (cases e; simp add: main_defs reports_error_def asks_stop_def split: option.split)+

lemma main_run:
  assumes "run_script main_enabled (main_do t message) xs m0 = Some m"
  shows "em_result m = (if \<exists>e \<in> set xs. reports_error e then EXIT_FAILURE else em_result m0)
    \<and> em_stops m = em_stops m0 + length (filter asks_stop xs)
    \<and> ((em_waited m0 \<longrightarrow> em_signal m0 \<noteq> Signal_waiting) \<longrightarrow> em_waited m \<longrightarrow> em_signal m \<noteq> Signal_waiting)"
  using assms
proof (induction xs arbitrary: m0)
  case (Cons x xs)
  then have "run_script main_enabled (main_do t message) xs (main_do t message x m0) = Some m"
    by (simp split: if_splits)
  from Cons.IH [OF this] main_step [where t = t and message = message and e = x and m = m0] show ?case by auto
qed simp

lemma main_waits:
  assumes "run_script main_enabled (main_do t message) xs m0 = Some m"
  shows "(\<exists>ec. Waited ec \<in> set xs) \<or> em_waited m0 \<Longrightarrow> em_waited m"
  using assms
proof (induction xs arbitrary: m0)
  case (Cons x xs)
  have "em_waited (main_do t message x m0) \<longleftrightarrow> em_waited m0 \<or> (\<exists>ec. x = Waited ec)"
    by (cases x; simp add: main_defs split: option.split)
  with Cons show ?case by (auto split: if_splits)
qed simp

text \<open>
  An example returns a failure exactly if its server failed to start or stopped with an
  error, in whatever order the handlers run.  It asks the server to stop once per signal and
  once for a failed start, and at no other time.  When the server has stopped, the wait on the
  signals is over or cancelled, so that nothing is left that \<open>pool.join()\<close> waits for.
\<close>

lemma main_exit_status:
  assumes "run_script main_enabled (program message) xs new_main = Some m"
    and "program \<in> {callback_main, udp_main, tls_main, http_main, https_main, local_main stream_path datagram_path}"
  shows "(em_result m = EXIT_FAILURE \<longleftrightarrow>
      (\<exists>ec. failed ec \<and> (Waited ec \<in> set xs \<or> (\<exists>endpoints. Started endpoints ec \<in> set xs))))
    \<and> em_result m \<in> {EXIT_SUCCESS, EXIT_FAILURE}
    \<and> em_stops m = length (filter asks_stop xs)
    \<and> (Waited ec \<in> set xs \<longrightarrow> em_signal m \<noteq> Signal_waiting)"
proof -
  obtain t where "program = main_do t"
    using assms(2) by (auto simp: callback_main_def udp_main_def tls_main_def http_main_def https_main_def local_main_def)
  with assms(1) have run: "run_script main_enabled (main_do t message) xs new_main = Some m" by simp
  have errors: "(\<exists>e \<in> set xs. reports_error e) \<longleftrightarrow>
      (\<exists>ec. failed ec \<and> (Waited ec \<in> set xs \<or> (\<exists>endpoints. Started endpoints ec \<in> set xs)))"
    unfolding reports_error_iff by blast
  have "Waited ec \<in> set xs \<Longrightarrow> em_waited m"
    using main_waits [OF run] by blast
  with main_run [OF run] errors show ?thesis
    by (simp add: new_main_def EXIT_SUCCESS_def EXIT_FAILURE_def)
qed

text \<open>
  The coroutine of \<open>YieldEcho\<close> and \<open>CoroutineEcho\<close> does what the callbacks of the other
  programs do: whatever it prints, returns and asks of the server they do when run with the
  same results.  A coroutine that ends with an exception makes the program fail.
\<close>

lemma coroutine_main_agrees:
  assumes "run_script coroutine_enabled (program message) xs new_main = Some m"
    and "(program, t) \<in> {(yield_main, yield_text), (coroutine_main, coroutine_text)}"
  shows "run_script main_enabled (main_do t message) xs new_main = Some (coroutine_main_ended None m)
    \<and> em_result (coroutine_main_ended (Some what) m) = EXIT_FAILURE"
proof -
  have "run_script coroutine_enabled (yield_main_do t message) xs m0 = Some m \<Longrightarrow>
      run_script main_enabled (main_do t message) xs m0 = Some m" for m0
  proof (induction xs arbitrary: m0)
    case (Cons x xs)
    then show ?case by (cases x) (auto simp: yield_main_do_eq split: if_splits)
  qed simp
  moreover have "run_script coroutine_enabled (yield_main_do t message) xs new_main = Some m"
    using assms by (auto simp: yield_main_def coroutine_main_def)
  ultimately show ?thesis by (simp add: coroutine_main_ended_def main_complain_def)
qed

end
