(* ===== verification/Serveza_Program.thy ===== *)
theory Serveza_Program
  imports Serveza_System_Rest Serveza_Examples
begin

text \<open>
  The example programs as a whole, \<^verbatim>\<open>src/examples/*/src/main.cpp\<close>: the statements of \<open>main\<close>, the
  handlers it hands out, and the server with its listeners, running together.

  The main thread executes the statements \<open>pg_code\<close> one after the other, while the threads of
  the pool run everything else: the strand \<open>control\<close> runs the handlers of \<open>Serveza_Examples\<close>,
  one at a time, and the coroutine of \<open>YieldEcho\<close> and \<open>CoroutineEcho\<close>; the server and its
  listeners of \<open>Serveza_System\<close> run in any interleaving.  A call of the server made by the
  main thread or on the strand is a thread of the server, \<open>pg_thread\<close> and \<open>pg_strand\<close>; the
  caller continues when that thread has ended.

  \<open>pool.join()\<close> returns when no work is outstanding: a handler passed to the server keeps
  work on the pool until it has run (\<open>track_completion_work\<close>), and so does the wait on the
  signal set and every function object queued for a listener.  The number of worker threads
  makes no difference to what can happen.  The programs are those built for a POSIX system.
\<close>

datatype main_handler = Start_handler | Wait_handler

datatype main_stmt =
    Construct                 \<comment> \<open>objects of the main thread alone; may throw\<close>
  | Remove_file string
  | Load_file string
  | Listen endpoint
  | Bind endpoint
  | Await_signals
  | Await_stop
  | Start_server
  | Spawn                     \<comment> \<open>the coroutine, which starts the server and waits for it\<close>
  | Join
  | Return

text \<open>What a statement meets: success, an error it is told of, or an exception with its \<open>what()\<close>.\<close>

datatype main_answer = Succeeds | Fails | Throws string

datatype main_exit = Returned nat | Terminated

record program =
  pg_code :: "main_stmt list"
  pg_exit :: "main_exit option"
  pg_thread :: "nat option"
  pg_files :: "string list"
  pg_loaded :: "string list"
  pg_waiting :: bool                        \<comment> \<open>the wait on the signal set is outstanding\<close>
  pg_outstanding :: "main_handler list"     \<comment> \<open>passed to the server, not run yet\<close>
  pg_coroutine :: "main_handler list"       \<comment> \<open>what the coroutine has still to await\<close>
  pg_strand :: "nat option"
  pg_main :: example_main
  pg_system :: "main_handler system"

record example =
  ex_code :: "main_stmt list"
  ex_handlers :: main_program
  ex_ended :: "string option \<Rightarrow> example_main \<Rightarrow> example_main"   \<comment> \<open>the handler of \<open>co_spawn\<close>\<close>
  ex_catch :: "string option"               \<comment> \<open>the message of the \<open>catch\<close> around \<open>main\<close>\<close>

definition launch :: "example \<Rightarrow> string list \<Rightarrow> program" where
  "launch ex files =
     \<lparr> pg_code = ex_code ex, pg_exit = None, pg_thread = None, pg_files = files, pg_loaded = [],
       pg_waiting = False, pg_outstanding = [], pg_coroutine = [], pg_strand = None,
       pg_main = new_main, pg_system = new_system \<rparr>"

subsection \<open>Calls of the server\<close>

abbreviation server_threads :: "program \<Rightarrow> main_handler instr list list" where
  "server_threads p \<equiv> sv_threads (sy_server (pg_system p))"

definition thread_ended :: "nat option \<Rightarrow> program \<Rightarrow> bool" where
  "thread_ended j p = (case j of None \<Rightarrow> True | Some j \<Rightarrow> j < length (server_threads p) \<longrightarrow> server_threads p ! j = [])"

definition call_server :: "main_handler server_action \<Rightarrow> program \<Rightarrow> program" where
  "call_server x p = p\<lparr> pg_system := system_do (Sys_server x all_succeed) (pg_system p) \<rparr>"

fun submission :: "main_handler \<Rightarrow> main_handler server_action" where
  "submission Start_handler = Do_async_start Start_handler False"
| "submission Wait_handler = Do_async_wait Wait_handler False"

definition submit :: "main_handler \<Rightarrow> program \<Rightarrow> program" where
  "submit h p = call_server (submission h) (p\<lparr> pg_outstanding := pg_outstanding p @ [h] \<rparr>)"

subsection \<open>The main thread\<close>

definition main_call :: "main_handler \<Rightarrow> program \<Rightarrow> program" where
  "main_call h p = submit h (p\<lparr> pg_thread := Some (length (server_threads p)) \<rparr>)"

fun main_stmt_do :: "main_stmt \<Rightarrow> main_answer \<Rightarrow> program \<Rightarrow> program" where
  "main_stmt_do Construct a p = p"
| "main_stmt_do (Remove_file f) a p = (if a = Fails then p else p\<lparr> pg_files := removeAll f (pg_files p) \<rparr>)"
| "main_stmt_do (Load_file f) a p = p\<lparr> pg_loaded := pg_loaded p @ [f] \<rparr>"
| "main_stmt_do (Listen endpoint) a p =
     p\<lparr> pg_system := system_do (Sys_listen endpoint (default_listener_options False)) (pg_system p) \<rparr>"
| "main_stmt_do (Bind endpoint) a p =
     p\<lparr> pg_system := system_do (Sys_bind endpoint (default_listener_options False)) (pg_system p) \<rparr>"
| "main_stmt_do Await_signals a p = p\<lparr> pg_waiting := True \<rparr>"
| "main_stmt_do Await_stop a p = main_call Wait_handler p"
| "main_stmt_do Start_server a p = main_call Start_handler p"
| "main_stmt_do Spawn a p = p\<lparr> pg_coroutine := [Start_handler, Wait_handler] \<rparr>"
| "main_stmt_do Join a p = p"
| "main_stmt_do Return a p = p\<lparr> pg_exit := Some (Returned (em_result (pg_main p))) \<rparr>"

text \<open>An exception ends the program; without a \<open>catch\<close> it calls \<open>std::terminate\<close>.\<close>

definition main_throws :: "example \<Rightarrow> string \<Rightarrow> program \<Rightarrow> program" where
  "main_throws ex what p =
     (case ex_catch ex of
        None \<Rightarrow> p\<lparr> pg_exit := Some Terminated \<rparr>
      | Some prefix \<Rightarrow>
          p\<lparr> pg_main := main_complain (prefix @ what) (pg_main p), pg_exit := Some (Returned EXIT_FAILURE) \<rparr>)"

definition main_next :: "example \<Rightarrow> main_answer \<Rightarrow> program \<Rightarrow> program" where
  "main_next ex a p =
     (case a of
        Throws what \<Rightarrow> main_throws ex what p
      | _ \<Rightarrow> main_stmt_do (hd (pg_code p)) a (p\<lparr> pg_code := tl (pg_code p) \<rparr>))"

definition pool_idle :: "program \<Rightarrow> bool" where
  "pool_idle p \<longleftrightarrow>
     \<not> pg_waiting p \<and> pg_outstanding p = [] \<and> pg_coroutine p = [] \<and>
     concat (server_threads p) = [] \<and> sy_arriving (pg_system p) = [] \<and> list_all node_empty (sy_nodes (pg_system p))"

fun stmt_answers :: "main_stmt \<Rightarrow> main_answer \<Rightarrow> bool" where
  "stmt_answers (Remove_file f) a \<longleftrightarrow> a = Succeeds \<or> a = Fails"
| "stmt_answers Join a \<longleftrightarrow> a = Succeeds"
| "stmt_answers Return a \<longleftrightarrow> a = Succeeds"
| "stmt_answers _ a \<longleftrightarrow> a \<noteq> Fails"

subsection \<open>The strand\<close>

fun node_endpoint :: "listener_node \<Rightarrow> string" where
  "node_endpoint (Accepting l) = m_endpoint l"
| "node_endpoint (Bound l) = m_endpoint l"

definition listener_endpoints :: "program \<Rightarrow> string list" where
  "listener_endpoints p = map node_endpoint (sy_nodes (pg_system p))"

definition completed_with :: "main_handler \<Rightarrow> error_code \<Rightarrow> program \<Rightarrow> bool" where
  "completed_with h ec p \<longleftrightarrow>
     h \<in> set (pg_outstanding p) \<and> (Some h, ec) \<in> set (sv_completions (sy_server (pg_system p)))"

text \<open>A wait that was not cancelled completes when a signal arrives.\<close>

fun strand_ready :: "main_event \<Rightarrow> program \<Rightarrow> bool" where
  "strand_ready (Signal ec) p \<longleftrightarrow> pg_waiting p \<and> (em_signal (pg_main p) = Signal_waiting \<longrightarrow> ec = no_error)"
| "strand_ready (Started endpoints ec) p \<longleftrightarrow> completed_with Start_handler ec p \<and> endpoints = listener_endpoints p"
| "strand_ready (Waited ec) p \<longleftrightarrow> completed_with Wait_handler ec p"

fun strand_taken :: "main_event \<Rightarrow> program \<Rightarrow> program" where
  "strand_taken (Signal ec) p = p\<lparr> pg_waiting := False \<rparr>"
| "strand_taken (Started endpoints ec) p = p\<lparr> pg_outstanding := remove1 Start_handler (pg_outstanding p) \<rparr>"
| "strand_taken (Waited ec) p = p\<lparr> pg_outstanding := remove1 Wait_handler (pg_outstanding p) \<rparr>"

text \<open>A handler runs; when it calls \<open>server.request_stop()\<close>, that call is a thread of the server.\<close>

definition strand_do :: "example \<Rightarrow> (error_code \<Rightarrow> string) \<Rightarrow> main_event \<Rightarrow> program \<Rightarrow> program" where
  "strand_do ex message e p =
     (let m = ex_handlers ex message e (pg_main p);
          stops = em_stops (pg_main p) < em_stops m;
          p = (strand_taken e p)\<lparr> pg_main := m \<rparr>
      in if stops
         then call_server Do_request_stop (p\<lparr> pg_strand := Some (length (server_threads p)) \<rparr>)
         else p)"

text \<open>The coroutine goes on to its next \<open>co_await\<close>, or ends with an exception.\<close>

definition resume :: "example \<Rightarrow> main_answer \<Rightarrow> program \<Rightarrow> program" where
  "resume ex a p =
     (case a of
        Throws what \<Rightarrow> p\<lparr> pg_coroutine := [], pg_main := ex_ended ex (Some what) (pg_main p) \<rparr>
      | _ \<Rightarrow> submit (hd (pg_coroutine p))
               (p\<lparr> pg_coroutine := tl (pg_coroutine p), pg_strand := Some (length (server_threads p)) \<rparr>))"

subsection \<open>Runs\<close>

datatype program_event =
    Main_next main_answer
  | Strand main_event
  | Resume main_answer
  | Pool "main_handler system_action"
  | Create_file string                      \<comment> \<open>a socket file appears\<close>

definition pool_open :: "program \<Rightarrow> bool" where
  "pool_open p \<longleftrightarrow> pg_exit p = None \<and> Join \<in> set (pg_code p)"

fun program_enabled :: "program_event \<Rightarrow> program \<Rightarrow> bool" where
  "program_enabled (Main_next a) p \<longleftrightarrow>
     pg_exit p = None \<and> thread_ended (pg_thread p) p \<and>
     (case pg_code p of [] \<Rightarrow> False | c # cs \<Rightarrow> stmt_answers c a \<and> (c = Join \<longrightarrow> pool_idle p))"
| "program_enabled (Strand e) p \<longleftrightarrow>
     pool_open p \<and> thread_ended (pg_strand p) p \<and> main_enabled e (pg_main p) \<and> strand_ready e p"
| "program_enabled (Resume a) p \<longleftrightarrow>
     pool_open p \<and> thread_ended (pg_strand p) p \<and> pg_coroutine p \<noteq> [] \<and> pg_outstanding p = [] \<and> a \<noteq> Fails"
| "program_enabled (Pool x) p \<longleftrightarrow> pool_open p \<and> pool_enabled x (pg_system p)"
| "program_enabled (Create_file f) p \<longleftrightarrow> pool_open p"

fun program_do :: "example \<Rightarrow> (error_code \<Rightarrow> string) \<Rightarrow> program_event \<Rightarrow> program \<Rightarrow> program" where
  "program_do ex message (Main_next a) p = main_next ex a p"
| "program_do ex message (Strand e) p = strand_do ex message e p"
| "program_do ex message (Resume a) p = resume ex a p"
| "program_do ex message (Pool x) p = p\<lparr> pg_system := system_do x (pg_system p) \<rparr>"
| "program_do ex message (Create_file f) p = p\<lparr> pg_files := f # pg_files p \<rparr>"

definition program_run ::
    "example \<Rightarrow> (error_code \<Rightarrow> string) \<Rightarrow> program_event list \<Rightarrow> program \<Rightarrow> program option" where
  "program_run ex message = run_script program_enabled (program_do ex message)"

subsection \<open>The programs\<close>

definition loopback :: "u16 \<Rightarrow> endpoint" where
  "loopback port = ip_endpoint ''127.0.0.1'' False port"

definition callback_code :: "main_stmt list \<Rightarrow> main_stmt list" where
  "callback_code listeners = [Construct] @ listeners @ [Await_signals, Await_stop, Start_server, Join]"

definition callback_example :: example where
  "callback_example =
     \<lparr> ex_code = callback_code [Listen (loopback 54321)] @ [Return], ex_handlers = callback_main,
       ex_ended = (\<lambda>ep m. m), ex_catch = None \<rparr>"

definition udp_example :: example where
  "udp_example =
     \<lparr> ex_code = callback_code [Bind (loopback 54321)] @ [Return], ex_handlers = udp_main,
       ex_ended = (\<lambda>ep m. m), ex_catch = None \<rparr>"

definition http_example :: example where
  "http_example =
     \<lparr> ex_code = callback_code [Listen (loopback 8080)] @ [Return], ex_handlers = http_main,
       ex_ended = (\<lambda>ep m. m), ex_catch = Some ''HTTP example failed: '' \<rparr>"

text \<open>
  The arguments of the program, \<open>argv\<close> without its name; \<open>certificate\<close> and \<open>key\<close> are the paths
  the build defines, \<open>tmp\<close> is \<open>fs::temp_directory_path()\<close>.
\<close>

definition argument :: "nat \<Rightarrow> string list \<Rightarrow> string \<Rightarrow> string" where
  "argument i args fallback = (if i < length args then args ! i else fallback)"

definition tls_code :: "string \<Rightarrow> string \<Rightarrow> string list \<Rightarrow> u16 \<Rightarrow> main_stmt list" where
  "tls_code certificate key args port =
     [Construct, Load_file (argument 0 args certificate), Load_file (argument 1 args key)] @
     callback_code [Listen (loopback port)] @ [Return]"

definition tls_example :: "string \<Rightarrow> string \<Rightarrow> string list \<Rightarrow> example" where
  "tls_example certificate key args =
     \<lparr> ex_code = tls_code certificate key args 54321, ex_handlers = tls_main,
       ex_ended = (\<lambda>ep m. m), ex_catch = Some ''TLS example failed: '' \<rparr>"

definition https_example :: "string \<Rightarrow> string \<Rightarrow> string list \<Rightarrow> example" where
  "https_example certificate key args =
     \<lparr> ex_code = tls_code certificate key args 8443, ex_handlers = https_main,
       ex_ended = (\<lambda>ep m. m), ex_catch = Some ''HTTPS example failed: '' \<rparr>"

text \<open>\<open>operator/\<close> of a path, and \<open>operator<<\<close>, which prints it as \<open>std::quoted\<close> does.\<close>

definition path_append :: "string \<Rightarrow> string \<Rightarrow> string" where
  "path_append dir name = (if dir = [] \<or> last dir = CHR ''/'' then dir @ name else dir @ ''/'' @ name)"

definition quoted :: "string \<Rightarrow> string" where
  "quoted path =
     [CHR 0x22] @ concat (map (\<lambda>c. if c = CHR 0x22 \<or> c = CHR 0x5C then [CHR 0x5C, c] else [c]) path) @ [CHR 0x22]"

definition stream_path :: "string \<Rightarrow> string list \<Rightarrow> string" where
  "stream_path tmp args = argument 0 args (path_append tmp ''serveza-stream.sock'')"

definition datagram_path :: "string \<Rightarrow> string list \<Rightarrow> string" where
  "datagram_path tmp args = argument 1 args (path_append tmp ''serveza-datagram.sock'')"

definition local_example :: "string \<Rightarrow> string list \<Rightarrow> example" where
  "local_example tmp args =
     (let remove = [Remove_file (stream_path tmp args), Remove_file (datagram_path tmp args)]
      in \<lparr> ex_code = [Construct] @ remove @
             callback_code [Listen (path_endpoint (stream_path tmp args)), Bind (path_endpoint (datagram_path tmp args))] @
             remove @ [Return],
           ex_handlers = local_main (quoted (stream_path tmp args)) (quoted (datagram_path tmp args)),
           ex_ended = (\<lambda>ep m. m), ex_catch = None \<rparr>)"

definition yield_example :: example where
  "yield_example =
     \<lparr> ex_code = [Construct, Listen (loopback 54321), Await_signals, Spawn, Join, Return],
       ex_handlers = yield_main, ex_ended = (\<lambda>ep m. m), ex_catch = None \<rparr>"

definition coroutine_example :: example where
  "coroutine_example =
     \<lparr> ex_code = [Construct, Listen (loopback 54321), Await_signals, Spawn, Join, Return],
       ex_handlers = coroutine_main, ex_ended = coroutine_main_ended, ex_catch = None \<rparr>"

definition examples :: "string \<Rightarrow> string \<Rightarrow> string \<Rightarrow> string list \<Rightarrow> example list" where
  "examples tmp certificate key args =
     [callback_example, udp_example, http_example, tls_example certificate key args,
      https_example certificate key args, local_example tmp args, yield_example, coroutine_example]"

end
