(* ===== verification/Serveza_Program_Inv.thy ===== *)
theory Serveza_Program_Inv
  imports Serveza_Program "HOL-Library.Sublist"
begin

text \<open>Invariants of the example programs.\<close>

subsection \<open>What the events ask of the system\<close>

definition stmt_actions :: "main_stmt \<Rightarrow> main_handler system_action list" where
  "stmt_actions c =
     (case c of
        Listen endpoint \<Rightarrow> [Sys_listen endpoint (default_listener_options False)]
      | Bind endpoint \<Rightarrow> [Sys_bind endpoint (default_listener_options False)]
      | Await_stop \<Rightarrow> [Sys_server (submission Wait_handler) all_succeed]
      | Start_server \<Rightarrow> [Sys_server (submission Start_handler) all_succeed]
      | _ \<Rightarrow> [])"

fun event_actions ::
    "example \<Rightarrow> (error_code \<Rightarrow> string) \<Rightarrow> program_event \<Rightarrow> program \<Rightarrow> main_handler system_action list" where
  "event_actions ex message (Main_next a) p =
     (case a of Throws what \<Rightarrow> [] | _ \<Rightarrow> stmt_actions (hd (pg_code p)))"
| "event_actions ex message (Strand e) p =
     (if em_stops (pg_main p) < em_stops (ex_handlers ex message e (pg_main p)) then [stop_request] else [])"
| "event_actions ex message (Resume a) p =
     (case a of Throws what \<Rightarrow> [] | _ \<Rightarrow> [Sys_server (submission (hd (pg_coroutine p))) all_succeed])"
| "event_actions ex message (Pool x) p = [x]"
| "event_actions ex message (Create_file f) p = []"

lemma strand_taken_system [simp]: "pg_system (strand_taken e p) = pg_system p" "pg_main (strand_taken e p) = pg_main p"
  by (cases e; simp)+

lemma event_actions_system:
  "pg_system (program_do ex message e p) = fold system_do (event_actions ex message e p) (pg_system p)"
proof (cases e)
  case (Main_next a)
  have "pg_system (main_stmt_do c b q) = fold system_do (stmt_actions c) (pg_system q)" for c b q
    by (cases c) (simp_all add: stmt_actions_def main_call_def submit_def call_server_def)
  with Main_next show ?thesis by (cases a) (simp_all add: main_next_def main_throws_def split: option.split)
next
  case (Resume a)
  then show ?thesis by (cases a) (simp_all add: resume_def submit_def call_server_def)
qed (simp_all add: strand_do_def Let_def call_server_def)

subsection \<open>What a server keeps\<close>

text \<open>Threads take no listener identifier and revoke no completion.\<close>

definition keeps :: "'h server \<Rightarrow> 'h server \<Rightarrow> bool" where
  "keeps sv sv' \<longleftrightarrow> sv_next_listener_id sv' = sv_next_listener_id sv \<and> set (sv_completions sv) \<subseteq> set (sv_completions sv')"

lemma keeps_trans: "keeps a b \<Longrightarrow> keeps b c \<Longrightarrow> keeps a c"
  by (auto simp: keeps_def)

lemma exec_keeps: "keeps sv (fst (exec ins e sv))"
  by (cases ins) (auto simp: keeps_def exec_begin_start_def exec_begin_start_empty_def exec_submit_def exec_report_def
      exec_one_def exec_finish_def call_listener_def complete_server_def Let_def split: prod.split option.split)

lemma server_do_keeps:
  assumes "is_call x \<or> x = Do_complete_child child ec"
  shows "keeps sv (server_do x sv)"
proof (cases x)
  case (Do_run j e)
  show ?thesis
  proof (cases "sv_threads sv ! j")
    case (Cons ins rest)
    obtain a b where "exec ins e sv = (a, b)" by fastforce
    with exec_keeps [of sv ins e] Cons Do_run show ?thesis by (simp add: run_thread_def keeps_def)
  qed (simp add: Do_run run_thread_def keeps_def)
qed (use assms in \<open>auto simp: keeps_def server_do_async_start_def server_do_async_wait_def server_request_stop_def
      start_thread_def Let_def split: list.split\<close>)

lemma deliver_call_server: "sy_server (deliver_call r c s) = sy_server s"
  by (cases c) (simp_all add: submit_child_def settle_def Let_def split: option.split)

lemma deliver_calls_server: "sy_server (fold (deliver_call r) cs s) = sy_server s"
  by (induction cs arbitrary: s) (simp_all add: deliver_call_server)

lemma serve_server: "sy_server (serve x r s) = server_do x (sy_server s)"
  by (simp add: serve_def Let_def deliver_calls_server)

fun creates :: "'h system_action \<Rightarrow> nat" where
  "creates (Sys_listen endpoint options) = 1"
| "creates (Sys_bind endpoint options) = 1"
| "creates _ = 0"

lemma system_do_keeps:
  assumes "system_enabled x s"
  shows "set (sv_completions (sy_server s)) \<subseteq> set (sv_completions (sy_server (system_do x s)))" (is ?thesis1)
    and "unat (sv_next_listener_id (sy_server (system_do x s))) \<le> unat (sv_next_listener_id (sy_server s)) + creates x"
      (is ?thesis2)
proof -
  have "keeps (sy_server s) (sy_server (system_do x s))" if "creates x = 0"
  proof (cases x)
    case (Sys_server y r)
    with assms show ?thesis by (simp add: serve_server server_do_keeps)
  next
    case (Sys_deliver child ec)
    then show ?thesis using server_do_keeps [of "Do_complete_child child ec" child ec]
      by (simp add: serve_server del: server_do.simps)
  qed (use that in \<open>simp_all add: settle_def keeps_def\<close>)
  then have "?thesis1 \<and> ?thesis2" if "creates x = 0" using that by (simp add: keeps_def)
  moreover have "?thesis1 \<and> ?thesis2" if "creates x \<noteq> 0"
    using that assms unat_plus_one [of "sv_next_listener_id (sy_server s)"]
    by (cases x) (auto simp: system_listen_def system_bind_def register_def server_listen_def server_bind_def
        next_listener_id_def add_listener_def Let_def split: sum.split)
  ultimately show ?thesis1 and ?thesis2 by blast+
qed

subsection \<open>Invariants of a program\<close>

text \<open>The handlers that a statement passes to the server, and those that have run.\<close>

fun planned :: "main_stmt \<Rightarrow> main_handler list" where
  "planned Await_stop = [Wait_handler]"
| "planned Start_server = [Start_handler]"
| "planned Spawn = [Start_handler, Wait_handler]"
| "planned _ = []"

definition handlers_run :: "example_main \<Rightarrow> main_handler multiset" where
  "handlers_run m = (if em_started m then {# Start_handler #} else {#}) + (if em_waited m then {# Wait_handler #} else {#})"

definition submitted_handlers :: "program \<Rightarrow> main_handler multiset" where
  "submitted_handlers p = mset (pg_outstanding p) + handlers_run (pg_main p)"

definition stmt_creates :: "main_stmt \<Rightarrow> nat" where
  "stmt_creates c = (case c of Listen endpoint \<Rightarrow> 1 | Bind endpoint \<Rightarrow> 1 | _ \<Rightarrow> 0)"

text \<open>The counts that hold throughout: of handlers, of waits on the signals, of listeners.\<close>

definition counted :: "program \<Rightarrow> bool" where
  "counted p \<longleftrightarrow>
     submitted_handlers p + mset (pg_coroutine p) + mset (concat (map planned (pg_code p))) = {# Start_handler, Wait_handler #} \<and>
     of_bool (pg_waiting p) + count_list (pg_code p) Await_signals + of_bool (em_signal (pg_main p) = Signal_handled) = (1 :: nat) \<and>
     unat (sv_next_listener_id (sy_server (pg_system p))) + sum_list (map stmt_creates (pg_code p)) \<le> 2"

lemma main_flags:
  "em_started (main_do t message e m) \<longleftrightarrow> em_started m \<or> (\<exists>es ec. e = Started es ec)"
  "em_waited (main_do t message e m) \<longleftrightarrow> em_waited m \<or> (\<exists>ec. e = Waited ec)"
  "em_signal (main_do t message e m) = Signal_handled \<longleftrightarrow> em_signal m = Signal_handled \<or> (\<exists>ec. e = Signal ec)"
  by (cases e; simp add: main_defs split: option.split)+

text \<open>No exception is thrown and no removal fails.\<close>

fun calm :: "program_event \<Rightarrow> bool" where
  "calm (Main_next a) \<longleftrightarrow> a = Succeeds"
| "calm (Resume a) \<longleftrightarrow> a = Succeeds"
| "calm _ \<longleftrightarrow> True"

lemma enabled_actions:
  assumes en: "program_enabled e p" and "counted p" and x: "x \<in> set (event_actions ex message e p)"
  shows "system_enabled x (pg_system p)" and "has_room x (pg_system p)"
proof -
  have ids: "sv_next_listener_id (sy_server (pg_system p)) \<noteq> - 1"
  proof
    assume "sv_next_listener_id (sy_server (pg_system p)) = - 1"
    then have "unat (- 1 :: u64) \<le> 2" using assms(2) by (simp add: counted_def)
    then show False by (simp add: unsigned_minus_1_eq_mask mask_eq_exp_minus_1)
  qed
  have submission: "system_enabled (Sys_server (submission h) all_succeed) (pg_system p)" for h
    by (cases h) simp_all
  have "system_enabled x (pg_system p) \<and> has_room x (pg_system p)"
  proof (cases e)
    case (Main_next a)
    with x ids submission show ?thesis
      by (cases a; cases "hd (pg_code p)") (auto simp: stmt_actions_def)
  next
    case (Resume a)
    with x submission show ?thesis by (cases a) auto
  qed (use en x in \<open>auto split: if_splits\<close>)
  then show "system_enabled x (pg_system p)" "has_room x (pg_system p)" by simp_all
qed

lemma strand_do_fields [simp]:
  "pg_main (strand_do ex message e p) = ex_handlers ex message e (pg_main p)"
  "pg_waiting (strand_do ex message e p) = pg_waiting (strand_taken e p)"
  "pg_outstanding (strand_do ex message e p) = pg_outstanding (strand_taken e p)"
  "pg_coroutine (strand_do ex message e p) = pg_coroutine p" "pg_code (strand_do ex message e p) = pg_code p"
  "pg_exit (strand_do ex message e p) = pg_exit p" "pg_files (strand_do ex message e p) = pg_files p"
  by (cases e; simp add: strand_do_def Let_def call_server_def)+

lemma event_actions_one: "event_actions ex message e p = [] \<or> (\<exists>x. event_actions ex message e p = [x])"
proof (cases e)
  case (Main_next a)
  then show ?thesis by (cases a; cases "hd (pg_code p)") (simp_all add: stmt_actions_def)
next
  case (Resume a)
  then show ?thesis by (cases a) simp_all
qed simp_all

lemma event_system:
  assumes "program_enabled e p" and "counted p"
  obtains "event_actions ex message e p = []" and "pg_system (program_do ex message e p) = pg_system p"
  | x where "event_actions ex message e p = [x]" and "system_enabled x (pg_system p)" and "has_room x (pg_system p)"
    and "pg_system (program_do ex message e p) = system_do x (pg_system p)"
  using event_actions_one [of ex message e p] enabled_actions [OF assms, of _ ex message]
    event_actions_system [of ex message e p] by (metis fold_simps(1,2) list.set_intros(1))

lemma counted_handlers:
  assumes "counted p" and h: "ex_handlers ex = main_do t" and en: "program_enabled e p" and "calm e"
  shows "submitted_handlers (program_do ex message e p) + mset (pg_coroutine (program_do ex message e p)) +
    mset (concat (map planned (pg_code (program_do ex message e p)))) = {# Start_handler, Wait_handler #}"
proof (cases e)
  case (Main_next a)
  then obtain c cs where c: "a = Succeeds" "pg_code p = c # cs" using en assms(4) by (auto split: list.splits)
  have "pg_coroutine p = []" if "c = Spawn"
  proof -
    have "submitted_handlers p + mset (pg_coroutine p) + {# Start_handler, Wait_handler #} +
        mset (concat (map planned cs)) = {# Start_handler, Wait_handler #}"
      using assms(1) c that by (simp add: counted_def)
    then have "size (pg_coroutine p) = 0" by (drule_tac arg_cong [of _ _ size]) simp
    then show ?thesis by simp
  qed
  with Main_next c assms(1) show ?thesis
    by (cases c) (simp_all add: main_next_def counted_def submitted_handlers_def main_call_def submit_def call_server_def)
next
  case (Strand x)
  then show ?thesis
    using assms by (cases x) (auto simp: counted_def submitted_handlers_def handlers_run_def main_flags completed_with_def
        simp del: main_do.simps)
next
  case (Resume a)
  then obtain h hs where "a = Succeeds" "pg_coroutine p = h # hs" using en assms(4) by (cases "pg_coroutine p") auto
  with Resume assms(1) show ?thesis
    by (simp add: resume_def counted_def submitted_handlers_def submit_def call_server_def)
qed (use assms in \<open>simp_all add: counted_def submitted_handlers_def\<close>)

lemma counted_signals:
  fixes message :: "error_code \<Rightarrow> string"
  assumes "counted p" and "ex_handlers ex = main_do t" and en: "program_enabled e p" and "calm e"
  defines "q \<equiv> program_do ex message e p"
  shows "of_bool (pg_waiting q) + count_list (pg_code q) Await_signals + of_bool (em_signal (pg_main q) = Signal_handled) = (1 :: nat)"
proof (cases e)
  case (Main_next a)
  then obtain c cs where c: "a = Succeeds" "pg_code p = c # cs" using en assms(4) by (auto split: list.splits)
  with Main_next assms(1) show ?thesis
    by (cases c) (auto simp: q_def main_next_def counted_def main_call_def submit_def call_server_def split: if_splits)
next
  case (Strand x)
  then show ?thesis
    using assms by (cases x) (auto simp: q_def counted_def main_flags simp del: main_do.simps)
next
  case (Resume a)
  with assms show ?thesis by (auto simp: q_def resume_def counted_def submit_def call_server_def)
qed (use assms in \<open>simp_all add: q_def counted_def\<close>)

lemma counted_listeners:
  fixes message :: "error_code \<Rightarrow> string" and ex :: example
  assumes "counted p" and en: "program_enabled e p" and "calm e"
  defines "q \<equiv> program_do ex message e p"
  shows "unat (sv_next_listener_id (sy_server (pg_system q))) + sum_list (map stmt_creates (pg_code q)) \<le> 2"
proof -
  have "sum_list (map creates (event_actions ex message e p)) + sum_list (map stmt_creates (pg_code q)) \<le>
      sum_list (map stmt_creates (pg_code p))"
  proof (cases e)
    case (Main_next a)
    then obtain c cs where c: "a = Succeeds" "pg_code p = c # cs" using en assms(3) by (auto split: list.splits)
    with Main_next show ?thesis
      by (cases c) (simp_all add: q_def main_next_def stmt_actions_def stmt_creates_def main_call_def submit_def call_server_def)
  next
    case (Strand x)
    then show ?thesis by (simp add: q_def)
  next
    case (Resume a)
    with assms show ?thesis by (simp add: q_def resume_def submit_def call_server_def)
  next
    case (Pool x)
    with en show ?thesis by (cases x) (simp_all add: q_def)
  qed (simp_all add: q_def)
  with assms(1) show ?thesis unfolding q_def
    by (cases rule: event_system [OF en assms(1), of ex message])
      (auto simp: counted_def dest: system_do_keeps(2))
qed

lemma counted_step:
  "counted p \<Longrightarrow> ex_handlers ex = main_do t \<Longrightarrow> program_enabled e p \<Longrightarrow> calm e \<Longrightarrow> counted (program_do ex message e p)"
  unfolding counted_def [of "program_do ex message e p"]
  using counted_handlers counted_signals counted_listeners by blast

subsection \<open>The system inside a program\<close>

fun event_live :: "program_event \<Rightarrow> bool" where
  "event_live (Pool x) \<longleftrightarrow> action_live x"
| "event_live _ \<longleftrightarrow> True"

definition linked :: "program \<Rightarrow> bool" where
  "linked p \<longleftrightarrow> (\<exists>script. system_run script new_system = Some (pg_system p) \<and>
     sum_list (map system_submitted script) = submitted_handlers p)"

lemma submitted_step:
  assumes "counted p" and "ex_handlers ex = main_do t" and en: "program_enabled e p" and "calm e"
  shows "submitted_handlers (program_do ex message e p) =
    submitted_handlers p + sum_list (map system_submitted (event_actions ex message e p))"
proof (cases e)
  case (Main_next a)
  then obtain c cs where "a = Succeeds" "pg_code p = c # cs" using en assms(4) by (auto split: list.splits)
  with Main_next show ?thesis
    by (cases c) (simp_all add: main_next_def submitted_handlers_def stmt_actions_def main_call_def submit_def call_server_def)
next
  case (Strand x)
  then show ?thesis
    using assms by (cases x) (auto simp: submitted_handlers_def handlers_run_def main_flags completed_with_def simp del: main_do.simps)
next
  case (Resume a)
  then have "a = Succeeds" using assms(4) by simp
  with Resume show ?thesis
    by (cases "hd (pg_coroutine p)") (simp_all add: resume_def submitted_handlers_def submit_def call_server_def)
next
  case (Pool x)
  with en show ?thesis by (cases x) (auto simp: submitted_handlers_def split: server_action.splits)
qed (simp add: submitted_handlers_def)

lemma linked_step:
  assumes "linked p" "counted p" and "ex_handlers ex = main_do t" and en: "program_enabled e p" and "calm e"
  shows "linked (program_do ex message e p)"
proof -
  from assms(1) obtain script where script: "system_run script new_system = Some (pg_system p)"
    "sum_list (map system_submitted script) = submitted_handlers p" unfolding linked_def by blast
  have "system_run (script @ event_actions ex message e p) new_system = Some (pg_system (program_do ex message e p))"
    by (cases rule: event_system [OF en assms(2), of ex message])
      (use script(1) in \<open>simp_all add: system_run_def run_script_append\<close>)
  with script(2) submitted_step [OF assms(2-5)] show ?thesis
    unfolding linked_def by (intro exI [of _ "script @ event_actions ex message e p"]) simp
qed

lemma live_step:
  assumes "system_live (pg_system p)" "counted p" and en: "program_enabled e p" and "event_live e"
  shows "system_live (pg_system (program_do ex message e p))"
proof (cases rule: event_system [OF en assms(2), of ex message])
  case (2 x)
  have "action_live x"
  proof (cases e)
    case (Main_next a)
    with 2(1) show ?thesis by (cases a; cases "hd (pg_code p)") (auto simp: stmt_actions_def)
  next
    case (Resume a)
    with 2(1) show ?thesis by (cases a) auto
  qed (use assms(4) 2(1) in \<open>auto split: if_splits\<close>)
  with 2 system_live_do [OF assms(1)] show ?thesis by simp
qed (use assms(1) in simp)

text \<open>The handlers that have run were completed with the errors they saw.\<close>

fun reported :: "program_event \<Rightarrow> (main_handler option \<times> error_code) list" where
  "reported (Strand (Started es ec)) = [(Some Start_handler, ec)]"
| "reported (Strand (Waited ec)) = [(Some Wait_handler, ec)]"
| "reported _ = []"

abbreviation program_completions :: "program \<Rightarrow> (main_handler option \<times> error_code) list" where
  "program_completions p \<equiv> sv_completions (sy_server (pg_system p))"

lemma completions_step:
  assumes "counted p" and en: "program_enabled e p"
  shows "set (reported e) \<union> set (program_completions p) \<subseteq> set (program_completions (program_do ex message e p))"
proof -
  have "set (reported e) \<subseteq> set (program_completions p)"
    using en by (cases e rule: reported.cases) (simp_all add: completed_with_def)
  moreover have "set (program_completions p) \<subseteq> set (program_completions (program_do ex message e p))"
    by (cases rule: event_system [OF en assms(1), of ex message]) (use system_do_keeps(1) in auto)
  ultimately show ?thesis by blast
qed

subsection \<open>Where the main thread is\<close>

definition last_code :: "string list \<Rightarrow> main_stmt list" where
  "last_code files = map Remove_file files @ [Return]"

definition joining :: "string list \<Rightarrow> program \<Rightarrow> bool" where
  "joining files p \<longleftrightarrow> pg_exit p = None \<and>
     (\<exists>pre. pg_code p = pre @ Join # last_code files \<and> Join \<notin> set pre \<and> Return \<notin> set pre)"

definition joined :: "string list \<Rightarrow> program \<Rightarrow> bool" where
  "joined files p \<longleftrightarrow> suffix (pg_code p) (last_code files) \<and> pool_idle p \<and>
     (\<forall>f \<in> set files. Remove_file f \<in> set (pg_code p) \<or> f \<notin> set (pg_files p)) \<and>
     pg_exit p = (if pg_code p = [] then Some (Returned (em_result (pg_main p))) else None)"

lemma joined_not_open: "joined files p \<Longrightarrow> \<not> pool_open p"
proof -
  have "Join \<notin> set (last_code files)" by (auto simp: last_code_def)
  then show "joined files p \<Longrightarrow> \<not> pool_open p" by (auto simp: joined_def pool_open_def dest: set_mono_suffix)
qed

lemma last_code_return: "suffix (Return # cs) (last_code files) \<Longrightarrow> cs = []"
  by (induction files) (auto simp: last_code_def suffix_Cons)

lemma joined_step:
  assumes p: "joined files p" and en: "program_enabled e p" and "calm e"
  shows "joined files (program_do ex message e p)"
proof (cases e)
  case (Main_next a)
  then obtain c cs where c: "a = Succeeds" "pg_code p = c # cs" using en assms(3) by (auto split: list.splits)
  have cs: "suffix cs (last_code files)" using p c(2) by (auto simp: joined_def dest: suffix_ConsD)
  have "c \<in> set (last_code files)" using p c(2) by (auto simp: joined_def dest: set_mono_suffix)
  then consider f where "c = Remove_file f" | "c = Return" by (auto simp: last_code_def)
  then show ?thesis
  proof cases
    case 1
    have "cs \<noteq> []"
      using p c(2) 1 by (auto simp: joined_def last_code_def suffix_def)
    with p c 1 cs Main_next show ?thesis by (auto simp: joined_def main_next_def pool_idle_def)
  next
    case 2
    then have "cs = []" using p c(2) last_code_return [of cs files] by (simp add: joined_def)
    with p c 2 cs Main_next show ?thesis by (auto simp: joined_def main_next_def pool_idle_def)
  qed
qed (use en joined_not_open [OF p] in simp_all)

lemma stmt_code [simp]:
  "pg_code (main_stmt_do c a p) = pg_code p" "c \<noteq> Return \<Longrightarrow> pg_exit (main_stmt_do c a p) = pg_exit p"
  by (cases c; simp add: main_call_def submit_def call_server_def)+

lemma joining_step:
  assumes p: "joining files p" and en: "program_enabled e p" and "calm e"
  shows "joining files (program_do ex message e p) \<or> joined files (program_do ex message e p)"
proof (cases e)
  case (Main_next a)
  then have a: "a = Succeeds" using assms(3) by simp
  from p obtain pre where pre: "pg_code p = pre @ Join # last_code files" "Join \<notin> set pre" "Return \<notin> set pre" "pg_exit p = None"
    by (auto simp: joining_def)
  show ?thesis
  proof (cases pre)
    case Nil
    with Main_next a en pre have "joined files (program_do ex message e p)"
      by (auto simp: joined_def main_next_def pool_idle_def last_code_def)
    then show ?thesis ..
  next
    case (Cons c cs)
    with Main_next a pre show ?thesis by (auto simp: joining_def main_next_def)
  qed
next
  case (Resume a)
  with assms show ?thesis by (simp add: joining_def resume_def submit_def call_server_def)
qed (use p in \<open>auto simp: joining_def\<close>)

subsection \<open>Runs without exceptions\<close>

definition program_inv :: "string list \<Rightarrow> program \<Rightarrow> bool" where
  "program_inv files p \<longleftrightarrow>
     counted p \<and> linked p \<and> system_live (pg_system p) \<and> (joining files p \<or> joined files p)"

lemma program_inv_step:
  assumes "program_inv files p" and "ex_handlers ex = main_do t" and "program_enabled e p" "calm e" "event_live e"
  shows "program_inv files (program_do ex message e p)"
  using assms counted_step linked_step live_step joining_step joined_step unfolding program_inv_def by meson

text \<open>What the programs have in common.\<close>

lemma example_handlers:
  "ex_handlers callback_example = main_do callback_text" "ex_handlers udp_example = main_do udp_text"
  "ex_handlers http_example = main_do http_text" "ex_handlers (tls_example certificate key args) = main_do tls_text"
  "ex_handlers (https_example certificate key args) = main_do https_text"
  "ex_handlers (local_example tmp args) = main_do (local_text (quoted (stream_path tmp args)) (quoted (datagram_path tmp args)))"
  "ex_handlers yield_example = main_do yield_text" "ex_handlers coroutine_example = main_do coroutine_text"
  by (simp_all add: callback_example_def udp_example_def http_example_def tls_example_def https_example_def
      local_example_def yield_example_def coroutine_example_def callback_main_def udp_main_def http_main_def tls_main_def
      https_main_def local_main_def yield_main_def coroutine_main_def yield_main_do_eq fun_eq_iff Let_def)

lemma example_codes:
  "ex_code callback_example = callback_code [Listen (loopback 54321)] @ [Return]"
  "ex_code udp_example = callback_code [Bind (loopback 54321)] @ [Return]"
  "ex_code http_example = callback_code [Listen (loopback 8080)] @ [Return]"
  "ex_code (tls_example certificate key args) = tls_code certificate key args 54321"
  "ex_code (https_example certificate key args) = tls_code certificate key args 8443"
  "ex_code (local_example tmp args) = [Construct, Remove_file (stream_path tmp args), Remove_file (datagram_path tmp args)] @
     callback_code [Listen (path_endpoint (stream_path tmp args)), Bind (path_endpoint (datagram_path tmp args))] @
     [Remove_file (stream_path tmp args), Remove_file (datagram_path tmp args), Return]"
  "ex_code yield_example = [Construct, Listen (loopback 54321), Await_signals, Spawn, Join, Return]"
  "ex_code coroutine_example = [Construct, Listen (loopback 54321), Await_signals, Spawn, Join, Return]"
  by (simp_all add: callback_example_def udp_example_def http_example_def tls_example_def https_example_def
      local_example_def yield_example_def coroutine_example_def Let_def)

lemma example_shape:
  assumes "ex \<in> set (examples tmp certificate key args)"
  obtains t files pre where "ex_handlers ex = main_do t" and "ex_code ex = pre @ Join # last_code files"
    and "Join \<notin> set pre" and "Return \<notin> set pre" and "mset (concat (map planned pre)) = {# Start_handler, Wait_handler #}"
    and "count_list pre Await_signals = 1" and "sum_list (map stmt_creates pre) \<le> 2"
    and "set files = {f. Remove_file f \<in> set (ex_code ex)}"
proof -
  let ?P = "\<lambda>ex pre files. ex_code ex = pre @ Join # last_code files \<and> Join \<notin> set pre \<and> Return \<notin> set pre \<and>
    mset (concat (map planned pre)) = {# Start_handler, Wait_handler #} \<and> count_list pre Await_signals = 1 \<and>
    sum_list (map stmt_creates pre) \<le> 2 \<and> set files = {f. Remove_file f \<in> set (ex_code ex)}"
  let ?pre = "\<lambda>ex. takeWhile (\<lambda>c. c \<noteq> Join) (ex_code ex)"
  have "\<forall>ex \<in> set (examples tmp certificate key args). ex_handlers ex \<in> range main_do"
    by (simp add: examples_def example_handlers)
  moreover have "\<forall>ex \<in> set (examples tmp certificate key args). \<exists>files. ?P ex (?pre ex) files"
    unfolding examples_def list.set ball_simps
    by (intro conjI exI [of "?P (local_example tmp args) (?pre (local_example tmp args))" "[stream_path tmp args, datagram_path tmp args]"]
        exI [of _ "[]"] TrueI; auto simp: example_codes callback_code_def tls_code_def last_code_def stmt_creates_def)
  ultimately show thesis using that assms by blast
qed

lemma program_inv_launch:
  assumes "ex_code ex = pre @ Join # last_code files" and "Join \<notin> set pre" and "Return \<notin> set pre"
    and "mset (concat (map planned pre)) = {# Start_handler, Wait_handler #}"
    and "count_list pre Await_signals = 1" and "sum_list (map stmt_creates pre) \<le> 2"
  shows "program_inv files (launch ex present)"
proof -
  have last: "concat (map planned (last_code files)) = []" "count_list (last_code files) Await_signals = 0"
    "sum_list (map stmt_creates (last_code files)) = 0"
    by (induction files) (simp_all add: last_code_def stmt_creates_def)
  have "counted (launch ex present)"
    using assms by (simp add: counted_def launch_def submitted_handlers_def handlers_run_def new_main_def new_system_def
        new_server_def last stmt_creates_def)
  moreover have "linked (launch ex present)"
    unfolding linked_def
    by (intro exI [of _ "[]"]) (simp add: system_run_def launch_def submitted_handlers_def handlers_run_def new_main_def)
  moreover have "joining files (launch ex present)" using assms by (auto simp: joining_def launch_def)
  ultimately show ?thesis by (simp add: program_inv_def launch_def system_live_new)
qed

text \<open>The events of the strand are a run of the handlers.\<close>

definition strand_events :: "program_event list \<Rightarrow> main_event list" where
  "strand_events script = concat (map (\<lambda>e. case e of Strand x \<Rightarrow> [x] | _ \<Rightarrow> []) script)"

lemma calm_main:
  assumes "calm e"
  shows "pg_main (program_do ex message e p) =
    (case e of Strand x \<Rightarrow> ex_handlers ex message x (pg_main p) | _ \<Rightarrow> pg_main p)"
proof (cases e)
  case (Main_next a)
  have "pg_main (main_stmt_do c b q) = pg_main q" for c b q
    by (cases c) (simp_all add: main_call_def submit_def call_server_def)
  with Main_next assms show ?thesis by (simp add: main_next_def)
next
  case (Resume a)
  with assms show ?thesis by (simp add: resume_def submit_def call_server_def)
qed simp_all

lemma program_run_inv:
  assumes "program_run ex message script p = Some q" and "list_all calm script" and "list_all event_live script"
    and "ex_handlers ex = main_do t" and "program_inv files p"
  shows "program_inv files q
    \<and> run_script main_enabled (main_do t message) (strand_events script) (pg_main p) = Some (pg_main q)
    \<and> set (concat (map reported script)) \<union> set (program_completions p) \<subseteq> set (program_completions q)"
  using assms
proof (induction script arbitrary: p)
  case (Cons e script)
  let ?p = "program_do ex message e p"
  have en: "program_enabled e p" and rest: "program_run ex message script ?p = Some q"
    using Cons.prems(1) by (auto simp: program_run_def split: if_splits)
  have "program_inv files ?p" using program_inv_step [OF Cons.prems(5,4) en] Cons.prems(2,3) by simp
  note IH = Cons.IH [OF rest _ _ Cons.prems(4) this]
  have "set (reported e) \<union> set (program_completions p) \<subseteq> set (program_completions ?p)"
    using completions_step [OF _ en] Cons.prems(5) by (simp add: program_inv_def)
  moreover have "run_script main_enabled (main_do t message) (strand_events (e # script)) (pg_main p) = Some (pg_main q)"
    using IH calm_main [of e ex message p] Cons.prems en
    by (cases e) (simp_all add: strand_events_def del: main_do.simps)
  ultimately show ?case using IH Cons.prems(2,3) by auto
qed (simp add: program_run_def strand_events_def)

end
