(* ===== verification/Serveza_Program_Exit.thy ===== *)
theory Serveza_Program_Exit
  imports Serveza_Program_Inv
begin

text \<open>What the example programs return, and a run of \<open>CallbackEcho\<close> from its first statement to its last.\<close>

lemma completed_member: "(Some h, ec) \<in> set cs \<Longrightarrow> h \<in># sum_list (map (\<lambda>c. opt_mset (fst c)) cs)"
  by (induction cs) auto

lemma completed_once:
  assumes "(Some h, a) \<in> set cs" and "(Some h, b) \<in> set cs"
    and "count (sum_list (map (\<lambda>c. opt_mset (fst c)) cs)) h \<le> 1"
  shows "a = b"
  using assms
proof (induction cs)
  case (Cons c cs)
  let ?n = "count (sum_list (map (\<lambda>c. opt_mset (fst c)) cs)) h"
  have pos: "0 < ?n" if "(Some h, x) \<in> set cs" for x using completed_member [OF that] by simp
  show ?case
  proof (cases "fst c = Some h")
    case True
    then have "?n = 0" using Cons.prems(3) by simp
    with pos Cons.prems(1,2) show ?thesis by force
  next
    case False
    then have "count (opt_mset (fst c)) h = 0" by (cases "fst c") auto
    with False Cons show ?thesis by (cases c) auto
  qed
qed simp

lemma main_ran:
  assumes "run_script main_enabled (main_do t message) xs m0 = Some m"
  shows "em_started m \<longleftrightarrow> em_started m0 \<or> (\<exists>es ec. Started es ec \<in> set xs)"
    and "em_waited m \<longleftrightarrow> em_waited m0 \<or> (\<exists>ec. Waited ec \<in> set xs)"
  using assms
proof (induction xs arbitrary: m0)
  case (Cons x xs)
  {
    case 1
    with Cons.IH(1) [of "main_do t message x m0"] show ?case
      by (auto simp: main_flags simp del: main_do.simps split: if_splits)
  next
    case 2
    with Cons.IH(2) [of "main_do t message x m0"] show ?case
      by (auto simp: main_flags simp del: main_do.simps split: if_splits)
  }
qed simp_all

lemma strand_events_iff: "x \<in> set (strand_events script) \<longleftrightarrow> Strand x \<in> set script"
  by (induction script) (auto simp: strand_events_def split: program_event.splits)


text \<open>A run in which the server starts, a signal arrives and the server stops.\<close>

definition run_threads :: "nat \<Rightarrow> program_event list" where
  "run_threads j = replicate 8 (Pool (Sys_server (Do_run j quiet_env) all_succeed))"

definition run_listener :: "listener_handler acceptor_task \<Rightarrow> asio \<Rightarrow> program_event" where
  "run_listener t r = Pool (Sys_acceptor 0 (Run t) r)"

definition port_bound :: asio where
  "port_bound = all_succeed\<lparr> r_local_endpoint := (no_error, loopback 54321) \<rparr>"

definition example_program_running :: "program_event list" where
  "example_program_running =
     replicate 4 (Main_next Succeeds) @ run_threads 0 @ [run_listener (Wait_task 1 0 (Child (0, 0))) all_succeed] @
     [Main_next Succeeds] @ run_threads 1 @
     [run_listener (Start_task 1 (Child (1, 0))) port_bound, Pool (Sys_deliver (1, 0) no_error)] @ run_threads 2 @
     [Strand (Started [''127.0.0.1:54321''] no_error)]"

definition example_program :: "program_event list" where
  "example_program = example_program_running @ [Strand (Signal no_error)] @ run_threads 3 @
     [run_listener Stop_task all_succeed,
      run_listener Accept_handler (all_succeed\<lparr> r_ec := operation_aborted \<rparr>), Pool (Sys_deliver (0, 0) no_error)] @
     run_threads 4 @ [Strand (Waited no_error)] @ replicate 2 (Main_next Succeeds)"

lemma example_program_ok:
  "list_all calm example_program_running" "list_all event_live example_program_running"
  "list_all calm example_program" "list_all event_live example_program"
  by (simp_all add: example_program_def example_program_running_def run_threads_def run_listener_def list_all_iff
      port_bound_def all_succeed_def)


end
