(* ===== verification/Serveza_Program_Stop.thy ===== *)
theory Serveza_Program_Stop
  imports Serveza_Program_Exit
begin

text \<open>
  Stopping the example programs.  Once the main thread waits in \<open>pool.join()\<close> one signal
  suffices.  A signal that arrives before the main thread has started the server is lost.
\<close>

subsection \<open>Continuations\<close>

text \<open>Events that need no signal.\<close>

fun unprompted :: "program_event \<Rightarrow> bool" where
  "unprompted (Strand (Signal ec)) \<longleftrightarrow> False"
| "unprompted e \<longleftrightarrow> calm e"

definition continues :: "example \<Rightarrow> (error_code \<Rightarrow> string) \<Rightarrow> program \<Rightarrow> program \<Rightarrow> bool" where
  "continues ex message p q \<longleftrightarrow> (\<exists>more. list_all unprompted more \<and> program_run ex message more p = Some q)"

lemma continues_refl: "continues ex message p p"
  unfolding continues_def by (intro exI [of _ "[]"]) (simp add: program_run_def)

lemma continues_event:
  "program_enabled e p \<Longrightarrow> unprompted e \<Longrightarrow> continues ex message p (program_do ex message e p)"
  unfolding continues_def by (intro exI [of _ "[e]"]) (simp add: program_run_def)

lemma continues_trans:
  assumes "continues ex message p q" and "continues ex message q r" shows "continues ex message p r"
proof -
  from assms obtain xs ys where "list_all unprompted (xs @ ys)" "program_run ex message xs p = Some q"
    "program_run ex message ys q = Some r" unfolding continues_def by fastforce
  then have "program_run ex message (xs @ ys) p = Some r" by (simp add: program_run_def run_script_append)
  with \<open>list_all unprompted (xs @ ys)\<close> show ?thesis unfolding continues_def by blast
qed

lemma unprompted_calm: "unprompted e \<Longrightarrow> calm e"
  by (cases e rule: unprompted.cases) simp_all

lemma continues_keeps:
  assumes "continues ex message p q" and h: "ex_handlers ex = main_do t" and "counted p" and "linked p"
  shows "counted q \<and> linked q"
proof -
  from assms(1) obtain more where "list_all unprompted more" "program_run ex message more p = Some q"
    unfolding continues_def by blast
  then show ?thesis using assms(3,4)
  proof (induction more arbitrary: p)
    case (Cons e more)
    then have en: "program_enabled e p" "program_run ex message more (program_do ex message e p) = Some q" "calm e"
      by (auto simp: program_run_def unprompted_calm split: if_splits)
    with Cons counted_step [OF _ h en(1,3)] linked_step [OF _ _ h en(1,3)] show ?case by simp
  qed (simp add: program_run_def)
qed

text \<open>The pool runs the system.\<close>

lemma pool_continues:
  assumes "run_script pool_enabled system_do xs (pg_system p) = Some s" and "pool_open p"
  shows "continues ex message p (p\<lparr> pg_system := s \<rparr>)"
proof -
  have "program_run ex message (map Pool xs) p = Some (p\<lparr> pg_system := s \<rparr>)"
    using assms
  proof (induction xs arbitrary: p)
    case (Cons x xs)
    have "pool_open (p\<lparr> pg_system := system_do x (pg_system p) \<rparr>)" using Cons.prems(2) by (simp add: pool_open_def)
    with Cons.IH [of "p\<lparr> pg_system := system_do x (pg_system p) \<rparr>"] Cons.prems show ?case
      by (simp add: program_run_def split: if_splits)
  qed (simp add: program_run_def)
  moreover have "list_all unprompted (map Pool xs)" by (simp add: list_all_iff)
  ultimately show ?thesis unfolding continues_def by blast
qed

lemma leads_pool: "leads s t \<Longrightarrow> \<exists>xs. run_script pool_enabled system_do xs s = Some t"
proof -
  have "run_script unaided_enabled system_do xs s = Some t \<Longrightarrow> run_script pool_enabled system_do xs s = Some t" for xs
    by (induction xs arbitrary: s) (auto simp: unaided_pool split: if_splits)
  then show "leads s t \<Longrightarrow> ?thesis" unfolding leads_def by blast
qed

definition emptied :: "'h system \<Rightarrow> bool" where
  "emptied s \<longleftrightarrow> at_rest s \<and> list_all node_empty (sy_nodes s)"

lemma stop_continues:
  assumes "closed_phase False False s" and "threads_done s" and "pool_open p" and "pg_system p = system_do stop_request s"
  shows "\<exists>t. emptied t \<and> continues ex message p (p\<lparr> pg_system := t \<rparr>)"
proof -
  from stop_completes_all [OF assms(1,2)] obtain u where u: "leads (system_do stop_request s) u" "at_rest u"
    by (auto simp: at_rest_def)
  from leads_pool [OF u(1)] obtain xs where xs: "run_script pool_enabled system_do xs (pg_system p) = Some u"
    using assms(4) by auto
  from queues_empty [OF u(2)] obtain ys t where t: "run_script pool_enabled system_do ys u = Some t" "emptied t"
    by (auto simp: emptied_def list_all_iff)
  have "run_script pool_enabled system_do (xs @ ys) (pg_system p) = Some t"
    using xs t(1) by (simp add: run_script_append)
  from pool_continues [OF this assms(3)] t(2) show ?thesis by blast
qed

subsection \<open>The handlers run\<close>

definition stopped_program :: "string list \<Rightarrow> program \<Rightarrow> bool" where
  "stopped_program files p \<longleftrightarrow>
     emptied (pg_system p) \<and> counted p \<and> linked p \<and> \<not> pg_waiting p \<and> pg_coroutine p = [] \<and>
     pg_exit p = None \<and> pg_code p = Join # last_code files"

lemma completed_some: "h \<in># completed_handlers sv \<Longrightarrow> \<exists>ec. (Some h, ec) \<in> set (sv_completions sv)"
proof -
  have "h \<in># sum_list (map (\<lambda>c. opt_mset (fst c)) cs) \<Longrightarrow> \<exists>ec. (Some h, ec) \<in> set cs" for cs
  proof (induction cs)
    case (Cons c cs)
    then show ?case by (cases c; cases "fst c") auto
  qed simp
  then show "h \<in># completed_handlers sv \<Longrightarrow> ?thesis" by (simp add: completed_handlers_def)
qed

lemma emptied_completed:
  assumes "emptied (pg_system p)" and "linked p"
  shows "completed_handlers (sy_server (pg_system p)) = submitted_handlers p"
proof -
  let ?s = "pg_system p"
  have "closed_phase True False ?s" "threads_done ?s" "sy_arriving ?s = []"
    using assms(1) by (simp_all add: emptied_def at_rest_def)
  moreover have "\<forall>n \<in> set (sy_nodes ?s). node_quiet n" using closed_stopped_quiet calculation(1) by blast
  ultimately have "server_held (instrs (sy_server ?s)) (sy_server ?s) = {#}"
    by (intro system_at_rest) (simp_all add: closed_phase_def system_live_def)
  with assms(2) system_balance show ?thesis unfolding linked_def by force
qed

fun handler_event :: "main_handler \<Rightarrow> error_code \<Rightarrow> program \<Rightarrow> main_event" where
  "handler_event Start_handler ec p = Started (listener_endpoints p) ec"
| "handler_event Wait_handler ec p = Waited ec"

lemma handler_enabled:
  assumes p: "stopped_program files p" and h: "h \<in> set (pg_outstanding p)"
  shows "\<exists>ec. program_enabled (Strand (handler_event h ec p)) p"
proof -
  have "h \<in># submitted_handlers p" using h by (simp add: submitted_handlers_def)
  then obtain ec where ec: "(Some h, ec) \<in> set (program_completions p)"
    using completed_some emptied_completed p unfolding stopped_program_def by metis
  have ended: "thread_ended (pg_strand p) p"
    using p by (auto simp: stopped_program_def emptied_def at_rest_def thread_ended_def split: option.split)
  have "count (submitted_handlers p) h \<le> 1"
  proof -
    have "submitted_handlers p \<subseteq># {# Start_handler, Wait_handler #}"
      using p unfolding stopped_program_def counted_def by (metis mset_subset_eq_add_left union_assoc)
    then have "count (submitted_handlers p) h \<le> count {# Start_handler, Wait_handler #} h" by (rule mset_subset_eq_count)
    then show ?thesis by (cases h) simp_all
  qed
  moreover have "0 < count (mset (pg_outstanding p)) h" using h by simp
  ultimately have "count (handlers_run (pg_main p)) h = 0"
    unfolding submitted_handlers_def count_union by linarith
  then have run: "h \<notin># handlers_run (pg_main p)" by (simp add: not_in_iff)
  show ?thesis
    by (rule exI [of _ ec], insert h ec ended p run, cases h)
      (auto simp: completed_with_def pool_open_def stopped_program_def handlers_run_def split: if_splits)
qed

lemma remove1_length: "x \<in> set xs \<Longrightarrow> length (remove1 x xs) < length xs"
  by (induction xs) auto

lemma handler_runs:
  assumes p: "stopped_program files p" and ex: "ex_handlers ex = main_do t" and h: "h \<in> set (pg_outstanding p)"
  shows "\<exists>q. continues ex message p q \<and> stopped_program files q \<and> length (pg_outstanding q) < length (pg_outstanding p)"
proof -
  obtain ec where en: "program_enabled (Strand (handler_event h ec p)) p" using handler_enabled [OF p h] by blast
  define q where "q = program_do ex message (Strand (handler_event h ec p)) p"
  have pq: "continues ex message p q" unfolding q_def by (rule continues_event [OF en]) (cases h; simp)
  have q: "pg_waiting q = pg_waiting p" "pg_coroutine q = pg_coroutine p" "pg_exit q = pg_exit p" "pg_code q = pg_code p"
    "pg_outstanding q = remove1 h (pg_outstanding p)"
    by (cases h; simp add: q_def)+
  then have less: "length (pg_outstanding q) < length (pg_outstanding p)"
    using remove1_length [OF h] by simp
  have rest: "\<exists>s. emptied s \<and> continues ex message q (q\<lparr> pg_system := s \<rparr>)"
  proof (cases "pg_system q = pg_system p")
    case True
    then have "q\<lparr> pg_system := pg_system p \<rparr> = q" by (metis program.surjective program.update_convs(11))
    with p continues_refl [of ex message q] show ?thesis unfolding stopped_program_def by metis
  next
    case False
    then have "pg_system q = system_do stop_request (pg_system p)"
      using event_actions_system [of ex message "Strand (handler_event h ec p)" p] by (auto simp: q_def split: if_splits)
    moreover have "closed_phase False False (pg_system p)" "threads_done (pg_system p)"
      using p by (auto simp: stopped_program_def emptied_def at_rest_def closed_phase_def)
    moreover have "pool_open q" using p q by (simp add: stopped_program_def pool_open_def)
    ultimately show ?thesis using stop_continues by blast
  qed
  then obtain s where s: "emptied s" "continues ex message q (q\<lparr> pg_system := s \<rparr>)" by blast
  have pr: "continues ex message p (q\<lparr> pg_system := s \<rparr>)" using continues_trans [OF pq s(2)] .
  have "counted p" "linked p" using p by (simp_all add: stopped_program_def)
  from continues_keeps [OF pr ex this] p q s(1) have "stopped_program files (q\<lparr> pg_system := s \<rparr>)"
    by (simp add: stopped_program_def)
  with pr less show ?thesis by (intro exI [of _ "q\<lparr> pg_system := s \<rparr>"]) simp
qed

lemma handlers_finish:
  assumes "stopped_program files p" and "ex_handlers ex = main_do t"
  shows "\<exists>q. continues ex message p q \<and> stopped_program files q \<and> pg_outstanding q = []"
  using assms(1)
proof (induction "length (pg_outstanding p)" arbitrary: p rule: less_induct)
  case less
  show ?case
  proof (cases "pg_outstanding p = []")
    case True
    with less.prems continues_refl show ?thesis by blast
  next
    case False
    then obtain h where "h \<in> set (pg_outstanding p)" by (cases "pg_outstanding p") auto
    from handler_runs [OF less.prems assms(2) this] less.hyps show ?thesis by (meson continues_trans)
  qed
qed

subsection \<open>The main thread returns\<close>

lemma last_code_runs:
  assumes "pg_code p = last_code files" and "pg_exit p = None" and "concat (server_threads p) = []"
  shows "\<exists>q status. continues ex message p q \<and> pg_exit q = Some status"
  using assms
proof (induction files arbitrary: p)
  case Nil
  then have "program_enabled (Main_next Succeeds) p" by (auto simp: last_code_def thread_ended_def split: option.split)
  from continues_event [OF this] Nil show ?case
    by (intro exI [of _ "program_do ex message (Main_next Succeeds) p"]) (simp add: last_code_def main_next_def)
next
  case (Cons f files)
  let ?p = "program_do ex message (Main_next Succeeds) p"
  have "program_enabled (Main_next Succeeds) p"
    using Cons.prems by (auto simp: last_code_def thread_ended_def split: option.split)
  then have "continues ex message p ?p" by (rule continues_event) simp
  moreover have "pg_code ?p = last_code files" "pg_exit ?p = None" "concat (server_threads ?p) = []"
    using Cons.prems by (simp_all add: last_code_def main_next_def)
  ultimately show ?case using Cons.IH [of ?p] continues_trans by blast
qed

lemma stopped_program_returns:
  assumes p: "stopped_program files p" and "pg_outstanding p = []"
  shows "\<exists>q status. continues ex message p q \<and> pg_exit q = Some status"
proof -
  let ?p = "program_do ex message (Main_next Succeeds) p"
  have "program_enabled (Main_next Succeeds) p"
    using assms by (auto simp: stopped_program_def emptied_def at_rest_def pool_idle_def thread_ended_def split: option.split)
  then have "continues ex message p ?p" by (rule continues_event) simp
  moreover have "pg_code ?p = last_code files" "pg_exit ?p = None" "concat (server_threads ?p) = []"
    using p by (simp_all add: stopped_program_def emptied_def at_rest_def main_next_def)
  ultimately show ?thesis using last_code_runs [of ?p files ex message] continues_trans by blast
qed

subsection \<open>One signal suffices\<close>

lemma signal_stops:
  assumes inv: "program_inv files p" and ex: "ex_handlers ex = main_do t"
    and p: "pg_code p = Join # last_code files" "pg_exit p = None" "pg_waiting p" "pg_coroutine p = []"
  shows "\<exists>p1 p2. continues ex message p p1 \<and> program_enabled (Strand (Signal no_error)) p1 \<and>
    continues ex message (program_do ex message (Strand (Signal no_error)) p1) p2 \<and> stopped_program files p2"
proof -
  have counted: "counted p" "linked p" and live: "system_live (pg_system p)" and opened: "pool_open p"
    using inv p by (simp_all add: program_inv_def pool_open_def)
  from settles [OF live] obtain u where u: "leads (pg_system p) u" "closed_phase False False u" "threads_done u" by blast
  define p1 where "p1 = p\<lparr> pg_system := u \<rparr>"
  have p1: "continues ex message p p1" using leads_pool [OF u(1)] pool_continues [OF _ opened] unfolding p1_def by blast
  from continues_keeps [OF p1 ex counted] have c1: "counted p1" "linked p1" by simp_all
  let ?e = "Strand (Signal no_error)"
  define p2 where "p2 = program_do ex message ?e p1"
  have en: "program_enabled ?e p1"
    using opened p(3) c1(1) u(3)
    by (auto simp: p1_def pool_open_def counted_def thread_ended_def split: option.split)
  have c2: "counted p2" "linked p2"
    using counted_step [OF c1(1) ex en] linked_step [OF c1(2,1) ex en] by (simp_all add: p2_def)
  have "pg_system p2 = system_do stop_request u"
    using event_actions_system [of ex message ?e p1] main_step(2) [of t message "Signal no_error" "pg_main p"]
    by (simp add: p2_def p1_def ex asks_stop_def)
  moreover have "pool_open p2" using opened by (simp add: p2_def p1_def pool_open_def)
  ultimately obtain s where s: "emptied s" "continues ex message p2 (p2\<lparr> pg_system := s \<rparr>)"
    using stop_continues [OF u(2,3)] by blast
  from continues_keeps [OF s(2) ex c2] s(1) p have "stopped_program files (p2\<lparr> pg_system := s \<rparr>)"
    by (simp add: stopped_program_def p2_def p1_def)
  with p1 en s(2) show ?thesis unfolding p2_def by blast
qed



subsection \<open>A signal that comes too early\<close>

text \<open>
  The signal arrives when the main thread of \<open>CallbackEcho\<close> has called \<open>async_wait\<close> but not
  yet \<open>async_start\<close>: the idle listener is stopped, the wait completes, and only then is the
  server started.
\<close>

definition early_signal :: "program_event list" where
  "early_signal =
     replicate 4 (Main_next Succeeds) @ run_threads 0 @ [run_listener (Wait_task 1 0 (Child (0, 0))) all_succeed] @
     [Strand (Signal no_error)] @ run_threads 1 @
     [run_listener Stop_task all_succeed, Pool (Sys_deliver (0, 0) no_error)] @ run_threads 2 @
     [Strand (Waited no_error), Main_next Succeeds] @ run_threads 3 @
     [run_listener (Start_task 1 (Child (1, 0))) port_bound, Pool (Sys_deliver (1, 0) no_error)] @ run_threads 4 @
     [Strand (Started [''127.0.0.1:54321''] no_error)]"

text \<open>No handler is left that could run, and the main thread has nothing left to submit.\<close>

definition deserted :: "program \<Rightarrow> bool" where
  "deserted p \<longleftrightarrow> \<not> pg_waiting p \<and> pg_outstanding p = [] \<and> pg_coroutine p = [] \<and> set (pg_code p) \<subseteq> {Join, Return}"

lemma deserted_step:
  assumes p: "deserted p" and en: "program_enabled e p"
  shows "deserted (program_do ex message e p) \<and> pg_main (program_do ex message e p) = pg_main p"
proof (cases e)
  case (Main_next a)
  with en obtain c cs where c: "pg_code p = c # cs" "stmt_answers c a" by (auto split: list.splits)
  with p consider "c = Join" | "c = Return" by (auto simp: deserted_def)
  then show ?thesis using p c Main_next by cases (auto simp: deserted_def main_next_def)
next
  case (Strand x)
  with en p show ?thesis by (cases x) (simp_all add: deserted_def completed_with_def)
qed (use p en in \<open>simp_all add: deserted_def\<close>)

lemma deserted_run:
  "program_run ex message script p = Some q \<Longrightarrow> deserted p \<Longrightarrow> pg_main q = pg_main p"
proof (induction script arbitrary: p)
  case (Cons e script)
  then have "program_enabled e p" "program_run ex message script (program_do ex message e p) = Some q"
    by (auto simp: program_run_def split: if_splits)
  with Cons deserted_step [of p e ex message] show ?case by simp
qed (simp add: program_run_def)

fun node_serving :: "listener_node \<Rightarrow> bool" where
  "node_serving (Accepting l) \<longleftrightarrow> m_state l = listener_running \<and> m_accept_pending l"
| "node_serving (Bound l) \<longleftrightarrow> m_state l = listener_running"

text \<open>
  C38: a signal can be lost.  There is a run of \<open>CallbackEcho\<close> in which a signal arrives before
  \<open>async_start\<close> is called; the program announces that it stops and that it has stopped, but
  the server is started afterwards and its listener accepts connections while the main thread
  waits in \<open>pool.join()\<close>.  The wait on the signals is used up and no handler is left: in no
  continuation does the program ask its server to stop again.
\<close>

theorem early_signal_is_lost:
  "\<exists>p. program_run callback_example (\<lambda>ec. []) early_signal (launch callback_example []) = Some p
    \<and> pg_code p = [Join, Return] \<and> list_all node_serving (sy_nodes (pg_system p))
    \<and> take 3 (em_out (pg_main p)) =
        [''Stopping Serveza callback echo example.'', ''Serveza callback echo example stopped.'',
         ''Serveza callback echo example is running.'']
    \<and> (\<forall>more q. program_run callback_example (\<lambda>ec. []) more p = Some q \<longrightarrow>
        em_stops (pg_main q) = 1)"
proof -
  have "map_option (\<lambda>p. (pg_code p, list_all node_serving (sy_nodes (pg_system p)), take 3 (em_out (pg_main p)),
        em_stops (pg_main p), pg_waiting p, pg_outstanding p, pg_coroutine p))
      (program_run callback_example (\<lambda>ec. []) early_signal (launch callback_example [])) =
      Some ([Join, Return], True, [''Stopping Serveza callback echo example.'', ''Serveza callback echo example stopped.'',
        ''Serveza callback echo example is running.''], 1, False, [], [])" by code_simp
  then obtain p where p: "program_run callback_example (\<lambda>ec. []) early_signal (launch callback_example []) = Some p"
    "pg_code p = [Join, Return]" "list_all node_serving (sy_nodes (pg_system p))" "take 3 (em_out (pg_main p)) =
        [''Stopping Serveza callback echo example.'', ''Serveza callback echo example stopped.'',
         ''Serveza callback echo example is running.'']" "em_stops (pg_main p) = 1" "deserted p"
    by (auto simp: deserted_def)
  from deserted_run [OF _ p(6)] p(1-5) show ?thesis by (intro exI [of _ p]) simp
qed

theorem early_signal_is_lost_witness:
  "\<exists>p. program_run callback_example (\<lambda>ec. []) early_signal (launch callback_example []) = Some p
    \<and> em_stops (pg_main p) = 1"
proof -
  from early_signal_is_lost obtain p where
    p: "program_run callback_example (\<lambda>ec. []) early_signal (launch callback_example []) = Some p"
    "\<forall>more q. program_run callback_example (\<lambda>ec. []) more p = Some q \<longrightarrow> em_stops (pg_main q) = 1" by blast
  have "program_run callback_example (\<lambda>ec. []) [] p = Some p" by (simp add: program_run_def)
  with p show ?thesis by blast
qed

end
