(* ===== verification/Serveza_Socket_Trace.thy ===== *)
theory Serveza_Socket_Trace
  imports Serveza_Lifecycle Serveza_Socket_Session
begin

text \<open>
  The bound listener refines the abstract lifecycle with a limit of one session.
\<close>

definition socket_view :: "'h socket_listener \<Rightarrow> lifecycle" where
  "socket_view l = lifecycle_of (if m_session l = None then 0 else 1) 1 l"

abbreviation sock_advances :: "'h socket_listener \<Rightarrow> 'h socket_listener \<Rightarrow> bool" where
  "sock_advances \<equiv> advances socket_view"

lemma socket_view_simps [simp]:
  "lc_state (socket_view l) = m_state l"
  "lc_generation (socket_view l) = m_generation l"
  "lc_sessions (socket_view l) = (if m_session l = None then 0 else 1)"
  "lc_limit (socket_view l) = 1"
  by (simp_all add: socket_view_def lifecycle_of_def)

interpretation sock_view: listener_view "socket_view :: 'h socket_listener \<Rightarrow> lifecycle"
proof
  fix l l' :: "'h socket_listener"
  assume "listener_base.more l' = listener_base.more l" and "m_options l' = m_options l"
  then show "socket_view l' =
      (socket_view l)\<lparr> lc_state := m_state l', lc_generation := m_generation l' \<rparr>"
    by (cases l; cases l') (simp add: socket_view_def lifecycle_of_def)
qed simp_all

lemma sock_quiet:
  assumes "m_state l' = m_state l" "m_generation l' = m_generation l" "m_session l' = m_session l"
    and "m_observers l' = m_observers l" "events l' = events l"
  shows "sock_advances l l'"
  using assms by (intro advances_quiet) (simp_all add: socket_view_def lifecycle_of_def)

lemma sock_session_ops [simp]:
  "sock_advances l (sess_notify a res r l)"
  "sock_advances l (sess_finish a ec ep r l)"
  "sock_advances l (sess_force_close r a l)"
  "sock_advances l (sess_request_stop r a l)"
  "sock_advances l (sess_start a r l)"
  "sock_advances l (cancel_sock_timer l)"
  "sock_advances l (l\<lparr> sess := cs \<rparr>)"
  "sock_advances l (l\<lparr> escaped := n \<rparr>)"
  by (rule sock_quiet; simp add: sess_notify_def sess_finish_def sess_force_close_def
      sess_request_stop_def sess_start_def post_def cancel_sock_timer_def Let_def split: option.split)+

lemma sock_finish:
  assumes "m_state l = listener_starting \<or> m_state l = listener_stopping" and "m_session l = None"
  shows "sock_advances l (socket_finish ec reason l)"
proof -
  define l1 where "l1 = cancel_sock_timer (keep_first_error ec
    (set_stop_reason reason (l\<lparr> m_terminal_error := ec \<rparr>)))"
  have "sock_advances l l1"
    by (rule sock_quiet) (simp_all add: l1_def cancel_sock_timer_def listener_helpers)
  also have "sock_advances l1 (transition_to listener_stopped l1)"
    by (rule sock_view.enter_stopped)
      (use assms in \<open>simp_all add: l1_def cancel_sock_timer_def listener_helpers\<close>)
  also have "sock_advances (transition_to listener_stopped l1) (release_waiters (transition_to listener_stopped l1))"
    by simp
  finally show ?thesis
    using assms(1) by (auto simp: socket_finish_def Let_def l1_def)
qed

lemma sock_maybe_finish: "sock_advances l (socket_maybe_finish l)"
  by (simp add: socket_maybe_finish_def sock_finish)

lemma sock_stop_session: "sock_advances l (socket_stop_session r a l)"
proof -
  let ?l = "sess_request_stop r a l"
  have l: "sock_advances l ?l" by simp
  have "sock_advances ?l (socket_maybe_finish (post t (cancel_sock_timer ?l)))" for t
    by (rule advances_trans [OF sock_session_ops(6) advances_trans [OF sock_view.quiet_helpers(4) sock_maybe_finish]])
  from advances_trans [OF l this] advances_trans [OF l sock_session_ops(8)] show ?thesis
    unfolding socket_stop_session_def Let_def by (cases "r_shutdown_timer r") simp_all
qed

lemma sock_stop_on_strand:
  assumes "m_state l = listener_idle \<Longrightarrow> m_session l = None"
  shows "sock_advances l (socket_stop_on_strand r l)"
proof (cases "m_state l = listener_stopping \<or> m_state l = listener_stopped")
  case False
  let ?l = "transition_to listener_stopping (set_stop_reason requested l)"
  have "sock_advances l (set_stop_reason requested l)" by simp
  also have "sock_advances (set_stop_reason requested l) ?l"
    by (rule sock_view.enter_stopping) (use False in simp_all)
  finally have l: "sock_advances l ?l" .
  have "sock_advances ?l (socket_finish ec reason ?l)" if "m_state l = listener_idle" for ec reason
    by (rule sock_finish) (use assms that in simp_all)
  then show ?thesis
    using False l sock_maybe_finish [of ?l] sock_stop_session [of ?l]
    unfolding socket_stop_on_strand_def Let_def
    by (cases "m_state l"; cases "m_session l") (auto intro: advances_trans)
qed (auto simp: socket_stop_on_strand_def)

lemma sock_shutdown_expired: "sock_advances l (socket_shutdown_expired ec r l)"
proof -
  define l1 where "l1 = emit shutdown_forced no_connection timed_out None (record_diagnostic timed_out None l)"
  have "sock_advances l (record_diagnostic timed_out None l)" by simp
  also have "sock_advances (record_diagnostic timed_out None l) l1"
    unfolding l1_def by (rule sock_view.quiet_emit) simp
  finally have "sock_advances l l1" .
  then show ?thesis
    by (auto simp: socket_shutdown_expired_def Let_def l1_def [symmetric] intro: advances_trans
        split: option.split)
qed

lemma sock_emit_step:
  assumes "lifecycle_step (socket_view l) e (socket_view l')"
    and "lifecycle_event_of type (status_of l') = [e]"
    and "m_observers l' = m_observers l" "events l' = events l"
  shows "sock_advances l (emit type info ec ep l')"
proof -
  have "socket_view (emit type info ec ep l') = socket_view l'"
    by (simp add: socket_view_def lifecycle_of_def emit_def)
  with assms show ?thesis by (intro advances_emit) (simp_all add: lifecycle_run_single)
qed

lemma sock_session_finished:
  assumes "m_session l = Some a" and "m_state l = listener_running \<or> m_state l = listener_stopping"
  shows "sock_advances l (socket_session_finished ec ep l)"
proof -
  define l1 where "l1 = (if ec \<noteq> operation_aborted \<and> (failed ec \<or> ep \<noteq> None)
    then record_diagnostic ec ep (l\<lparr> m_session := None, m_active_sessions := 0 \<rparr>)
    else l\<lparr> m_session := None, m_active_sessions := 0 \<rparr>)"
  define l2 where "l2 = emit session_stopped no_connection ec ep l1"
  have "socket_view l1 = (socket_view l)\<lparr> lc_sessions := lc_sessions (socket_view l) - 1 \<rparr>"
    "m_observers l1 = m_observers l" "events l1 = events l"
    using assms(1) by (simp_all add: l1_def socket_view_def lifecycle_of_def record_diagnostic_def)
  then have l2: "sock_advances l l2"
    unfolding l2_def using lc_close [of "socket_view l"] assms
    by (intro sock_emit_step [where e = Closed]) simp_all
  have none: "m_session l2 = None" and st: "m_state l2 = m_state l" by (simp_all add: l2_def l1_def)
  have "sock_advances l2 (socket_finish ec reason (transition_to listener_stopping l2))"
    if "m_state l = listener_running" for reason
    by (rule advances_trans [OF sock_view.enter_stopping sock_finish]) (use that none st in simp_all)
  then have "sock_advances l (socket_finish ec reason (transition_to listener_stopping l2))"
    if "m_state l = listener_running" for reason
    using that l2 by (blast intro: advances_trans)
  moreover have "sock_advances l (socket_maybe_finish l2)"
    using l2 sock_maybe_finish by (rule advances_trans)
  moreover have "socket_report_finished ec ep (l\<lparr> m_session := None, m_active_sessions := 0 \<rparr>) = l2"
    by (simp add: l2_def l1_def socket_report_finished_def)
  ultimately show ?thesis using st by (simp add: socket_session_finished_def Let_def)
qed

lemma sock_run_session:
  assumes "m_state l = listener_starting" and "m_session l = None"
  shows "sock_advances l (socket_run_session h r l)"
proof -
  let ?c = "new_connection (m_id l) \<lparr> ci_id = 0, ci_local_endpoint = m_endpoint l, ci_remote_endpoint = [] \<rparr>"
  define l1 where "l1 = transition_to listener_running
    (l\<lparr> sess := sess l @ [?c], m_session := Some (length (sess l)), m_active_sessions := 1 \<rparr>)"
  define l2 where "l2 = emit session_started no_connection no_error None l1"
  let ?a = "socket_view l"
  let ?b = "?a\<lparr> lc_state := listener_running \<rparr>"
  have "lifecycle_step ?a (Entered listener_running (m_generation l)) ?b"
    using lc_run [of ?a] assms by simp
  moreover have "lifecycle_step ?b Opened (?b\<lparr> lc_sessions := 1 \<rparr>)"
    using lc_open [of ?b] assms by simp
  ultimately have "lifecycle_run ?a [Entered listener_running (m_generation l), Opened] (?b\<lparr> lc_sessions := 1 \<rparr>)"
    using lifecycle_run_append lifecycle_run_single by fastforce
  moreover have "socket_view l2 = ?b\<lparr> lc_sessions := 1 \<rparr>"
    by (simp add: l2_def l1_def socket_view_def lifecycle_of_def listener_helpers)
  moreover have "observed l2 = observed l @
      (if m_observers l then [Entered listener_running (m_generation l), Opened] else [])"
    "m_observers l2 = m_observers l"
    by (simp_all add: l2_def l1_def observed_def listener_helpers status_of_def)
  ultimately have l2: "sock_advances l l2" unfolding advances_def by metis
  let ?l3 = "complete h no_error l2"
  have eq: "socket_run_session h r l =
      (if r_start_post r then ?l3\<lparr> escaped := escaped ?l3 + 1 \<rparr> else post (Sess_start (length (sess l))) ?l3)"
    by (simp add: socket_run_session_def Let_def l2_def l1_def)
  have "sock_advances l2 ?l3" by simp
  also have "sock_advances ?l3 (socket_run_session h r l)" unfolding eq by simp
  finally have "sock_advances l2 (socket_run_session h r l)" .
  with l2 show ?thesis by (rule advances_trans)
qed

lemma sock_start_on_strand:
  assumes inv: "socket_inv l"
  shows "sock_advances l (socket_start_on_strand h r l)"
proof (cases "m_state l = listener_idle \<or> m_state l = listener_stopped")
  case True
  have none: "m_session l = None" using True inv by (auto simp: socket_inv_def)
  let ?l = "socket_enter_starting l"
  have l: "sock_advances l ?l"
    unfolding socket_enter_starting_def Let_def
    by (rule sock_view.enter_starting) (use True none in \<open>simp_all add: clear_diagnostics_def\<close>)
  have fails: "sock_advances l (socket_finish ec startup_failure (complete h ec l1))"
    if "sock_advances l l1" "m_state l1 = listener_starting" "m_session l1 = None" for l1 ec
    by (rule advances_trans [OF advances_trans [OF that(1) sock_view.quiet_helpers(5)] sock_finish])
      (use that in simp_all)
  have factory: "sock_advances l (socket_factory_failed h e (?l\<lparr> m_endpoint := x \<rparr>))" for e x
  proof -
    let ?l1 = "record_diagnostic (exception_to_error (Some e)) (Some e) (?l\<lparr> m_endpoint := x \<rparr>)"
    let ?l2 = "emit session_factory_failed no_connection (exception_to_error (Some e)) (Some e) ?l1"
    have "sock_advances l ?l1"
      by (rule advances_trans [OF l advances_trans [OF sock_view.quiet_helpers(11) sock_view.quiet_helpers(1)]])
    also have "sock_advances ?l1 ?l2" by (rule sock_view.quiet_emit) simp
    finally show ?thesis
      using fails [of ?l2] none by (simp add: socket_factory_failed_def Let_def)
  qed
  have runs: "sock_advances l (socket_run_session h r (?l\<lparr> m_endpoint := x \<rparr>))" for x
    by (rule advances_trans [OF l advances_trans [OF sock_view.quiet_helpers(11) sock_run_session]])
      (use none in simp_all)
  show ?thesis
    using True fails [OF l] factory runs none
    by (auto simp: socket_start_on_strand_def Let_def split: option.split)
qed (auto simp: socket_start_on_strand_def)

lemma sock_run_task:
  assumes inv: "sess_inv l" and t: "t \<in> set (pending l)"
  shows "sock_advances l (run_socket_task t r (l\<lparr> pending := remove1 t (pending l) \<rparr>))"
proof -
  let ?l = "l\<lparr> pending := remove1 t (pending l) \<rparr>"
  have sinv: "socket_inv ?l" using inv by (simp add: sess_inv_def)
  have taken: "sock_advances l ?l" by simp
  have "sock_advances ?l (run_socket_task t r ?l)"
  proof (cases t)
    case (Sock_start_task c h)
    have "sock_advances ?l (clear_slot c ?l)" by simp
    also have "sock_advances (clear_slot c ?l) (socket_start_task c h r ?l)"
      using sock_start_on_strand [of "clear_slot c ?l"] sinv by (simp add: socket_start_task_def Let_def)
    finally show ?thesis using Sock_start_task by simp
  next
    case Sock_stop_task
    have "m_state ?l = listener_idle \<Longrightarrow> m_session ?l = None" using sinv by (simp add: socket_inv_def)
    then have "sock_advances ?l (socket_stop_on_strand r ?l)" by (rule sock_stop_on_strand)
    with Sock_stop_task show ?thesis by simp
  next
    case (Sock_finished_task ec ep)
    then have "is_notice t" by simp
    with t have "notices l \<noteq> 0" by (auto simp: notices_def filter_empty_conv)
    then obtain a where "m_session l = Some a"
      using inv by (auto simp: sess_inv_def sess_ok_def split: if_splits)
    moreover from this have "m_state l = listener_running \<or> m_state l = listener_stopping"
      using inv by (auto simp: sess_inv_def socket_inv_def split: listener_state.splits)
    ultimately show ?thesis using Sock_finished_task sock_session_finished [of ?l] by simp
  next
    case (Sock_wait_task i c h)
    then show ?thesis
      by (auto simp: socket_wait_task_def intro: advances_trans [OF sock_view.quiet_helpers(6) sock_view.quiet_helpers(5)])
  qed (simp_all add: sock_shutdown_expired)
  with taken show ?thesis by (rule advances_trans)
qed

lemma sock_call:
  assumes "\<And>t. x \<noteq> Sock_run t"
  shows "sock_advances l (socket_do (x, r) l)"
proof (rule sock_quiet)
  show "m_state (socket_do (x, r) l) = m_state l" "m_generation (socket_do (x, r) l) = m_generation l"
    "m_session (socket_do (x, r) l) = m_session l" "m_observers (socket_do (x, r) l) = m_observers l"
    "events (socket_do (x, r) l) = events l"
    using assms
    by (cases x; simp add: socket_do_async_start_def socket_do_async_wait_def socket_request_stop_def
        socket_emit_cancellation_def Let_def post_def complete_def clear_slot_def split: option.split)+
qed

lemma sock_step:
  assumes "sess_inv l" and "socket_live_step l l'"
  shows "sock_advances l l'"
  using assms(2)
proof cases
  case (socket_live_stepI x r)
  then show ?thesis
    using sock_run_task [OF assms(1)] sock_call [of x] by (cases "\<exists>t. x = Sock_run t") auto
qed

interpretation sock_trace: inductive_invariant socket_init socket_live_step
  "\<lambda>l. sess_inv l \<and> traced socket_view l"
proof
  fix l :: "'h socket_listener"
  assume init: "socket_init l"
  then have "socket_view l = fresh_lifecycle 1" "observed l = []"
    by (auto simp: fresh_socket_listener_def socket_view_def lifecycle_of_def fresh_lifecycle_def
        observed_def elim!: socket_initE)
  then show "sess_inv l \<and> traced socket_view l"
    using socket_session.base [OF init] by (simp add: traced_fresh)
next
  fix l l' :: "'h socket_listener"
  assume "sess_inv l \<and> traced socket_view l" and step: "socket_live_step l l'"
  then show "sess_inv l' \<and> traced socket_view l'"
    using socket_session.preserved [OF _ step] traced_advances sock_step [OF _ step] by blast
qed

text \<open>
  C21: the bound listener refines the lifecycle machine with a limit of one session: what its
  observers are told is a trace of the machine that ends in the listener's state, and the
  sessions started are those stopped and the current one.
\<close>

theorem socket_refines_lifecycle:
  assumes "reachable socket_init socket_live_step l" and "m_observers l"
  shows "lifecycle_run (fresh_lifecycle 1) (observed l) (socket_view l)
    \<and> count_list (observed l) Opened =
        count_list (observed l) Closed + (if m_session l = None then 0 else 1)"
proof -
  have run: "lifecycle_run (fresh_lifecycle 1) (observed l) (socket_view l)"
    using sock_trace.holds [OF assms(1)] assms(2) by (simp add: traced_def)
  with lifecycle_run_balance [OF run] show ?thesis by (simp add: fresh_lifecycle_def)
qed

theorem socket_refines_lifecycle_witness:
  "observed (example_socket example_socket_stopping) =
     [Entered listener_starting 1, Entered listener_running 1, Opened, Entered listener_stopping 1]
   \<and> lifecycle_run (fresh_lifecycle 1)
      [Entered listener_starting 1, Entered listener_running 1, Opened, Entered listener_stopping 1]
      (socket_view (example_socket example_socket_stopping))"
proof -
  have obs: "m_observers (example_socket example_socket_stopping)"
    and trace: "observed (example_socket example_socket_stopping) =
     [Entered listener_starting 1, Entered listener_running 1, Opened, Entered listener_stopping 1]"
    by code_simp+
  from socket_refines_lifecycle [OF example_socket_stopping_reachable obs]
  show ?thesis unfolding trace by blast
qed

end
