(* ===== verification/Serveza_Socket_Unarmed.thy ===== *)
theory Serveza_Socket_Unarmed
  imports Serveza_Socket_Inv
begin

text \<open>
  A stop of the bound listener whose shutdown timer cannot be armed.  \<open>stop_on_strand\<close> lets the
  exception escape, and nothing replaces the timer: the listener depends on its session.
\<close>

fun leaves_session :: "'h socket_task \<Rightarrow> bool" where
  "leaves_session (Sock_shutdown_handler c d) \<longleftrightarrow> False"
| "leaves_session (Sock_finished_task ec ep) \<longleftrightarrow> False"
| "leaves_session (Sess_start a) \<longleftrightarrow> False"
| "leaves_session (Sess_force a) \<longleftrightarrow> False"
| "leaves_session _ \<longleftrightarrow> True"

definition abandoned :: "'h socket_listener \<Rightarrow> bool" where
  "abandoned l \<longleftrightarrow> m_state l = listener_stopping \<and> list_all leaves_session (pending l)"

definition session_silent :: "'h socket_action \<times> asio \<Rightarrow> bool" where
  "session_silent xr \<longleftrightarrow> (case fst xr of Sock_run (Sess_handler a) \<Rightarrow> False | _ \<Rightarrow> True)"

lemma abandoned_updates [simp]:
  "abandoned (complete h ec l) = abandoned l" "abandoned (clear_slot c l) = abandoned l"
  "abandoned (post t l) \<longleftrightarrow> abandoned l \<and> leaves_session t"
  "abandoned (l\<lparr> flags := fs \<rparr>) = abandoned l" "abandoned (l\<lparr> slots := ss \<rparr>) = abandoned l"
  "abandoned (l\<lparr> m_waiters := ws \<rparr>) = abandoned l" "abandoned (l\<lparr> sess := cs \<rparr>) = abandoned l"
  "abandoned (l\<lparr> m_next_waiter_id := i \<rparr>) = abandoned l"
  by (auto simp: abandoned_def complete_def clear_slot_def post_def)

lemma abandoned_taken: "abandoned l \<Longrightarrow> abandoned (l\<lparr> pending := remove1 t (pending l) \<rparr>)"
  by (auto simp: abandoned_def list_all_iff dest: set_remove1D)

lemma abandoned_run_task:
  assumes "abandoned l" and "leaves_session t" and "\<forall>a. t \<noteq> Sess_handler a"
  shows "abandoned (run_socket_task t r l)"
proof -
  have "m_state l = listener_stopping" using assms(1) by (simp add: abandoned_def)
  with assms show ?thesis
    by (cases t) (auto simp: socket_start_task_def socket_start_on_strand_def socket_wait_task_def cancel_wait_def
        socket_stop_on_strand_def Let_def split: option.split)
qed

lemma abandoned_do:
  assumes "abandoned l" and "socket_enabled xr l" and "session_silent xr"
  shows "abandoned (socket_do xr l)"
proof -
  obtain x r where xr: "xr = (x, r)" by (cases xr)
  show ?thesis
  proof (cases x)
    case (Sock_run t)
    then have "leaves_session t" "\<forall>a. t \<noteq> Sess_handler a"
      using assms xr by (auto simp: abandoned_def list_all_iff session_silent_def)
    then show ?thesis using abandoned_run_task [OF abandoned_taken [OF assms(1)]] xr Sock_run by simp
  qed (use assms(1) xr in \<open>auto simp: socket_do_async_start_def socket_do_async_wait_def socket_request_stop_def
      socket_emit_cancellation_def Let_def split: option.split\<close>)
qed

lemma abandoned_run:
  "socket_run script l = Some l' \<Longrightarrow> list_all session_silent script \<Longrightarrow> abandoned l \<Longrightarrow> abandoned l'"
  by (induction script arbitrary: l) (auto simp: socket_run_def abandoned_do split: if_splits)

definition example_unarmed :: "(nat socket_action \<times> asio) list" where
  "example_unarmed = example_socket_start @
     [(Sock_run (Sess_start 0), all_succeed), (Sock_call_stop, all_succeed),
      (Sock_run Sock_stop_task, all_succeed\<lparr> r_shutdown_timer := Some (system_error io_error) \<rparr>)]"

text \<open>
  C37: a stop of a bound listener can hang.  There is a run in which arming the shutdown timer
  throws, the exception escapes from the strand, and the listener is stopping; from there,
  whatever calls are made, further stops included, and whatever Asio answers, it is still
  stopping as long as the session does not complete by itself.  The accepting listener forces
  its sessions closed in the same situation.
\<close>

theorem socket_unarmed_stop_hangs:
  "\<exists>l. socket_run example_unarmed
         (fresh_socket_listener 3 True (path_endpoint ''/run/d'') (default_listener_options False)) = Some l
     \<and> m_state l = listener_stopping \<and> escaped l = 1
     \<and> (\<forall>script l'. socket_run script l = Some l' \<and> list_all session_silent script \<longrightarrow>
          m_state l' = listener_stopping)"
proof -
  let ?l = "example_socket example_unarmed"
  have "socket_run example_unarmed
      (fresh_socket_listener 3 True (path_endpoint ''/run/d'') (default_listener_options False)) \<noteq> None"
    by code_simp
  then have run: "socket_run example_unarmed
      (fresh_socket_listener 3 True (path_endpoint ''/run/d'') (default_listener_options False)) = Some ?l"
    by (auto simp: example_socket_def)
  have "abandoned ?l" "escaped ?l = 1" by code_simp+
  moreover from this(1) have "m_state l' = listener_stopping"
    if "socket_run script ?l = Some l'" "list_all session_silent script" for script l'
    using abandoned_run [OF that] by (simp add: abandoned_def)
  ultimately show ?thesis
    using run by (intro exI [of _ ?l]) (auto simp: abandoned_def)
qed

definition example_stop_again :: "(nat socket_action \<times> asio) list" where
  "example_stop_again =
     [(Sock_run (Sess_cancel 0), all_succeed), (Sock_call_stop, all_succeed), (Sock_run Sock_stop_task, all_succeed)]"

theorem socket_unarmed_stop_hangs_witness:
  "\<exists>l'. socket_run example_stop_again (example_socket example_unarmed) = Some l' \<and> m_state l' = listener_stopping"
proof -
  let ?l = "example_socket example_unarmed"
  define l' where "l' = the (socket_run example_stop_again ?l)"
  have "socket_run example_stop_again ?l \<noteq> None" "list_all session_silent example_stop_again" by code_simp+
  then have run: "socket_run example_stop_again ?l = Some l'" "list_all session_silent example_stop_again"
    by (auto simp: l'_def)
  then show ?thesis using socket_unarmed_stop_hangs by (auto simp: example_socket_def)
qed

end
