(* ===== verification/Serveza_Observers.thy ===== *)
theory Serveza_Observers
  imports Serveza_Status
begin

text \<open>
  The observer registry and the subscription handles
  (\<^verbatim>\<open>src/src/observer_registry.cpp\<close>, \<^verbatim>\<open>src/src/observer.cpp\<close> and \<open>server::observe\<close>).

  Observers are user code.  A callback is a function on a state of the caller's choice
  (the registry itself may be part of it, since a callback may subscribe and unsubscribe)
  that gives the exception it throws, if any, and the new state.  Registrations are counted
  in 64 bits; identifier 0 marks an empty subscription.
\<close>

record 'o entry =
  entry_id :: u64
  entry_value :: 'o

record 'o observer_registry =
  m_values :: "'o entry list"
  m_next_id :: u64

definition new_registry :: "'o observer_registry" where
  "new_registry = \<lparr> m_values = [], m_next_id = 0 \<rparr>"

definition registry_add :: "'o observer_registry \<Rightarrow> 'o \<Rightarrow> u64 \<times> 'o observer_registry" where
  "registry_add r value =
     (let ident = m_next_id r + 1
      in (ident, r\<lparr> m_next_id := ident,
                m_values := m_values r @ [\<lparr> entry_id = ident, entry_value = value \<rparr>] \<rparr>))"

definition registry_remove :: "'o observer_registry \<Rightarrow> u64 \<Rightarrow> 'o observer_registry" where
  "registry_remove r ident = r\<lparr> m_values := filter (\<lambda>item. entry_id item \<noteq> ident) (m_values r) \<rparr>"

fun call_each :: "('o \<Rightarrow> 's \<Rightarrow> exception_ptr \<times> 's) \<Rightarrow> 'o list \<Rightarrow> 's \<Rightarrow> 's" where
  "call_each f [] s = s"
| "call_each f (value # observers) s =
     (case f value s of (ignored, s') \<Rightarrow> call_each f observers s')"

definition notify_each ::
    "('o \<Rightarrow> 's \<Rightarrow> exception_ptr \<times> 's) \<Rightarrow> 'o observer_registry \<Rightarrow> 's \<Rightarrow> 's" where
  "notify_each f r s =
     (let observers = map entry_value (m_values r)
      in if observers = [] then s else call_each f observers s)"

definition notify_listener_event ::
    "('o \<Rightarrow> listener_event \<Rightarrow> 's \<Rightarrow> exception_ptr \<times> 's) \<Rightarrow>
     'o observer_registry \<Rightarrow> listener_event \<Rightarrow> 's \<Rightarrow> 's" where
  "notify_listener_event on_event r event = notify_each (\<lambda>value. on_event value event) r"

definition notify_server_event ::
    "('o \<Rightarrow> server_event \<Rightarrow> 's \<Rightarrow> exception_ptr \<times> 's) \<Rightarrow>
     'o observer_registry \<Rightarrow> server_event \<Rightarrow> 's \<Rightarrow> 's" where
  "notify_server_event on_server_event r event =
     notify_each (\<lambda>value. on_server_event value event) r"

text \<open>\<open>observer::on_server_event\<close> does nothing unless it is overridden.\<close>

definition default_on_server_event :: "'o \<Rightarrow> server_event \<Rightarrow> 's \<Rightarrow> exception_ptr \<times> 's" where
  "default_on_server_event value event s = (None, s)"

text \<open>An instrumented callback: it also records which observers were called, in order.\<close>

definition logged ::
    "('o \<Rightarrow> 's \<Rightarrow> exception_ptr \<times> 's) \<Rightarrow> 'o \<Rightarrow> 's \<times> 'o list \<Rightarrow> exception_ptr \<times> ('s \<times> 'o list)" where
  "logged f value sl = (case f value (fst sl) of (e, s') \<Rightarrow> (e, (s', snd sl @ [value])))"

text \<open>
  Subscriptions live at addresses.  A handle holds a weak pointer to the one registry of
  its server (true while it is not empty) and the identifier of its registration.
\<close>

record subscription =
  sub_registry :: bool
  sub_id :: u64

record 'o sub_world =
  sw_registry :: "'o observer_registry"
  sw_alive :: bool
  sw_subs :: "nat \<Rightarrow> subscription"

definition empty_subscription :: subscription where
  "empty_subscription = \<lparr> sub_registry = False, sub_id = 0 \<rparr>"

abbreviation set_sub :: "nat \<Rightarrow> subscription \<Rightarrow> 'o sub_world \<Rightarrow> 'o sub_world" where
  "set_sub a sub w \<equiv> w\<lparr> sw_subs := (sw_subs w)(a := sub) \<rparr>"

definition observe ::
    "nat \<Rightarrow> 'o option \<Rightarrow> 'o sub_world \<Rightarrow> string + 'o sub_world" where
  "observe a value w =
     (case value of
        None \<Rightarrow> Inl ''observer must not be null''
      | Some v \<Rightarrow>
          (case registry_add (sw_registry w) v of (ident, r) \<Rightarrow>
             Inr (set_sub a \<lparr> sub_registry = True, sub_id = ident \<rparr> (w\<lparr> sw_registry := r \<rparr>))))"

definition subscription_reset :: "nat \<Rightarrow> 'o sub_world \<Rightarrow> 'o sub_world" where
  "subscription_reset a w =
     (let sub = sw_subs w a; ident = sub_id sub
      in if ident = 0 then set_sub a (sub\<lparr> sub_id := 0 \<rparr>) w
         else let w1 = (if sub_registry sub \<and> sw_alive w
                        then w\<lparr> sw_registry := registry_remove (sw_registry w) ident \<rparr>
                        else w)
              in set_sub a empty_subscription w1)"

definition subscription_move_construct :: "nat \<Rightarrow> nat \<Rightarrow> 'o sub_world \<Rightarrow> 'o sub_world" where
  "subscription_move_construct a other w =
     w\<lparr> sw_subs := ((sw_subs w)(a := sw_subs w other))(other := empty_subscription) \<rparr>"

definition subscription_move_assign :: "nat \<Rightarrow> nat \<Rightarrow> 'o sub_world \<Rightarrow> 'o sub_world" where
  "subscription_move_assign a other w =
     (if a = other then w
      else let w1 = subscription_reset a w
           in w1\<lparr> sw_subs := ((sw_subs w1)(a := sw_subs w1 other))(other := empty_subscription) \<rparr>)"

definition subscription_destroy :: "nat \<Rightarrow> 'o sub_world \<Rightarrow> 'o sub_world" where
  "subscription_destroy a w = subscription_reset a w"

definition subscription_bool :: "nat \<Rightarrow> 'o sub_world \<Rightarrow> bool" where
  "subscription_bool a w \<longleftrightarrow> sub_id (sw_subs w a) \<noteq> 0"

definition registry_ids :: "'o observer_registry \<Rightarrow> u64 set" where
  "registry_ids r = entry_id ` set (m_values r)"

definition registry_inv :: "'o observer_registry \<Rightarrow> bool" where
  "registry_inv r \<longleftrightarrow>
     distinct (map entry_id (m_values r)) \<and>
     (\<forall>item \<in> set (m_values r). 0 < entry_id item \<and> entry_id item \<le> m_next_id r)"

definition registry_room :: "'o observer_registry \<Rightarrow> bool" where
  "registry_room r \<longleftrightarrow> m_next_id r \<noteq> - 1"

text \<open>
  The steps of a program that uses the handles: subscribing into an empty handle,
  resetting or destroying any handle, moving, and the destruction of the registry with its
  server.
\<close>

inductive sub_step :: "'o sub_world \<Rightarrow> 'o sub_world \<Rightarrow> bool" where
  sub_observe: "sw_alive w \<Longrightarrow> registry_room (sw_registry w) \<Longrightarrow> \<not> subscription_bool a w \<Longrightarrow>
     observe a v w = Inr w' \<Longrightarrow> sub_step w w'"
| sub_reset: "sub_step w (subscription_reset a w)"
| sub_destroy: "sub_step w (subscription_destroy a w)"
| sub_construct: "a \<noteq> other \<Longrightarrow> \<not> subscription_bool a w \<Longrightarrow>
     sub_step w (subscription_move_construct a other w)"
| sub_assign: "sub_step w (subscription_move_assign a other w)"
| sub_server_gone: "sub_step w (w\<lparr> sw_alive := False \<rparr>)"

definition sub_init :: "'o sub_world \<Rightarrow> bool" where
  "sub_init w \<longleftrightarrow> sw_registry w = new_registry \<and> sw_alive w \<and>
     sw_subs w = (\<lambda>_. empty_subscription)"

text \<open>Every registration is owned by exactly one handle, and every handle owns one.\<close>

definition sub_inv :: "'o sub_world \<Rightarrow> bool" where
  "sub_inv w \<longleftrightarrow>
     registry_inv (sw_registry w) \<and>
     (\<forall>a b. subscription_bool a w \<longrightarrow> sub_id (sw_subs w a) = sub_id (sw_subs w b) \<longrightarrow> a = b) \<and>
     (\<forall>a. subscription_bool a w \<longrightarrow> sub_registry (sw_subs w a)) \<and>
     (sw_alive w \<longrightarrow>
        registry_ids (sw_registry w) = {sub_id (sw_subs w a) | a. subscription_bool a w})"

locale registry_contract =
  fixes add :: "'r \<Rightarrow> 'o \<Rightarrow> u64 \<times> 'r"
    and remove :: "'r \<Rightarrow> u64 \<Rightarrow> 'r"
    and entries :: "'r \<Rightarrow> 'o entry list"
    and invar :: "'r \<Rightarrow> bool"
    and room :: "'r \<Rightarrow> bool"
  assumes add_entries:
      "add r v = (i, r') \<Longrightarrow> entries r' = entries r @ [\<lparr> entry_id = i, entry_value = v \<rparr>]"
    and add_fresh: "invar r \<Longrightarrow> room r \<Longrightarrow> add r v = (i, r') \<Longrightarrow>
      i \<noteq> 0 \<and> i \<notin> entry_id ` set (entries r)"
    and add_invar: "invar r \<Longrightarrow> room r \<Longrightarrow> add r v = (i, r') \<Longrightarrow> invar r'"
    and remove_entries: "entries (remove r i) = filter (\<lambda>e. entry_id e \<noteq> i) (entries r)"
    and remove_invar: "invar r \<Longrightarrow> invar (remove r i)"
begin

lemma remove_after_add:
  assumes "invar r" and "room r" and "add r v = (i, r')"
  shows "entries (remove r' i) = entries r"
proof -
  have "\<forall>e \<in> set (entries r). entry_id e \<noteq> i"
    using add_fresh [OF assms] by auto
  then have "filter (\<lambda>e. entry_id e \<noteq> i) (entries r) = entries r"
    by (simp add: filter_id_conv)
  then show ?thesis
    using add_entries [OF assms(3)] by (simp add: remove_entries)
qed

lemma remove_idem: "entries (remove (remove r i) i) = entries (remove r i)"
  by (simp add: remove_entries)

lemma remove_ids: "entry_id ` set (entries (remove r i)) = entry_id ` set (entries r) - {i}"
  by (auto simp: remove_entries)

lemma add_ids: "add r v = (i, r') \<Longrightarrow> entry_id ` set (entries r') = insert i (entry_id ` set (entries r))"
  by (simp add: add_entries)

end

lemma registry_next_id:
  assumes "registry_inv r" and "registry_room r"
  shows "0 < m_next_id r + 1" and "e \<in> set (m_values r) \<Longrightarrow> entry_id e < m_next_id r + 1"
proof -
  have *: "m_next_id r < m_next_id r + 1"
    using assms(2) unat_plus_one [of "m_next_id r"]
    by (simp add: registry_room_def word_less_nat_alt)
  then show "0 < m_next_id r + 1" by (metis word_neq_0_conv word_not_simps(1))
  show "entry_id e < m_next_id r + 1" if "e \<in> set (m_values r)"
    using that assms(1) * by (auto simp: registry_inv_def dest: le_less_trans)
qed

interpretation reg: registry_contract registry_add registry_remove m_values registry_inv registry_room
proof
  fix r r' :: "'o observer_registry" and v i
  show "registry_add r v = (i, r') \<Longrightarrow>
      m_values r' = m_values r @ [\<lparr> entry_id = i, entry_value = v \<rparr>]"
    by (auto simp: registry_add_def Let_def)
  assume inv: "registry_inv r"
  show "registry_inv (registry_remove r i)"
    using inv by (auto simp: registry_inv_def registry_remove_def distinct_map inj_on_def)
  assume room: "registry_room r" and add: "registry_add r v = (i, r')"
  note next_id = registry_next_id [OF inv room]
  have i: "i = m_next_id r + 1"
    and r': "m_values r' = m_values r @ [\<lparr> entry_id = i, entry_value = v \<rparr>]" "m_next_id r' = i"
    using add by (auto simp: registry_add_def Let_def)
  show fresh: "i \<noteq> 0 \<and> i \<notin> entry_id ` set (m_values r)"
    using next_id i by (metis imageE less_irrefl)
  show "registry_inv r'"
    using inv fresh next_id i r'
    by (auto simp: registry_inv_def word_neq_0_conv less_imp_le)
qed (simp add: registry_remove_def)

lemmas registry_ids_simps =
  reg.remove_ids [folded registry_ids_def] reg.add_ids [folded registry_ids_def]

lemma sub_invD:
  assumes "sub_inv w"
  shows "registry_inv (sw_registry w)"
    and "subscription_bool a w \<Longrightarrow> sub_id (sw_subs w a) = sub_id (sw_subs w b) \<Longrightarrow> a = b"
    and "subscription_bool a w \<Longrightarrow> sub_registry (sw_subs w a)"
    and "sw_alive w \<Longrightarrow> registry_ids (sw_registry w) = {sub_id (sw_subs w a) | a. subscription_bool a w}"
  using assms by (auto simp: sub_inv_def)

lemma sub_inv_observe:
  assumes inv: "sub_inv w" and "sw_alive w" and room: "registry_room (sw_registry w)"
    and free: "\<not> subscription_bool a w" and obs: "observe a v w = Inr w'"
  shows "sub_inv w'"
proof -
  obtain x i r where x: "v = Some x" and add: "registry_add (sw_registry w) x = (i, r)"
    and w': "w' = set_sub a \<lparr> sub_registry = True, sub_id = i \<rparr> (w\<lparr> sw_registry := r \<rparr>)"
    using obs by (auto simp: observe_def split: option.splits prod.splits)
  note regs = sub_invD(1) [OF inv]
  have fresh: "i \<noteq> 0" "i \<notin> registry_ids (sw_registry w)"
    using reg.add_fresh [OF regs room add] by (auto simp: registry_ids_def)
  have ids: "registry_ids r = insert i (registry_ids (sw_registry w))"
    by (rule registry_ids_simps(2) [OF add])
  have other: "sub_id (sw_subs w b) \<noteq> i" if "subscription_bool b w" for b
    using that fresh sub_invD(4) [OF inv \<open>sw_alive w\<close>] by auto
  have other': "sub_id (sw_subs w b) \<noteq> i" for b
    using other [of b] fresh(1) by (auto simp: subscription_bool_def)
  show ?thesis
    unfolding sub_inv_def
  proof (intro conjI allI impI)
    show "registry_inv (sw_registry w')"
      using reg.add_invar [OF regs room add] w' by simp
    fix b c
    assume "subscription_bool b w'"
    then show "sub_registry (sw_subs w' b)"
      using sub_invD(3) [OF inv, of b] w' by (auto simp: subscription_bool_def split: if_splits)
    assume "sub_id (sw_subs w' b) = sub_id (sw_subs w' c)"
    then show "b = c"
      using \<open>subscription_bool b w'\<close> other' [of b] other' [of c] sub_invD(2) [OF inv, of b c] w'
      by (auto simp: subscription_bool_def split: if_splits)
  next
    show "registry_ids (sw_registry w') = {sub_id (sw_subs w' b) | b. subscription_bool b w'}"
      using ids sub_invD(4) [OF inv \<open>sw_alive w\<close>] w' free fresh(1)
      by (auto simp: subscription_bool_def)
  qed
qed

text \<open>
  Resetting a handle frees exactly its own registration; the other handles and
  registrations are untouched.
\<close>

lemma subscription_reset_subs:
  "sw_subs (subscription_reset a w) b =
     (if a = b then (if sub_id (sw_subs w a) = 0 then sw_subs w a else empty_subscription)
      else sw_subs w b)"
  by (auto simp: subscription_reset_def Let_def)

lemma subscription_reset_registry:
  assumes "sub_inv w" and "sw_alive w"
  shows "registry_ids (sw_registry (subscription_reset a w)) =
           registry_ids (sw_registry w) - {sub_id (sw_subs w a)}"
proof (cases "subscription_bool a w")
  case True
  then show ?thesis
    using sub_invD(3) [OF assms(1) True] assms(2)
    by (simp add: subscription_reset_def Let_def subscription_bool_def registry_ids_simps(1))
next
  case False
  moreover have "0 \<notin> registry_ids (sw_registry w)"
    using sub_invD(1) [OF assms(1)] by (auto simp: registry_inv_def registry_ids_def)
  ultimately show ?thesis
    by (simp add: subscription_reset_def Let_def subscription_bool_def)
qed

lemma subscription_bool_reset:
  "subscription_bool b (subscription_reset a w) \<longleftrightarrow> subscription_bool b w \<and> b \<noteq> a"
  by (auto simp: subscription_bool_def subscription_reset_subs empty_subscription_def)

lemma sub_inv_reset:
  assumes inv: "sub_inv w"
  shows "sub_inv (subscription_reset a w)"
  unfolding sub_inv_def
proof (intro conjI allI impI)
  show "registry_inv (sw_registry (subscription_reset a w))"
    using sub_invD(1) [OF inv] by (auto simp: subscription_reset_def Let_def reg.remove_invar)
  fix b c
  assume b: "subscription_bool b (subscription_reset a w)"
  then have "subscription_bool b w" "b \<noteq> a"
    by (simp_all add: subscription_bool_reset)
  then show "sub_registry (sw_subs (subscription_reset a w) b)"
    using sub_invD(3) [OF inv] by (simp add: subscription_reset_subs)
  assume "sub_id (sw_subs (subscription_reset a w) b) = sub_id (sw_subs (subscription_reset a w) c)"
  then show "b = c"
    using \<open>subscription_bool b w\<close> \<open>b \<noteq> a\<close> sub_invD(2) [OF inv, of b c]
    by (auto simp: subscription_reset_subs subscription_bool_def empty_subscription_def
        split: if_splits)
next
  assume "sw_alive (subscription_reset a w)"
  then have alive: "sw_alive w" by (auto simp: subscription_reset_def Let_def split: if_splits)
  have "{sub_id (sw_subs w b) | b. subscription_bool b w} - {sub_id (sw_subs w a)} =
      {sub_id (sw_subs w b) | b. subscription_bool b w \<and> b \<noteq> a}"
    using sub_invD(2) [OF inv] by auto
  moreover have "{sub_id (sw_subs (subscription_reset a w) b) | b. subscription_bool b w \<and> b \<noteq> a} =
      {sub_id (sw_subs w b) | b. subscription_bool b w \<and> b \<noteq> a}"
    by (auto simp: subscription_reset_subs)
  ultimately show "registry_ids (sw_registry (subscription_reset a w)) =
      {sub_id (sw_subs (subscription_reset a w) b) | b. subscription_bool b (subscription_reset a w)}"
    using subscription_reset_registry [OF inv alive, of a] sub_invD(4) [OF inv alive]
    by (simp add: subscription_bool_reset)
qed

lemma sub_inv_transfer:
  assumes inv: "sub_inv w" and "a \<noteq> other" and free: "\<not> subscription_bool a w"
  shows "sub_inv (subscription_move_construct a other w)"
proof -
  let ?w = "subscription_move_construct a other w"
  have bool: "subscription_bool b ?w \<longleftrightarrow>
      (if b = a then subscription_bool other w else b \<noteq> other \<and> subscription_bool b w)" for b
    using assms(2) by (auto simp: subscription_bool_def subscription_move_construct_def
        empty_subscription_def)
  have sub: "sw_subs ?w b =
      (if b = other then empty_subscription else if b = a then sw_subs w other else sw_subs w b)" for b
    by (simp add: subscription_move_construct_def)
  have frame: "sw_registry ?w = sw_registry w" "sw_alive ?w = sw_alive w"
    by (simp_all add: subscription_move_construct_def)
  show ?thesis
    unfolding sub_inv_def frame
  proof (intro conjI allI impI)
    show "registry_inv (sw_registry w)" by (rule sub_invD(1) [OF inv])
    fix b c
    assume b: "subscription_bool b ?w"
    then show "sub_registry (sw_subs ?w b)"
      using sub_invD(3) [OF inv] assms(2) by (auto simp: bool sub split: if_splits)
    assume "sub_id (sw_subs ?w b) = sub_id (sw_subs ?w c)"
    then show "b = c"
      using b sub_invD(2) [OF inv] assms(2)
      by (auto simp: bool sub subscription_bool_def empty_subscription_def split: if_splits)
  next
    assume "sw_alive w"
    have "{sub_id (sw_subs ?w b) | b. subscription_bool b ?w} =
        {sub_id (sw_subs w b) | b. subscription_bool b w}"
      (is "?L = ?R")
    proof (intro equalityI subsetI)
      fix i assume "i \<in> ?L"
      then show "i \<in> ?R" using assms(2) by (auto simp: bool sub split: if_splits)
    next
      fix i assume "i \<in> ?R"
      then obtain b where b: "subscription_bool b w" "i = sub_id (sw_subs w b)" by auto
      then have "b \<noteq> a" using free by auto
      let ?b = "if b = other then a else b"
      have "subscription_bool ?b ?w \<and> i = sub_id (sw_subs ?w ?b)"
        using b \<open>b \<noteq> a\<close> assms(2) by (auto simp: bool sub)
      then show "i \<in> ?L" by blast
    qed
    then show "registry_ids (sw_registry w) = ?L"
      using sub_invD(4) [OF inv \<open>sw_alive w\<close>] by simp
  qed
qed

lemma sub_inv_assign:
  assumes "sub_inv w"
  shows "sub_inv (subscription_move_assign a other w)"
proof (cases "a = other")
  case False
  have "subscription_move_assign a other w =
      subscription_move_construct a other (subscription_reset a w)"
    using False by (simp add: subscription_move_assign_def subscription_move_construct_def Let_def)
  then show ?thesis
    using sub_inv_transfer [OF sub_inv_reset [OF assms] False] by (simp add: subscription_bool_reset)
qed (simp add: subscription_move_assign_def assms)

interpretation subs: inductive_invariant sub_init sub_step sub_inv
proof
  fix w w' :: "'o sub_world"
  show "sub_init w \<Longrightarrow> sub_inv w"
    by (auto simp: sub_init_def sub_inv_def new_registry_def registry_inv_def registry_ids_def
        subscription_bool_def empty_subscription_def)
  assume "sub_inv w" and "sub_step w w'"
  from this(2,1) show "sub_inv w'"
  proof cases
    case sub_server_gone
    then show ?thesis using \<open>sub_inv w\<close> by (simp add: sub_inv_def subscription_bool_def)
  qed (auto intro: sub_inv_observe sub_inv_reset sub_inv_transfer sub_inv_assign
        simp: subscription_destroy_def)
qed

lemma call_each_logged:
  "call_each (logged f) observers (s, log) = (call_each f observers s, log @ observers)"
  by (induction observers arbitrary: s log) (auto simp: logged_def split: prod.splits)


text \<open>
  C24: while the server is alive the non-empty handles and the registrations correspond one
  to one: no registration is left without a handle, no handle is left without its
  registration, and two handles never share one, after any sequence of subscribing,
  resetting, moving and destroying handles.
\<close>

theorem subscription_ownership:
  assumes "reachable sub_init sub_step w" and "sw_alive w"
  shows "bij_betw (\<lambda>a. sub_id (sw_subs w a)) {a. subscription_bool a w}
           (registry_ids (sw_registry w))
         \<and> distinct (map entry_id (m_values (sw_registry w)))"
proof -
  have inv: "sub_inv w" using assms(1) by (rule subs.holds)
  have "inj_on (\<lambda>a. sub_id (sw_subs w a)) {a. subscription_bool a w}"
    using sub_invD(2) [OF inv] by (auto intro: inj_onI)
  moreover have "(\<lambda>a. sub_id (sw_subs w a)) ` {a. subscription_bool a w} =
      registry_ids (sw_registry w)"
    using sub_invD(4) [OF inv assms(2)] by auto
  ultimately show ?thesis
    using sub_invD(1) [OF inv] by (simp add: bij_betw_def registry_inv_def)
qed

text \<open>
  Subscribing an observer and resetting the handle restores the registrations exactly,
  and a second reset changes nothing.
\<close>

lemma observe_reset_roundtrip:
  assumes "registry_inv (sw_registry w)" and "registry_room (sw_registry w)" and "sw_alive w"
    and "observe a (Some v) w = Inr w'"
  shows "m_values (sw_registry (subscription_reset a w')) = m_values (sw_registry w)
    \<and> subscription_reset a (subscription_reset a w') = subscription_reset a w'
    \<and> subscription_bool a w' \<and> \<not> subscription_bool a (subscription_reset a w')"
proof -
  obtain i r where add: "registry_add (sw_registry w) v = (i, r)"
    and w': "w' = set_sub a \<lparr> sub_registry = True, sub_id = i \<rparr> (w\<lparr> sw_registry := r \<rparr>)"
    using assms(4) by (auto simp: observe_def split: prod.splits)
  have i: "i \<noteq> 0" using reg.add_fresh [OF assms(1,2) add] by simp
  have "m_values (registry_remove r i) = m_values (sw_registry w)"
    by (rule reg.remove_after_add [OF assms(1,2) add])
  with i w' assms(3) show ?thesis
    by (simp add: subscription_reset_def Let_def subscription_bool_def empty_subscription_def)
qed

definition example_world :: "nat sub_world" where
  "example_world =
     \<lparr> sw_registry = new_registry, sw_alive = True, sw_subs = (\<lambda>_. empty_subscription) \<rparr>"

lemma example_world_observe:
  "observe 0 (Some v) example_world =
     Inr \<lparr> sw_registry = \<lparr> m_values = [\<lparr> entry_id = 1, entry_value = v \<rparr>], m_next_id = 1 \<rparr>,
           sw_alive = True,
           sw_subs = (\<lambda>_. empty_subscription)(0 := \<lparr> sub_registry = True, sub_id = 1 \<rparr>) \<rparr>"
  by (simp add: observe_def example_world_def registry_add_def new_registry_def Let_def)

theorem subscription_ownership_witness:
  "\<exists>w. observe 0 (Some 7) example_world = Inr w \<and>
     bij_betw (\<lambda>a. sub_id (sw_subs w a)) {a. subscription_bool a w}
       (registry_ids (sw_registry w))
     \<and> distinct (map entry_id (m_values (sw_registry w)))"
proof -
  obtain w where w: "observe 0 (Some 7) example_world = Inr w" and alive: "sw_alive w"
    by (simp add: example_world_observe)
  have init: "sub_init example_world"
    by (simp add: sub_init_def example_world_def)
  have step: "sub_step example_world w"
    by (rule sub_observe [OF _ _ _ w])
      (simp_all add: example_world_def registry_room_def new_registry_def subscription_bool_def
        empty_subscription_def)
  have "reachable sub_init sub_step w"
    by (rule reach_step [where s = example_world]) (simp_all add: reach_init init step)
  from subscription_ownership [OF this alive] w show ?thesis by blast
qed

lemma observe_reset_roundtrip_witness:
  "\<exists>w. observe 0 (Some 7) example_world = Inr w \<and>
     m_values (sw_registry (subscription_reset 0 w)) = [] \<and> subscription_bool 0 w"
proof -
  obtain w where w: "observe 0 (Some 7) example_world = Inr w"
    by (simp add: example_world_observe)
  have "m_values (sw_registry (subscription_reset 0 w)) = m_values (sw_registry example_world)
      \<and> subscription_bool 0 w"
    using observe_reset_roundtrip [OF _ _ _ w]
    by (simp add: example_world_def registry_inv_def registry_room_def new_registry_def)
  with w show ?thesis by (simp add: example_world_def new_registry_def)
qed

end
