(* ===== verification/Serveza_Completion.thy ===== *)
theory Serveza_Completion
  imports Serveza_Errors
begin

text \<open>
  Completion of asynchronous operations: \<open>track_completion_work\<close>, \<open>complete_on\<close> and
  \<open>complete_on_associated\<close> of \<^verbatim>\<open>src/src/listener.cpp\<close>.

  A completion handler is its target with what Asio associates with it: an executor, an
  allocator, a cancellation slot, and the executors on which it keeps outstanding work.  A
  posted function object is either the invocation of a handler or a dispatch of another
  function object to an executor.  Whether a dispatch from one executor to another may run
  inline is Asio's decision and a parameter (\<open>inl\<close>).
\<close>

record 'e completion_handler =
  h_target :: nat
  h_executor :: "'e option"
  h_allocator :: nat
  h_slot :: "nat option"
  h_work :: "'e list"

definition get_associated_executor :: "'e completion_handler \<Rightarrow> 'e \<Rightarrow> 'e" where
  "get_associated_executor handler fallback =
     (case h_executor handler of None \<Rightarrow> fallback | Some e \<Rightarrow> e)"

definition track_completion_work ::
    "'e \<Rightarrow> 'e completion_handler \<Rightarrow> 'e completion_handler" where
  "track_completion_work fallback handler =
     (let executor = get_associated_executor handler fallback
      in \<lparr> h_target = h_target handler,
           h_executor = Some executor,
           h_allocator = h_allocator handler,
           h_slot = h_slot handler,
           h_work = executor # h_work handler \<rparr>)"

datatype 'e function_object =
    invoke "'e completion_handler" error_code
  | dispatch 'e "'e function_object"

type_synonym 'e posted = "'e \<times> 'e function_object"

definition complete_on :: "'e \<Rightarrow> 'e completion_handler \<Rightarrow> error_code \<Rightarrow> 'e posted" where
  "complete_on fallback handler ec =
     (fallback, dispatch (get_associated_executor handler fallback) (invoke handler ec))"

text \<open>The first argument is \<open>boost::asio::system_executor\<close>.\<close>

definition complete_on_associated ::
    "'e \<Rightarrow> 'e completion_handler \<Rightarrow> error_code \<Rightarrow> 'e posted" where
  "complete_on_associated system_executor handler ec =
     (system_executor,
      dispatch (get_associated_executor handler system_executor) (invoke handler ec))"

text \<open>
  Executors run what is posted to them, each function object once.  A dispatch either
  continues inline or posts the rest to its executor.  The log records which target ran
  where and with which error.
\<close>

type_synonym 'e invocation = "'e \<times> nat \<times> error_code"

function run_posted :: "('e \<Rightarrow> 'e \<Rightarrow> bool) \<Rightarrow> 'e posted list \<Rightarrow> 'e invocation list" where
  "run_posted inl [] = []"
| "run_posted inl ((e, invoke h ec) # q) = (e, h_target h, ec) # run_posted inl q"
| "run_posted inl ((e, dispatch e' f) # q) =
     (if inl e e' then run_posted inl ((e', f) # q) else run_posted inl (q @ [(e', f)]))"
  by pat_completeness auto
termination
  by (relation "measure (\<lambda>(inl, q). sum_list (map (\<lambda>(e, f). Suc (size f)) q))") auto

text \<open>What a function object will invoke, and on which executor.\<close>

fun invocation_of :: "'e \<Rightarrow> 'e function_object \<Rightarrow> 'e invocation" where
  "invocation_of e (invoke h ec) = (e, h_target h, ec)"
| "invocation_of e (dispatch e' f) = invocation_of e' f"

lemma run_posted_mset:
  "mset (run_posted inl q) = mset (map (\<lambda>(e, f). invocation_of e f) q)"
  by (induction inl q rule: run_posted.induct) auto

text \<open>
  A completion is delivered exactly once and never inline.  \<open>complete_on\<close> only posts;
  once the executors have run everything posted, whatever else is queued and however
  dispatches are inlined, the handler has been invoked one more time than without the call,
  with the given error and on its associated executor, the fallback being used only when it
  has none.
\<close>

lemma complete_on_exactly_once:
  "mset (run_posted inl (q1 @ complete_on fallback h ec # q2)) =
     add_mset (get_associated_executor h fallback, h_target h, ec)
       (mset (run_posted inl (q1 @ q2)))"
  by (simp add: run_posted_mset complete_on_def)

text \<open>
  Once an operation has tracked its handler, the handler completes on the executor it
  had (or on the operation's executor) whichever executor the completion is posted to
  later, the failure path through the system executor included, and outstanding work is
  held on that executor meanwhile.
\<close>

lemma tracked_handler_executor:
  "invocation_of other (snd (complete_on any (track_completion_work fallback h) ec))
           = (get_associated_executor h fallback, h_target h, ec)
       \<and> invocation_of other (snd (complete_on_associated sys (track_completion_work fallback h) ec))
           = (get_associated_executor h fallback, h_target h, ec)
       \<and> get_associated_executor h fallback \<in> set (h_work (track_completion_work fallback h))
       \<and> h_slot (track_completion_work fallback h) = h_slot h
       \<and> h_allocator (track_completion_work fallback h) = h_allocator h"
  by (simp add: complete_on_def complete_on_associated_def track_completion_work_def
      get_associated_executor_def Let_def)

end
