(* ===== verification/Serveza_Echo_Stream.thy ===== *)
theory Serveza_Echo_Stream
  imports Serveza_Endpoint Serveza_Status
begin

text \<open>
  The stream sessions of the example programs: \<open>CallbackEchoConnection\<close>, \<open>YieldEcho\<close>,
  \<open>AwaitableEcho\<close>, \<open>StreamEchoOperation\<close> and \<open>TlsEchoConnection\<close> of
  \<^verbatim>\<open>src/examples/*/src/main.cpp\<close>.

  A session has at most one asynchronous operation outstanding; \<open>se_pending\<close> names it.  When
  it completes, Asio has moved bytes between the peer and the session's buffer (\<open>transfer\<close>)
  and calls the lambda the session passed.  \<open>se_sent\<close> and \<open>se_received\<close> are all bytes the
  peer has got and given; \<open>se_results\<close> are the calls of the completion handler of the
  session, and \<open>se_log\<close> the lines it printed.  \<open>message\<close> is \<open>error_code::message\<close>.
\<close>

record io =
  io_ec :: error_code
  io_data :: string          \<comment> \<open>what a read delivered\<close>
  io_size :: nat             \<comment> \<open>how many bytes a write moved\<close>

datatype stream_op = Handshaking | Writing_greeting | Reading | Writing nat | Shutting_down

record stream_echo =
  se_info :: connection_info
  se_buffer :: string
  se_pending :: "stream_op option"
  se_results :: "error_code list"
  se_log :: "string list"
  se_sent :: string
  se_received :: string

fun transfer :: "string \<Rightarrow> stream_op \<Rightarrow> io \<Rightarrow> 'z stream_echo_scheme \<Rightarrow> 'z stream_echo_scheme" where
  "transfer greeting Writing_greeting io s = s\<lparr> se_sent := se_sent s @ take (io_size io) greeting \<rparr>"
| "transfer greeting (Writing n) io s =
     s\<lparr> se_sent := se_sent s @ take (io_size io) (take n (se_buffer s)) \<rparr>"
| "transfer greeting Reading io s =
     s\<lparr> se_received := se_received s @ io_data io,
        se_buffer := io_data io @ drop (length (io_data io)) (se_buffer s) \<rparr>"
| "transfer greeting _ io s = s"

text \<open>
  What Asio documents: \<open>async_write\<close> succeeds only with all bytes written, \<open>async_read_some\<close>
  delivers at most as many bytes as the buffer holds and none on an error.
\<close>

fun io_ok :: "string \<Rightarrow> stream_op \<Rightarrow> io \<Rightarrow> bool" where
  "io_ok greeting Writing_greeting io \<longleftrightarrow>
     io_size io \<le> length greeting \<and> (failed (io_ec io) \<or> io_size io = length greeting)"
| "io_ok greeting (Writing n) io \<longleftrightarrow> io_size io \<le> n \<and> (failed (io_ec io) \<or> io_size io = n)"
| "io_ok greeting Reading io \<longleftrightarrow>
     length (io_data io) \<le> 4096 \<and> (failed (io_ec io) \<longrightarrow> io_data io = [])"
| "io_ok greeting _ io \<longleftrightarrow> True"

definition io_enabled :: "string \<Rightarrow> io \<Rightarrow> 'z stream_echo_scheme \<Rightarrow> bool" where
  "io_enabled greeting io s =
     (case se_pending s of None \<Rightarrow> False | Some op \<Rightarrow> io_ok greeting op io)"

definition echo_step ::
    "string \<Rightarrow> (stream_op \<Rightarrow> io \<Rightarrow> 'z stream_echo_scheme \<Rightarrow> 'z stream_echo_scheme) \<Rightarrow>
     io \<Rightarrow> 'z stream_echo_scheme \<Rightarrow> 'z stream_echo_scheme" where
  "echo_step greeting handler io s =
     (case se_pending s of
        None \<Rightarrow> s
      | Some op \<Rightarrow> handler op io (transfer greeting op io (s\<lparr> se_pending := None \<rparr>)))"

definition await :: "stream_op \<Rightarrow> 'z stream_echo_scheme \<Rightarrow> 'z stream_echo_scheme" where
  "await op s = s\<lparr> se_pending := Some op \<rparr>"

definition print_line :: "string \<Rightarrow> 'z stream_echo_scheme \<Rightarrow> 'z stream_echo_scheme" where
  "print_line line s = s\<lparr> se_log := se_log s @ [line] \<rparr>"

definition call_handler :: "error_code \<Rightarrow> 'z stream_echo_scheme \<Rightarrow> 'z stream_echo_scheme" where
  "call_handler ec s = s\<lparr> se_results := se_results s @ [ec] \<rparr>"

lemmas stream_defs = await_def print_line_def call_handler_def

definition remote_suffix :: "connection_info \<Rightarrow> string" where
  "remote_suffix info =
     (if ci_remote_endpoint info \<noteq> [] then '' ('' @ ci_remote_endpoint info @ '')'' else [])"

definition client_line :: "string \<Rightarrow> connection_info \<Rightarrow> string" where
  "client_line action info =
     ''Client '' @ nat_to_string (unat (ci_id info)) @ '' '' @ action @ remote_suffix info"

definition echo_greeting :: string where
  "echo_greeting = ''Hello! I'm an echo server.'' @ [CHR 0x0A]"

definition fresh_stream_echo :: "connection_info \<Rightarrow> stream_echo" where
  "fresh_stream_echo info =
     \<lparr> se_info = info, se_buffer = replicate 4096 (CHR 0x00), se_pending = None, se_results = [],
       se_log = [], se_sent = [], se_received = [] \<rparr>"

subsection \<open>\<open>CallbackEcho\<close>\<close>

definition callback_log_connection :: "string \<Rightarrow> connection_info \<Rightarrow> string" where
  "callback_log_connection action info = client_line action info"

definition callback_write_greeting :: "stream_echo \<Rightarrow> stream_echo" where
  "callback_write_greeting s = await Writing_greeting s"

definition callback_read :: "stream_echo \<Rightarrow> stream_echo" where
  "callback_read s = await Reading s"

definition callback_write :: "nat \<Rightarrow> stream_echo \<Rightarrow> stream_echo" where
  "callback_write n s = await (Writing n) s"

definition callback_complete :: "(error_code \<Rightarrow> string) \<Rightarrow> error_code \<Rightarrow> stream_echo \<Rightarrow> stream_echo" where
  "callback_complete message ec s =
     call_handler no_error
       (print_line (client_line ''disconnected'' (se_info s) @
          (if ec \<noteq> eof \<and> ec \<noteq> connection_reset \<and> ec \<noteq> operation_aborted
           then '': '' @ message ec else [])) s)"

definition callback_run :: "stream_echo \<Rightarrow> stream_echo" where
  "callback_run s =
     callback_write_greeting (print_line (callback_log_connection ''connected'' (se_info s)) s)"

text \<open>The lambdas passed to the three operations.\<close>

fun callback_done ::
    "(error_code \<Rightarrow> string) \<Rightarrow> stream_op \<Rightarrow> io \<Rightarrow> stream_echo \<Rightarrow> stream_echo" where
  "callback_done message Writing_greeting io s =
     (if failed (io_ec io) then callback_complete message (io_ec io) s else callback_read s)"
| "callback_done message Reading io s =
     (if failed (io_ec io) then callback_complete message (io_ec io) s
      else callback_write (length (io_data io)) s)"
| "callback_done message (Writing n) io s =
     (if failed (io_ec io) then callback_complete message (io_ec io) s else callback_read s)"
| "callback_done message _ io s = s"

definition callback_echo :: "connection_info \<Rightarrow> stream_echo" where
  "callback_echo info = callback_run (fresh_stream_echo info)"

definition callback_step :: "(error_code \<Rightarrow> string) \<Rightarrow> io \<Rightarrow> stream_echo \<Rightarrow> stream_echo" where
  "callback_step message = echo_step echo_greeting (callback_done message)"

subsection \<open>\<open>YieldEcho\<close> and \<open>AwaitableEcho\<close>\<close>

text \<open>
  The two coroutines, run on the results of their successive operations.  When the results
  run out, the coroutine is suspended on the operation in \<open>se_pending\<close>; results after its
  end are never asked for.  A coroutine that returns completes its session without error.
\<close>

definition log_connection ::
    "(error_code \<Rightarrow> string) \<Rightarrow> string \<Rightarrow> connection_info \<Rightarrow> error_code \<Rightarrow> string" where
  "log_connection message action info ec =
     client_line action info @
     (if failed ec \<and> ec \<noteq> eof \<and> ec \<noteq> connection_reset \<and> ec \<noteq> operation_aborted
      then '': '' @ message ec else [])"

definition coroutine_return ::
    "(error_code \<Rightarrow> string) \<Rightarrow> error_code \<Rightarrow> stream_echo \<Rightarrow> stream_echo" where
  "coroutine_return message ec s =
     call_handler no_error (print_line (log_connection message ''disconnected'' (se_info s) ec) s)"

fun yield_echo_loop ::
    "(error_code \<Rightarrow> string) \<Rightarrow> error_code \<Rightarrow> io list \<Rightarrow> stream_echo \<Rightarrow> stream_echo" where
  "yield_echo_loop message ec [] s =
     (if failed ec then coroutine_return message ec s else await Reading s)"
| "yield_echo_loop message ec [io] s =
     (if failed ec then coroutine_return message ec s
      else let s = transfer echo_greeting Reading io s
           in if failed (io_ec io) then coroutine_return message (io_ec io) s
              else await (Writing (length (io_data io))) s)"
| "yield_echo_loop message ec (io # io' # ios) s =
     (if failed ec then coroutine_return message ec s
      else let s = transfer echo_greeting Reading io s
           in if failed (io_ec io) then coroutine_return message (io_ec io) s
              else let s = transfer echo_greeting (Writing (length (io_data io))) io' s
                   in if failed (io_ec io') then coroutine_return message (io_ec io') s
                      else yield_echo_loop message (io_ec io') ios s)"

fun yield_echo :: "(error_code \<Rightarrow> string) \<Rightarrow> connection_info \<Rightarrow> io list \<Rightarrow> stream_echo" where
  "yield_echo message info [] =
     await Writing_greeting
       (print_line (log_connection message ''connected'' info no_error) (fresh_stream_echo info))"
| "yield_echo message info (io # ios) =
     yield_echo_loop message (io_ec io) ios
       (transfer echo_greeting Writing_greeting io
          (print_line (log_connection message ''connected'' info no_error) (fresh_stream_echo info)))"

text \<open>\<open>AwaitableEcho\<close> has the same statements with \<open>co_await\<close>.\<close>

fun awaitable_echo_loop ::
    "(error_code \<Rightarrow> string) \<Rightarrow> error_code \<Rightarrow> io list \<Rightarrow> stream_echo \<Rightarrow> stream_echo" where
  "awaitable_echo_loop message ec [] s =
     (if failed ec then coroutine_return message ec s else await Reading s)"
| "awaitable_echo_loop message ec [io] s =
     (if failed ec then coroutine_return message ec s
      else let s = transfer echo_greeting Reading io s
           in if failed (io_ec io) then coroutine_return message (io_ec io) s
              else await (Writing (length (io_data io))) s)"
| "awaitable_echo_loop message ec (io # io' # ios) s =
     (if failed ec then coroutine_return message ec s
      else let s = transfer echo_greeting Reading io s
           in if failed (io_ec io) then coroutine_return message (io_ec io) s
              else let s = transfer echo_greeting (Writing (length (io_data io))) io' s
                   in if failed (io_ec io') then coroutine_return message (io_ec io') s
                      else awaitable_echo_loop message (io_ec io') ios s)"

fun awaitable_echo :: "(error_code \<Rightarrow> string) \<Rightarrow> connection_info \<Rightarrow> io list \<Rightarrow> stream_echo" where
  "awaitable_echo message info [] =
     await Writing_greeting
       (print_line (log_connection message ''connected'' info no_error) (fresh_stream_echo info))"
| "awaitable_echo message info (io # ios) =
     awaitable_echo_loop message (io_ec io) ios
       (transfer echo_greeting Writing_greeting io
          (print_line (log_connection message ''connected'' info no_error) (fresh_stream_echo info)))"

subsection \<open>The three sessions are one\<close>

lemma echo_step_idle [simp]: "se_pending s = None \<Longrightarrow> fold (echo_step greeting h) ios s = s"
  by (induction ios) (simp_all add: echo_step_def)

lemma transfer_fields [simp]:
  "se_pending (transfer greeting op io s) = se_pending s"
  "se_info (transfer greeting op io s) = se_info s"
  "se_results (transfer greeting op io s) = se_results s"
  "se_log (transfer greeting op io s) = se_log s"
  by (cases op; simp)+

lemma await_fields [simp]:
  "se_pending (await op s) = Some op" "(await op s)\<lparr> se_pending := p \<rparr> = s\<lparr> se_pending := p \<rparr>"
  "se_info (await op s) = se_info s" "se_results (await op s) = se_results s"
  "se_sent (await op s) = se_sent s" "se_received (await op s) = se_received s"
  "se_buffer (await op s) = se_buffer s"
  by (simp_all add: await_def)

lemma pending_None_update [simp]: "se_pending s = None \<Longrightarrow> s\<lparr> se_pending := None \<rparr> = s"
  by (cases s) simp

lemma callback_complete_is_return:
  "failed ec \<Longrightarrow> callback_complete message ec s = coroutine_return message ec s"
  by (auto simp: callback_complete_def coroutine_return_def log_connection_def)

lemma coroutine_return_pending [simp]:
  "se_pending (coroutine_return message ec s) = se_pending s"
  by (simp add: coroutine_return_def stream_defs)

lemma callback_steps [simp]:
  "callback_step message io (await op s) =
     callback_done message op io (transfer echo_greeting op io (s\<lparr> se_pending := None \<rparr>))"
  "se_pending s = None \<Longrightarrow> callback_step message io s = s"
  "se_pending s = None \<Longrightarrow> fold (callback_step message) ios s = s"
  by (simp_all add: callback_step_def echo_step_def)

lemma callback_loop:
  "se_pending s = None \<Longrightarrow> \<not> failed ec \<Longrightarrow>
     fold (callback_step message) ios (await Reading s) = yield_echo_loop message ec ios s"
proof (induction message ec ios s rule: yield_echo_loop.induct)
  case (3 message ec io io' ios s)
  then show ?case
    by (simp add: callback_complete_is_return callback_read_def callback_write_def Let_def)
qed (simp_all add: callback_complete_is_return callback_read_def callback_write_def Let_def)

lemma awaitable_loop: "awaitable_echo_loop message ec ios s = yield_echo_loop message ec ios s"
  by (induction message ec ios s rule: yield_echo_loop.induct) (simp_all add: Let_def)

lemma client_log: "log_connection message action info no_error = callback_log_connection action info"
  by (simp add: log_connection_def callback_log_connection_def)


subsection \<open>\<open>StreamEchoOperation\<close> of \<open>LocalEcho\<close>\<close>

definition local_greeting :: string where
  "local_greeting = ''Hello! I'm a local echo server.'' @ [CHR 0x0A]"

definition local_client :: "connection_info \<Rightarrow> string" where
  "local_client info = ''Local stream client '' @ nat_to_string (unat (ci_id info))"

definition local_read :: "stream_echo \<Rightarrow> stream_echo" where
  "local_read s = await Reading s"

definition local_write :: "nat \<Rightarrow> stream_echo \<Rightarrow> stream_echo" where
  "local_write n s = await (Writing n) s"

definition local_finish :: "(error_code \<Rightarrow> string) \<Rightarrow> error_code \<Rightarrow> stream_echo \<Rightarrow> stream_echo" where
  "local_finish message ec s =
     call_handler no_error
       (print_line (local_client (se_info s) @ '' disconnected'' @
          (if ec \<noteq> eof \<and> ec \<noteq> operation_aborted then '': '' @ message ec else [])) s)"

definition local_run :: "stream_echo \<Rightarrow> stream_echo" where
  "local_run s = await Writing_greeting (print_line (local_client (se_info s) @ '' connected'') s)"

fun local_done :: "(error_code \<Rightarrow> string) \<Rightarrow> stream_op \<Rightarrow> io \<Rightarrow> stream_echo \<Rightarrow> stream_echo" where
  "local_done message Writing_greeting io s =
     (if failed (io_ec io) then local_finish message (io_ec io) s else local_read s)"
| "local_done message Reading io s =
     (if failed (io_ec io) then local_finish message (io_ec io) s
      else local_write (length (io_data io)) s)"
| "local_done message (Writing n) io s =
     (if failed (io_ec io) then local_finish message (io_ec io) s else local_read s)"
| "local_done message _ io s = s"

definition local_echo :: "connection_info \<Rightarrow> stream_echo" where
  "local_echo info = local_run (fresh_stream_echo info)"

subsection \<open>\<open>TlsEchoConnection\<close>\<close>

record tls_echo = stream_echo +
  tls_finished :: bool

definition tls_greeting :: string where
  "tls_greeting = ''Hello! I'm a TLS echo server.'' @ [CHR 0x0A]"

definition tls_client :: "connection_info \<Rightarrow> string" where
  "tls_client info = ''TLS client '' @ nat_to_string (unat (ci_id info))"

definition tls_write_greeting :: "tls_echo \<Rightarrow> tls_echo" where
  "tls_write_greeting s = await Writing_greeting s"

definition tls_read :: "tls_echo \<Rightarrow> tls_echo" where
  "tls_read s = await Reading s"

definition tls_write :: "nat \<Rightarrow> tls_echo \<Rightarrow> tls_echo" where
  "tls_write n s = await (Writing n) s"

definition tls_shutdown :: "tls_echo \<Rightarrow> tls_echo" where
  "tls_shutdown s = await Shutting_down s"

definition tls_complete :: "(error_code \<Rightarrow> string) \<Rightarrow> error_code \<Rightarrow> tls_echo \<Rightarrow> tls_echo" where
  "tls_complete message ec s =
     (if tls_finished s then s
      else let s = s\<lparr> tls_finished := True \<rparr>;
               s = print_line (tls_client (se_info s) @ '' disconnected'' @
                     (if failed ec \<and> ec \<noteq> operation_aborted \<and> ec \<noteq> stream_truncated
                      then '': '' @ message ec else [])) s
           in call_handler (if ec = operation_aborted \<or> ec = stream_truncated then no_error else ec) s)"

definition tls_run :: "tls_echo \<Rightarrow> tls_echo" where
  "tls_run s =
     await Handshaking
       (print_line (tls_client (se_info s) @ '' connected ('' @ ci_remote_endpoint (se_info s) @ '')'') s)"

fun tls_done :: "(error_code \<Rightarrow> string) \<Rightarrow> stream_op \<Rightarrow> io \<Rightarrow> tls_echo \<Rightarrow> tls_echo" where
  "tls_done message Handshaking io s =
     (if failed (io_ec io) then tls_complete message (io_ec io) s else tls_write_greeting s)"
| "tls_done message Writing_greeting io s =
     (if failed (io_ec io) then tls_complete message (io_ec io) s else tls_read s)"
| "tls_done message Reading io s =
     (if io_ec io = eof then tls_shutdown s
      else if failed (io_ec io) then tls_complete message (io_ec io) s
      else tls_write (length (io_data io)) s)"
| "tls_done message (Writing n) io s =
     (if failed (io_ec io) then tls_complete message (io_ec io) s else tls_read s)"
| "tls_done message Shutting_down io s = tls_complete message no_error s"

definition tls_session :: "connection_info \<Rightarrow> tls_echo" where
  "tls_session info =
     tls_run (stream_echo.extend (fresh_stream_echo info) \<lparr> tls_finished = False \<rparr>)"

subsection \<open>The bytes are echoed\<close>

definition echo_inv :: "string \<Rightarrow> 'z stream_echo_scheme \<Rightarrow> bool" where
  "echo_inv greeting s \<longleftrightarrow>
     length (se_buffer s) = 4096 \<and>
     (case se_pending s of
        None \<Rightarrow> length (se_results s) = 1 \<and> (\<exists>rest. se_sent s @ rest = greeting @ se_received s)
      | Some op \<Rightarrow> se_results s = [] \<and>
          (case op of
             Handshaking \<Rightarrow> se_sent s = [] \<and> se_received s = []
           | Writing_greeting \<Rightarrow> se_sent s = [] \<and> se_received s = []
           | Writing n \<Rightarrow> n \<le> 4096 \<and> se_sent s @ take n (se_buffer s) = greeting @ se_received s
           | _ \<Rightarrow> se_sent s = greeting @ se_received s))"

lemma take_of_written:
  assumes "sent @ bytes = greeting @ received" and "n \<le> length bytes"
  shows "\<exists>rest. (sent @ take n bytes) @ rest = greeting @ received"
    and "n = length bytes \<Longrightarrow> sent @ take n bytes = greeting @ received"
  using assms by (auto intro!: exI [of _ "drop n bytes"])

text \<open>
  The interface of an echo session: which operation its completion lambdas start next, if
  they do not complete the session.  \<open>ready\<close> is what the class promises of its own members
  while an operation is outstanding.
\<close>

fun follows :: "stream_op \<Rightarrow> io \<Rightarrow> stream_op \<Rightarrow> bool" where
  "follows Handshaking io op \<longleftrightarrow> \<not> failed (io_ec io) \<and> op = Writing_greeting"
| "follows Reading io op \<longleftrightarrow>
     (if failed (io_ec io) then op = Shutting_down else op = Writing (length (io_data io)))"
| "follows Shutting_down io op \<longleftrightarrow> False"
| "follows _ io op \<longleftrightarrow> \<not> failed (io_ec io) \<and> op = Reading"

locale echo_session =
  fixes greeting :: string
    and handler :: "stream_op \<Rightarrow> io \<Rightarrow> 'z stream_echo_scheme \<Rightarrow> 'z stream_echo_scheme"
    and ready :: "'z stream_echo_scheme \<Rightarrow> bool"
    and operations :: "stream_op set"
    and outcome :: "error_code \<Rightarrow> bool"
  assumes transferred: "ready s \<Longrightarrow> ready (transfer greeting op io (s\<lparr> se_pending := None \<rparr>))"
    and moves_nothing: "se_sent (handler op io s) = se_sent s" "se_received (handler op io s) = se_received s"
      "se_buffer (handler op io s) = se_buffer s"
    and continues: "ready s \<Longrightarrow> se_pending s = None \<Longrightarrow> se_results s = [] \<Longrightarrow> op \<in> operations \<Longrightarrow>
      (\<exists>op'. follows op io op' \<and> op' \<in> operations \<and> se_pending (handler op io s) = Some op' \<and>
         se_results (handler op io s) = [] \<and> ready (handler op io s)) \<or>
      (\<exists>ec. se_pending (handler op io s) = None \<and> se_results (handler op io s) = [ec] \<and> outcome ec)"
begin

definition session_inv :: "'z stream_echo_scheme \<Rightarrow> bool" where
  "session_inv s \<longleftrightarrow>
     echo_inv greeting s \<and>
     (case se_pending s of
        None \<Rightarrow> \<exists>ec. se_results s = [ec] \<and> outcome ec
      | Some op \<Rightarrow> ready s \<and> op \<in> operations)"

lemma step_inv:
  assumes inv: "session_inv s" and io: "io_enabled greeting io s"
  shows "session_inv (echo_step greeting handler io s)"
proof -
  obtain op where op: "se_pending s = Some op" "io_ok greeting op io"
    using io by (auto simp: io_enabled_def split: option.splits)
  let ?s = "transfer greeting op io (s\<lparr> se_pending := None \<rparr>)"
  let ?s' = "handler op io ?s"
  have step: "echo_step greeting handler io s = ?s'" using op by (simp add: echo_step_def)
  have bytes: "se_sent ?s' = se_sent ?s" "se_received ?s' = se_received ?s" "se_buffer ?s' = se_buffer ?s"
    by (rule moves_nothing)+
  have e: "echo_inv greeting s" and res: "se_results s = []"
    using inv op(1) by (simp_all add: session_inv_def echo_inv_def)
  have buf: "length (se_buffer ?s) = 4096"
    using e op(2) by (cases op) (auto simp: echo_inv_def)
  have pre: "\<exists>rest. se_sent ?s @ rest = greeting @ se_received ?s"
  proof (cases op)
    case (Writing n)
    with e op take_of_written(1) [of "se_sent s" "take n (se_buffer s)" greeting "se_received s" "io_size io"]
    show ?thesis by (simp add: echo_inv_def)
  next
    case Writing_greeting
    with e op take_of_written(1) [of "[]" greeting greeting "[]" "io_size io"]
    show ?thesis by (simp add: echo_inv_def)
  qed (use e op in \<open>auto simp: echo_inv_def\<close>)
  have "\<exists>ec. se_pending ?s' = None \<and> se_results ?s' = [ec] \<and> outcome ec \<or>
      (\<exists>op'. follows op io op' \<and> op' \<in> operations \<and> se_pending ?s' = Some op' \<and> se_results ?s' = [] \<and> ready ?s')"
    using continues [of ?s op io] inv op(1) res transferred [of s op io] by (auto simp: session_inv_def)
  then show ?thesis
  proof (elim exE disjE conjE)
    fix ec assume "se_pending ?s' = None" "se_results ?s' = [ec]" "outcome ec"
    then show ?thesis unfolding step session_inv_def echo_inv_def using pre buf by (simp add: bytes)
  next
    fix op' assume next_op: "follows op io op'" "op' \<in> operations" "se_pending ?s' = Some op'"
      "se_results ?s' = []" "ready ?s'"
    have "case op' of Handshaking \<Rightarrow> se_sent ?s = [] \<and> se_received ?s = []
        | Writing_greeting \<Rightarrow> se_sent ?s = [] \<and> se_received ?s = []
        | Writing n \<Rightarrow> n \<le> 4096 \<and> se_sent ?s @ take n (se_buffer ?s) = greeting @ se_received ?s
        | _ \<Rightarrow> se_sent ?s = greeting @ se_received ?s"
      using next_op(1) e op by (cases op) (auto simp: echo_inv_def split: if_splits)
    with next_op buf show ?thesis
      unfolding step session_inv_def echo_inv_def by (cases op') (simp_all add: bytes)
  qed
qed

lemma run_inv:
  "run_script (io_enabled greeting) (echo_step greeting handler) ios s = Some s' \<Longrightarrow>
     session_inv s \<Longrightarrow> session_inv s'"
  using run_script_inv [where P = session_inv] step_inv by blast

lemma echoes:
  assumes "session_inv s"
  shows "(\<exists>rest. se_sent s @ rest = greeting @ se_received s)
    \<and> (se_pending s = Some Reading \<longrightarrow> se_sent s = greeting @ se_received s)
    \<and> (case se_pending s of
         None \<Rightarrow> \<exists>ec. se_results s = [ec] \<and> outcome ec
       | Some op \<Rightarrow> se_results s = [])"
  using assms unfolding session_inv_def echo_inv_def
  by (auto split: option.splits stream_op.splits intro: exI [of _ "[]"])

end

lemma echo_fields [simp]:
  "se_sent (print_line line s) = se_sent s" "se_received (print_line line s) = se_received s"
  "se_buffer (print_line line s) = se_buffer s" "se_pending (print_line line s) = se_pending s"
  "se_results (print_line line s) = se_results s"
  "se_sent (call_handler ec s) = se_sent s" "se_received (call_handler ec s) = se_received s"
  "se_buffer (call_handler ec s) = se_buffer s" "se_pending (call_handler ec s) = se_pending s"
  "se_results (call_handler ec s) = se_results s @ [ec]"
  by (simp_all add: stream_defs)

lemmas callback_defs = callback_complete_def callback_read_def callback_write_def
lemmas local_defs = local_finish_def local_read_def local_write_def
lemmas tls_defs = tls_complete_def tls_read_def tls_write_def tls_write_greeting_def tls_shutdown_def Let_def

interpretation callback: echo_session echo_greeting "callback_done message" "\<lambda>_. True"
  "- {Handshaking, Shutting_down}" "\<lambda>ec. ec = no_error" for message
proof
  fix op io and s :: stream_echo
  show "se_sent (callback_done message op io s) = se_sent s"
    "se_received (callback_done message op io s) = se_received s"
    "se_buffer (callback_done message op io s) = se_buffer s"
    by (cases op; simp add: callback_defs)+
  show "(\<exists>op'. follows op io op' \<and> op' \<in> - {Handshaking, Shutting_down} \<and>
        se_pending (callback_done message op io s) = Some op' \<and> se_results (callback_done message op io s) = [] \<and> True) \<or>
      (\<exists>ec. se_pending (callback_done message op io s) = None \<and>
        se_results (callback_done message op io s) = [ec] \<and> ec = no_error)"
    if "se_pending s = None" "se_results s = []" "op \<in> - {Handshaking, Shutting_down}"
    using that by (cases op) (auto simp: callback_defs)
qed simp

interpretation local_stream: echo_session local_greeting "local_done message" "\<lambda>_. True"
  "- {Handshaking, Shutting_down}" "\<lambda>ec. ec = no_error" for message
proof
  fix op io and s :: stream_echo
  show "se_sent (local_done message op io s) = se_sent s"
    "se_received (local_done message op io s) = se_received s"
    "se_buffer (local_done message op io s) = se_buffer s"
    by (cases op; simp add: local_defs)+
  show "(\<exists>op'. follows op io op' \<and> op' \<in> - {Handshaking, Shutting_down} \<and>
        se_pending (local_done message op io s) = Some op' \<and> se_results (local_done message op io s) = [] \<and> True) \<or>
      (\<exists>ec. se_pending (local_done message op io s) = None \<and>
        se_results (local_done message op io s) = [ec] \<and> ec = no_error)"
    if "se_pending s = None" "se_results s = []" "op \<in> - {Handshaking, Shutting_down}"
    using that by (cases op) (auto simp: local_defs)
qed simp

lemma tls_fields [simp]:
  "tls_finished (transfer greeting op io s) = tls_finished s"
  "tls_finished (await op s) = tls_finished s"
  by (cases op; simp add: await_def)+

interpretation tls: echo_session tls_greeting "tls_done message" "\<lambda>s. \<not> tls_finished s"
  UNIV "\<lambda>ec. ec \<noteq> operation_aborted \<and> ec \<noteq> stream_truncated" for message
proof
  fix op io and s :: tls_echo
  show "se_sent (tls_done message op io s) = se_sent s"
    "se_received (tls_done message op io s) = se_received s"
    "se_buffer (tls_done message op io s) = se_buffer s"
    by (cases op; simp add: tls_defs)+
  show "(\<exists>op'. follows op io op' \<and> op' \<in> UNIV \<and>
        se_pending (tls_done message op io s) = Some op' \<and> se_results (tls_done message op io s) = [] \<and>
        \<not> tls_finished (tls_done message op io s)) \<or>
      (\<exists>ec. se_pending (tls_done message op io s) = None \<and>
        se_results (tls_done message op io s) = [ec] \<and> ec \<noteq> operation_aborted \<and> ec \<noteq> stream_truncated)"
    if "\<not> tls_finished s" "se_pending s = None" "se_results s = []"
    using that by (cases op) (auto simp: tls_defs)
qed simp

lemma callback_start: "callback.session_inv (callback_echo info)"
  by (simp add: callback.session_inv_def echo_inv_def callback_echo_def callback_run_def
      callback_write_greeting_def fresh_stream_echo_def print_line_def)

lemma local_start: "local_stream.session_inv (local_echo info)"
  by (simp add: local_stream.session_inv_def echo_inv_def local_echo_def local_run_def
      fresh_stream_echo_def print_line_def)

lemma tls_start: "tls.session_inv (tls_session info)"
  by (simp add: tls.session_inv_def echo_inv_def tls_session_def tls_run_def
      fresh_stream_echo_def print_line_def stream_echo.defs)

text \<open>
  C31: the stream sessions echo.  Whatever their operations deliver within what Asio documents,
  a callback session and a local session have sent a prefix of the greeting followed by all
  bytes received, and exactly that whenever they read; they complete once, with success, and
  only when no operation is outstanding.
\<close>

theorem stream_echo_correct:
  assumes "run_script (io_enabled echo_greeting) (callback_step message) ios (callback_echo info) = Some s"
    and "run_script (io_enabled local_greeting) (echo_step local_greeting (local_done message)) ios'
      (local_echo info') = Some s'"
  shows "((\<exists>rest. se_sent s @ rest = echo_greeting @ se_received s)
      \<and> (se_pending s = Some Reading \<longrightarrow> se_sent s = echo_greeting @ se_received s)
      \<and> se_results s = (if se_pending s = None then [no_error] else []))
    \<and> ((\<exists>rest. se_sent s' @ rest = local_greeting @ se_received s')
      \<and> (se_pending s' = Some Reading \<longrightarrow> se_sent s' = local_greeting @ se_received s')
      \<and> se_results s' = (if se_pending s' = None then [no_error] else []))"
  using callback.echoes [OF callback.run_inv [OF assms(1) [unfolded callback_step_def] callback_start]]
    local_stream.echoes [OF local_stream.run_inv [OF assms(2) local_start]]
  by (auto split: option.splits)

text \<open>An example: the client sends two bytes and closes its side.\<close>

definition example_info :: connection_info where
  "example_info = \<lparr> ci_id = 7, ci_local_endpoint = ''l'', ci_remote_endpoint = ''r'' \<rparr>"

definition example_ios :: "string \<Rightarrow> io list" where
  "example_ios greeting =
     [\<lparr> io_ec = no_error, io_data = [], io_size = length greeting \<rparr>,
      \<lparr> io_ec = no_error, io_data = ''hi'', io_size = 0 \<rparr>,
      \<lparr> io_ec = no_error, io_data = [], io_size = 2 \<rparr>]"

theorem stream_echo_correct_witness:
  "\<exists>s s'. run_script (io_enabled echo_greeting) (callback_step (\<lambda>_. [])) (example_ios echo_greeting)
        (callback_echo example_info) = Some s
     \<and> run_script (io_enabled local_greeting) (echo_step local_greeting (local_done (\<lambda>_. [])))
        (example_ios local_greeting) (local_echo example_info) = Some s'
     \<and> se_sent s = echo_greeting @ ''hi'' \<and> se_sent s' = local_greeting @ ''hi''"
proof -
  obtain s s' where s:
    "run_script (io_enabled echo_greeting) (callback_step (\<lambda>_. [])) (example_ios echo_greeting)
      (callback_echo example_info) = Some s"
    "run_script (io_enabled local_greeting) (echo_step local_greeting (local_done (\<lambda>_. [])))
      (example_ios local_greeting) (local_echo example_info) = Some s'"
    "se_pending s = Some Reading" "se_received s = ''hi''" "se_pending s' = Some Reading" "se_received s' = ''hi''"
    by (simp add: example_ios_def io_enabled_def callback_echo_def callback_run_def local_echo_def
        local_run_def callback_write_greeting_def callback_step_def echo_step_def callback_defs local_defs
        fresh_stream_echo_def stream_defs)
  with stream_echo_correct [OF s(1,2)] show ?thesis by simp
qed

text \<open>
  C32: the TLS session echoes in the same way.  It completes once; a client that closes its side
  is answered with a TLS shutdown, and an aborted operation or a truncated stream is not
  reported as an error.
\<close>

theorem tls_echo_correct:
  assumes "run_script (io_enabled tls_greeting) (echo_step tls_greeting (tls_done message)) ios
      (tls_session info) = Some s"
  shows "(\<exists>rest. se_sent s @ rest = tls_greeting @ se_received s)
    \<and> (se_pending s = Some Reading \<longrightarrow> se_sent s = tls_greeting @ se_received s)
    \<and> (case se_pending s of
         None \<Rightarrow> \<exists>ec. se_results s = [ec] \<and> ec \<noteq> operation_aborted \<and> ec \<noteq> stream_truncated
       | Some op \<Rightarrow> se_results s = [])"
  using tls.echoes [OF tls.run_inv [OF assms tls_start]] by auto

theorem tls_echo_correct_witness:
  "\<exists>s. run_script (io_enabled tls_greeting) (echo_step tls_greeting (tls_done (\<lambda>_. [])))
        (\<lparr> io_ec = no_error, io_data = [], io_size = 0 \<rparr> # example_ios tls_greeting) (tls_session example_info) = Some s
     \<and> se_sent s = tls_greeting @ ''hi''"
proof -
  obtain s where s:
    "run_script (io_enabled tls_greeting) (echo_step tls_greeting (tls_done (\<lambda>_. [])))
      (\<lparr> io_ec = no_error, io_data = [], io_size = 0 \<rparr> # example_ios tls_greeting) (tls_session example_info) = Some s"
    "se_pending s = Some Reading" "se_received s = ''hi''"
    by (simp add: example_ios_def io_enabled_def tls_session_def tls_run_def echo_step_def tls_defs
        fresh_stream_echo_def stream_defs stream_echo.defs)
  with tls_echo_correct [OF s(1)] show ?thesis by simp
qed

end
