(* ===== verification/Serveza_Echo_Datagram.thy ===== *)
theory Serveza_Echo_Datagram
  imports Serveza_Endpoint Serveza_Status
begin

text \<open>
  The datagram sessions of the example programs: \<open>UdpEchoOperation\<close> of
  \<^verbatim>\<open>src/examples/UdpEcho/src/main.cpp\<close> and \<open>DatagramEchoOperation\<close> of
  \<^verbatim>\<open>src/examples/LocalEcho/src/main.cpp\<close>.

  \<open>de_received\<close> are the datagrams received with their senders, \<open>de_sent\<close> those passed to
  \<open>async_send_to\<close> with their destinations.  \<open>message\<close> is \<open>error_code::message\<close> and \<open>printed\<close> the
  printing of an endpoint.
\<close>

record datagram_io =
  di_ec :: error_code
  di_data :: string
  di_from :: endpoint

datatype datagram_op = Receiving | Sending nat

record datagram_echo =
  de_data :: string
  de_remote :: endpoint
  de_pending :: "datagram_op option"
  de_results :: "error_code list"
  de_log :: "string list"
  de_received :: "(endpoint \<times> string) list"
  de_sent :: "(endpoint \<times> string) list"

definition fresh_datagram_echo :: "endpoint \<Rightarrow> datagram_echo" where
  "fresh_datagram_echo remote =
     \<lparr> de_data = replicate 4096 (CHR 0x00), de_remote = remote, de_pending = None, de_results = [],
       de_log = [], de_received = [], de_sent = [] \<rparr>"

text \<open>
  What Asio has done when a receive completes: on success the datagram is in the buffer and
  its sender in \<open>m_remote\<close>.
\<close>

definition receive_from :: "datagram_io \<Rightarrow> datagram_echo \<Rightarrow> datagram_echo" where
  "receive_from io s =
     (if failed (di_ec io) then s
      else s\<lparr> de_data := di_data io @ drop (length (di_data io)) (de_data s), de_remote := di_from io,
              de_received := de_received s @ [(di_from io, di_data io)] \<rparr>)"

definition datagram_enabled :: "datagram_io \<Rightarrow> datagram_echo \<Rightarrow> bool" where
  "datagram_enabled io s \<longleftrightarrow> de_pending s \<noteq> None \<and> length (di_data io) \<le> 4096"

definition datagram_step ::
    "(datagram_op \<Rightarrow> datagram_io \<Rightarrow> datagram_echo \<Rightarrow> datagram_echo) \<Rightarrow>
     datagram_io \<Rightarrow> datagram_echo \<Rightarrow> datagram_echo" where
  "datagram_step handler io s =
     (case de_pending s of
        None \<Rightarrow> s
      | Some op \<Rightarrow>
          handler op io
            ((if op = Receiving then receive_from io else id) (s\<lparr> de_pending := None \<rparr>)))"

definition say :: "string \<Rightarrow> datagram_echo \<Rightarrow> datagram_echo" where
  "say line s = s\<lparr> de_log := de_log s @ [line] \<rparr>"

subsection \<open>\<open>UdpEchoOperation\<close>\<close>

definition udp_receive :: "datagram_echo \<Rightarrow> datagram_echo" where
  "udp_receive s = s\<lparr> de_pending := Some Receiving \<rparr>"

definition udp_send :: "nat \<Rightarrow> datagram_echo \<Rightarrow> datagram_echo" where
  "udp_send n s =
     s\<lparr> de_pending := Some (Sending n), de_sent := de_sent s @ [(de_remote s, take n (de_data s))] \<rparr>"

definition udp_finish :: "datagram_echo \<Rightarrow> datagram_echo" where
  "udp_finish s = s\<lparr> de_results := de_results s @ [no_error] \<rparr>"

definition udp_run :: "datagram_echo \<Rightarrow> datagram_echo" where
  "udp_run s = udp_receive s"

definition udp_receive_done ::
    "(error_code \<Rightarrow> string) \<Rightarrow> (endpoint \<Rightarrow> string) \<Rightarrow> datagram_io \<Rightarrow> datagram_echo \<Rightarrow> datagram_echo" where
  "udp_receive_done message printed io s =
     (if di_ec io = operation_aborted then udp_finish s
      else if failed (di_ec io)
      then udp_receive (say (''Receive failed: '' @ message (di_ec io)) s)
      else udp_send (length (di_data io))
             (say (''Received '' @ nat_to_string (length (di_data io)) @ '' bytes from '' @
                printed (de_remote s)) s))"

definition udp_send_done ::
    "(error_code \<Rightarrow> string) \<Rightarrow> (endpoint \<Rightarrow> string) \<Rightarrow> datagram_io \<Rightarrow> datagram_echo \<Rightarrow> datagram_echo" where
  "udp_send_done message printed io s =
     (if di_ec io = operation_aborted then udp_finish s
      else udp_receive
             (if failed (di_ec io)
              then say (''Send to '' @ printed (de_remote s) @ '' failed: '' @ message (di_ec io)) s
              else s))"

fun udp_done ::
    "(error_code \<Rightarrow> string) \<Rightarrow> (endpoint \<Rightarrow> string) \<Rightarrow>
     datagram_op \<Rightarrow> datagram_io \<Rightarrow> datagram_echo \<Rightarrow> datagram_echo" where
  "udp_done message printed Receiving io s = udp_receive_done message printed io s"
| "udp_done message printed (Sending n) io s = udp_send_done message printed io s"

subsection \<open>\<open>DatagramEchoOperation\<close>\<close>

definition dgram_receive :: "datagram_echo \<Rightarrow> datagram_echo" where
  "dgram_receive s = s\<lparr> de_pending := Some Receiving \<rparr>"

definition dgram_send :: "nat \<Rightarrow> datagram_echo \<Rightarrow> datagram_echo" where
  "dgram_send n s =
     s\<lparr> de_pending := Some (Sending n), de_sent := de_sent s @ [(de_remote s, take n (de_data s))] \<rparr>"

definition dgram_finish :: "datagram_echo \<Rightarrow> datagram_echo" where
  "dgram_finish s = s\<lparr> de_results := de_results s @ [no_error] \<rparr>"

definition dgram_run :: "datagram_echo \<Rightarrow> datagram_echo" where
  "dgram_run s = dgram_receive s"

definition dgram_receive_done ::
    "(error_code \<Rightarrow> string) \<Rightarrow> datagram_io \<Rightarrow> datagram_echo \<Rightarrow> datagram_echo" where
  "dgram_receive_done message io s =
     (if di_ec io = operation_aborted then dgram_finish s
      else if failed (di_ec io)
      then dgram_receive (say (''Local datagram receive failed: '' @ message (di_ec io)) s)
      else dgram_send (length (di_data io)) s)"

definition dgram_send_done ::
    "(error_code \<Rightarrow> string) \<Rightarrow> datagram_io \<Rightarrow> datagram_echo \<Rightarrow> datagram_echo" where
  "dgram_send_done message io s =
     (if di_ec io = operation_aborted then dgram_finish s
      else dgram_receive
             (if failed (di_ec io)
              then say (''Local datagram send failed: '' @ message (di_ec io)) s else s))"

fun dgram_done ::
    "(error_code \<Rightarrow> string) \<Rightarrow> datagram_op \<Rightarrow> datagram_io \<Rightarrow> datagram_echo \<Rightarrow> datagram_echo" where
  "dgram_done message Receiving io s = dgram_receive_done message io s"
| "dgram_done message (Sending n) io s = dgram_send_done message io s"

subsection \<open>Datagrams are returned to their senders\<close>

text \<open>
  The interface of a datagram echo: an aborted operation ends it with success, every other
  completion goes on to the next operation.
\<close>

locale datagram_session =
  fixes handler :: "datagram_op \<Rightarrow> datagram_io \<Rightarrow> datagram_echo \<Rightarrow> datagram_echo"
  assumes ends: "di_ec io = operation_aborted \<Longrightarrow>
      de_pending (handler op io s) = de_pending s \<and> de_results (handler op io s) = de_results s @ [no_error] \<and>
      de_sent (handler op io s) = de_sent s \<and> de_received (handler op io s) = de_received s \<and>
      de_data (handler op io s) = de_data s"
    and returns: "\<not> failed (di_ec io) \<Longrightarrow>
      de_pending (handler Receiving io s) = Some (Sending (length (di_data io))) \<and>
      de_sent (handler Receiving io s) =
        de_sent s @ [(de_remote s, take (length (di_data io)) (de_data s))] \<and>
      de_results (handler Receiving io s) = de_results s \<and>
      de_received (handler Receiving io s) = de_received s \<and> de_data (handler Receiving io s) = de_data s"
    and receives_again: "di_ec io \<noteq> operation_aborted \<Longrightarrow> failed (di_ec io) \<or> op \<noteq> Receiving \<Longrightarrow>
      de_pending (handler op io s) = Some Receiving \<and> de_sent (handler op io s) = de_sent s \<and>
      de_results (handler op io s) = de_results s \<and> de_received (handler op io s) = de_received s \<and>
      de_data (handler op io s) = de_data s"
begin

definition echoes :: "datagram_echo \<Rightarrow> bool" where
  "echoes s \<longleftrightarrow> de_sent s = de_received s \<and>
     de_results s = (if de_pending s = None then [no_error] else [])"

lemma echoes_step:
  assumes inv: "echoes s" and en: "datagram_enabled io s"
  shows "echoes (datagram_step handler io s)"
    and "de_pending (datagram_step handler io s) = None \<longleftrightarrow> di_ec io = operation_aborted"
proof -
  obtain op where op: "de_pending s = Some op" using en by (auto simp: datagram_enabled_def)
  define s1 where "s1 = (if op = Receiving then receive_from io else id) (s\<lparr> de_pending := None \<rparr>)"
  have step: "datagram_step handler io s = handler op io s1"
    by (simp add: datagram_step_def op s1_def)
  have s1: "de_pending s1 = None" "de_results s1 = []" "de_sent s1 = de_received s"
    using inv op by (simp_all add: s1_def receive_from_def echoes_def)
  have "echoes (handler op io s1) \<and> (de_pending (handler op io s1) = None \<longleftrightarrow> di_ec io = operation_aborted)"
  proof (cases "di_ec io = operation_aborted")
    case True
    then have "de_received s1 = de_received s" by (simp add: s1_def receive_from_def)
    with True s1 ends [of io op s1] show ?thesis by (simp add: echoes_def)
  next
    case False
    note nab = this
    show ?thesis
    proof (cases "failed (di_ec io) \<or> op \<noteq> Receiving")
      case True
      then have "de_received s1 = de_received s" by (auto simp: s1_def receive_from_def)
      with True nab s1 receives_again [of io op s1] show ?thesis by (simp add: echoes_def)
    next
      case False
      then have "de_received s1 = de_received s @ [(de_remote s1, take (length (di_data io)) (de_data s1))]"
        by (simp add: s1_def receive_from_def)
      with False nab s1 returns [of io s1] show ?thesis by (simp add: echoes_def)
    qed
  qed
  then show "echoes (datagram_step handler io s)"
    and "de_pending (datagram_step handler io s) = None \<longleftrightarrow> di_ec io = operation_aborted"
    unfolding step by simp_all
qed

lemma echoes_run:
  "run_script datagram_enabled (datagram_step handler) ios s = Some s' \<Longrightarrow> echoes s \<Longrightarrow>
     de_pending s \<noteq> None \<Longrightarrow>
     echoes s' \<and> (de_pending s' = None \<longleftrightarrow> operation_aborted \<in> di_ec ` set ios)"
proof (induction ios arbitrary: s)
  case (Cons io ios)
  then have en: "datagram_enabled io s"
    and rest: "run_script datagram_enabled (datagram_step handler) ios (datagram_step handler io s) = Some s'"
    by (auto split: if_splits)
  note step = echoes_step [OF Cons.prems(2) en]
  show ?case
  proof (cases "di_ec io = operation_aborted")
    case True
    then have "de_pending (datagram_step handler io s) = None" using step(2) by simp
    moreover from this rest have "ios = []" by (cases ios) (auto simp: datagram_enabled_def split: if_splits)
    ultimately show ?thesis using rest step(1) True by auto
  next
    case False
    with Cons.IH [OF rest step(1)] step(2) show ?thesis by auto
  qed
qed simp

text \<open>An error other than an abort is never the end.\<close>

lemma never_gives_up:
  assumes "di_ec io \<noteq> operation_aborted" and "failed (di_ec io)"
  shows "de_pending s = Some Receiving \<Longrightarrow>
    de_pending (fold (datagram_step handler) (replicate n io) s) = Some Receiving \<and>
    de_results (fold (datagram_step handler) (replicate n io) s) = de_results s"
proof (induction n arbitrary: s)
  case (Suc n)
  have "datagram_step handler io s = handler Receiving io (s\<lparr> de_pending := None \<rparr>)"
    using Suc.prems assms(2) by (simp add: datagram_step_def receive_from_def)
  then have "de_pending (datagram_step handler io s) = Some Receiving"
    "de_results (datagram_step handler io s) = de_results s"
    using receives_again [of io Receiving "s\<lparr> de_pending := None \<rparr>"] assms by simp_all
  with Suc.IH show ?case by simp
qed simp

end

lemmas udp_defs = udp_receive_done_def udp_send_done_def udp_receive_def udp_send_def udp_finish_def say_def
lemmas dgram_defs = dgram_receive_done_def dgram_send_done_def dgram_receive_def dgram_send_def
  dgram_finish_def say_def

interpretation udp: datagram_session "udp_done message printed" for message printed
proof
  fix io op s
  show "di_ec io = operation_aborted \<Longrightarrow>
      de_pending (udp_done message printed op io s) = de_pending s \<and>
      de_results (udp_done message printed op io s) = de_results s @ [no_error] \<and>
      de_sent (udp_done message printed op io s) = de_sent s \<and>
      de_received (udp_done message printed op io s) = de_received s \<and>
      de_data (udp_done message printed op io s) = de_data s"
    by (cases op) (simp_all add: udp_defs)
  show "di_ec io \<noteq> operation_aborted \<Longrightarrow> failed (di_ec io) \<or> op \<noteq> Receiving \<Longrightarrow>
      de_pending (udp_done message printed op io s) = Some Receiving \<and>
      de_sent (udp_done message printed op io s) = de_sent s \<and>
      de_results (udp_done message printed op io s) = de_results s \<and>
      de_received (udp_done message printed op io s) = de_received s \<and>
      de_data (udp_done message printed op io s) = de_data s"
    by (cases op) (auto simp: udp_defs)
qed (auto simp: udp_defs)

interpretation dgram: datagram_session "dgram_done message" for message
proof
  fix io op s
  show "di_ec io = operation_aborted \<Longrightarrow>
      de_pending (dgram_done message op io s) = de_pending s \<and>
      de_results (dgram_done message op io s) = de_results s @ [no_error] \<and>
      de_sent (dgram_done message op io s) = de_sent s \<and>
      de_received (dgram_done message op io s) = de_received s \<and>
      de_data (dgram_done message op io s) = de_data s"
    by (cases op) (simp_all add: dgram_defs)
  show "di_ec io \<noteq> operation_aborted \<Longrightarrow> failed (di_ec io) \<or> op \<noteq> Receiving \<Longrightarrow>
      de_pending (dgram_done message op io s) = Some Receiving \<and>
      de_sent (dgram_done message op io s) = de_sent s \<and>
      de_results (dgram_done message op io s) = de_results s \<and>
      de_received (dgram_done message op io s) = de_received s \<and>
      de_data (dgram_done message op io s) = de_data s"
    by (cases op) (auto simp: dgram_defs)
qed (auto simp: dgram_defs)

text \<open>
  C30: the datagram sessions of the examples return every datagram they receive to its sender,
  in order and unchanged; they complete once, with success, exactly when an operation is
  aborted.
\<close>

theorem datagram_echo_correct:
  assumes "run_script datagram_enabled (datagram_step (udp_done message printed)) ios
      (udp_run (fresh_datagram_echo remote)) = Some s"
    and "run_script datagram_enabled (datagram_step (dgram_done message)) ios'
      (dgram_run (fresh_datagram_echo remote')) = Some s'"
  shows "(de_sent s = de_received s
      \<and> (de_pending s = None \<longleftrightarrow> operation_aborted \<in> di_ec ` set ios)
      \<and> de_results s = (if de_pending s = None then [no_error] else []))
    \<and> (de_sent s' = de_received s'
      \<and> (de_pending s' = None \<longleftrightarrow> operation_aborted \<in> di_ec ` set ios')
      \<and> de_results s' = (if de_pending s' = None then [no_error] else []))"
proof -
  have "udp.echoes (udp_run (fresh_datagram_echo remote))" "de_pending (udp_run (fresh_datagram_echo remote)) \<noteq> None"
    by (simp_all add: udp.echoes_def udp_run_def udp_receive_def fresh_datagram_echo_def)
  moreover have "dgram.echoes (dgram_run (fresh_datagram_echo remote'))"
    "de_pending (dgram_run (fresh_datagram_echo remote')) \<noteq> None"
    by (simp_all add: dgram.echoes_def dgram_run_def dgram_receive_def fresh_datagram_echo_def)
  ultimately show ?thesis
    using udp.echoes_run [OF assms(1)] dgram.echoes_run [OF assms(2)]
    by (simp add: udp.echoes_def dgram.echoes_def)
qed

definition example_datagrams :: "datagram_io list" where
  "example_datagrams =
     [\<lparr> di_ec = no_error, di_data = ''hello'', di_from = path_endpoint ''/c'' \<rparr>,
      \<lparr> di_ec = no_error, di_data = [], di_from = opaque_endpoint \<rparr>,
      \<lparr> di_ec = operation_aborted, di_data = [], di_from = opaque_endpoint \<rparr>]"

theorem datagram_echo_correct_witness:
  "\<exists>s s'. run_script datagram_enabled (datagram_step (udp_done (\<lambda>_. []) (\<lambda>_. []))) example_datagrams
        (udp_run (fresh_datagram_echo opaque_endpoint)) = Some s
     \<and> run_script datagram_enabled (datagram_step (dgram_done (\<lambda>_. []))) example_datagrams
        (dgram_run (fresh_datagram_echo opaque_endpoint)) = Some s'
     \<and> de_sent s = [(path_endpoint ''/c'', ''hello'')] \<and> de_results s = [no_error]
     \<and> de_sent s' = [(path_endpoint ''/c'', ''hello'')] \<and> de_results s' = [no_error]"
proof -
  obtain s s' where s:
    "run_script datagram_enabled (datagram_step (udp_done (\<lambda>_. []) (\<lambda>_. []))) example_datagrams
        (udp_run (fresh_datagram_echo opaque_endpoint)) = Some s"
    "run_script datagram_enabled (datagram_step (dgram_done (\<lambda>_. []))) example_datagrams
        (dgram_run (fresh_datagram_echo opaque_endpoint)) = Some s'"
    "de_received s = [(path_endpoint ''/c'', ''hello'')]" "de_received s' = [(path_endpoint ''/c'', ''hello'')]"
    by (simp add: example_datagrams_def datagram_enabled_def datagram_step_def udp_defs dgram_defs
        udp_run_def dgram_run_def receive_from_def fresh_datagram_echo_def)
  moreover have "operation_aborted \<in> di_ec ` set example_datagrams" by (simp add: example_datagrams_def)
  ultimately show ?thesis using datagram_echo_correct [OF s(1,2)] by auto
qed



end
