(* ===== verification/Serveza_Echo_Http.thy ===== *)
theory Serveza_Echo_Http
  imports Serveza_Endpoint Serveza_Status
begin

text \<open>
  The HTTP sessions of the example programs: \<open>HttpEchoConnection\<close> of
  \<^verbatim>\<open>src/examples/HttpEcho/src/main.cpp\<close> and \<open>HttpsEchoConnection\<close> of
  \<^verbatim>\<open>src/examples/HttpsEcho/src/main.cpp\<close>.

  Boost.Beast reads requests and writes responses; the environment answers a read with the
  request it parsed.  What the sessions use of Beast's messages beside their fields is the
  parameter \<open>beast\<close>: default messages and \<open>prepare_payload\<close>.

  \<open>hc_timers\<close> are the outstanding waits on \<open>m_deadline\<close>, each with whether it was cancelled and
  its number of seconds.  \<open>hc_requests\<close> and \<open>hc_responses\<close> are all messages read and all those
  passed to \<open>async_write\<close>; \<open>hc_expired\<close> tells whether the socket was cancelled by a deadline
  since the outstanding operation began.
\<close>

record http_request =
  rq_version :: nat
  rq_method :: string
  rq_target :: string
  rq_keep_alive :: bool
  rq_body :: string

record http_response =
  rs_version :: nat
  rs_result :: nat
  rs_fields :: "string \<rightharpoonup> string"
  rs_keep_alive :: bool
  rs_body :: string

record beast =
  empty_request :: http_request
  empty_response :: http_response
  prepare_payload :: "http_response \<Rightarrow> http_response"

text \<open>\<open>prepare_payload\<close> sets header fields that describe the body and changes nothing else.\<close>

definition beast_ok :: "beast \<Rightarrow> bool" where
  "beast_ok b \<longleftrightarrow>
     (\<forall>r. rs_version (prepare_payload b r) = rs_version r \<and> rs_result (prepare_payload b r) = rs_result r \<and>
        rs_keep_alive (prepare_payload b r) = rs_keep_alive r \<and> rs_body (prepare_payload b r) = rs_body r)"

datatype http_op = Http_handshaking | Http_reading | Http_writing | Http_shutting_down

record http_io =
  hi_ec :: error_code
  hi_request :: http_request        \<comment> \<open>what a successful read parsed\<close>
  hi_cancel_throws :: bool          \<comment> \<open>whether \<open>m_deadline.cancel()\<close> throws\<close>

record http_conn =
  hc_info :: connection_info
  hc_timers :: "(bool \<times> nat) list"
  hc_parser :: "(nat \<times> nat) option"
  hc_request :: http_request
  hc_response :: http_response
  hc_first_request :: bool
  hc_finished :: bool
  hc_pending :: "http_op option"
  hc_results :: "error_code list"
  hc_log :: "string list"
  hc_requests :: "http_request list"
  hc_responses :: "http_response list"
  hc_expired :: bool

definition header_limit :: nat where "header_limit = 16 * 1024"

definition body_limit :: nat where "body_limit = 1024 * 1024"

definition new_http_conn :: "beast \<Rightarrow> connection_info \<Rightarrow> http_conn" where
  "new_http_conn b info =
     \<lparr> hc_info = info, hc_timers = [], hc_parser = None, hc_request = empty_request b,
       hc_response = empty_response b, hc_first_request = True, hc_finished = False,
       hc_pending = None, hc_results = [], hc_log = [], hc_requests = [], hc_responses = [],
       hc_expired = False \<rparr>"

subsection \<open>What both classes have\<close>

text \<open>\<open>client\<close> is the word the class begins its log lines with.\<close>

definition http_say :: "string \<Rightarrow> http_conn \<Rightarrow> http_conn" where
  "http_say line s = s\<lparr> hc_log := hc_log s @ [line] \<rparr>"

definition http_client :: "string \<Rightarrow> http_conn \<Rightarrow> string" where
  "http_client client s = client @ '' client '' @ nat_to_string (unat (ci_id (hc_info s)))"

definition http_arm_deadline :: "nat \<Rightarrow> http_conn \<Rightarrow> http_conn" where
  "http_arm_deadline seconds s =
     s\<lparr> hc_timers := map (\<lambda>(c, d). (True, d)) (hc_timers s) @ [(False, seconds)],
        hc_expired := False \<rparr>"

definition http_cancel_deadline :: "bool \<Rightarrow> http_conn \<Rightarrow> http_conn" where
  "http_cancel_deadline throws s =
     (if throws then s else s\<lparr> hc_timers := map (\<lambda>(c, d). (True, d)) (hc_timers s) \<rparr>)"

definition http_deadline_expired :: "error_code \<Rightarrow> http_conn \<Rightarrow> http_conn" where
  "http_deadline_expired ec s = (if failed ec then s else s\<lparr> hc_expired := True \<rparr>)"

definition http_read :: "http_conn \<Rightarrow> http_conn" where
  "http_read s =
     (let s = http_arm_deadline (if hc_first_request s then 10 else 60) s;
          s = s\<lparr> hc_parser := Some (header_limit, body_limit) \<rparr>
      in s\<lparr> hc_pending := Some Http_reading \<rparr>)"

definition http_fill_response :: "beast \<Rightarrow> http_request \<Rightarrow> http_response \<Rightarrow> http_response" where
  "http_fill_response b request response =
     (let response = response\<lparr> rs_version := rq_version request \<rparr>;
          response = response\<lparr> rs_result := 200 \<rparr>;
          response = response\<lparr> rs_fields := (rs_fields response)(''Server'' \<mapsto> ''serveza'') \<rparr>;
          response = response\<lparr> rs_fields := (rs_fields response)(''Content-Type'' \<mapsto> ''text/plain'') \<rparr>;
          response = response\<lparr> rs_keep_alive := rq_keep_alive request \<rparr>;
          response = response\<lparr> rs_body := rq_body request \<rparr>
      in prepare_payload b response)"

definition http_write :: "string \<Rightarrow> beast \<Rightarrow> http_conn \<Rightarrow> http_conn" where
  "http_write client b s =
     (let s = http_say (http_client client s @ '': '' @ rq_method (hc_request s) @ '' '' @
                rq_target (hc_request s) @ '', '' @ nat_to_string (length (rq_body (hc_request s))) @
                '' body bytes'') s;
          s = s\<lparr> hc_response := http_fill_response b (hc_request s) (hc_response s) \<rparr>;
          s = http_arm_deadline 10 s
      in s\<lparr> hc_pending := Some Http_writing, hc_responses := hc_responses s @ [hc_response s] \<rparr>)"

definition http_complete ::
    "string \<Rightarrow> (error_code \<Rightarrow> bool) \<Rightarrow> (error_code \<Rightarrow> string) \<Rightarrow> bool \<Rightarrow> error_code \<Rightarrow> http_conn \<Rightarrow> http_conn" where
  "http_complete client expected message throws ec s =
     (if hc_finished s then s
      else let s = s\<lparr> hc_finished := True \<rparr>;
               s = http_cancel_deadline throws s;
               s = http_say (http_client client s @ '' disconnected'' @
                     (if failed ec \<and> \<not> expected ec then '': '' @ message ec else [])) s;
               ec = (if expected ec then no_error else ec)
           in s\<lparr> hc_results := hc_results s @ [ec] \<rparr>)"

definition http_read_done ::
    "string \<Rightarrow> (error_code \<Rightarrow> bool) \<Rightarrow> (error_code \<Rightarrow> string) \<Rightarrow> beast \<Rightarrow> http_io \<Rightarrow> http_conn \<Rightarrow> http_conn" where
  "http_read_done client expected message b io s =
     (let s = http_cancel_deadline (hi_cancel_throws io) s
      in if failed (hi_ec io) then http_complete client expected message (hi_cancel_throws io) (hi_ec io) s
         else let s = s\<lparr> hc_request := hi_request io, hc_requests := hc_requests s @ [hi_request io] \<rparr>;
                  s = s\<lparr> hc_parser := None \<rparr>;
                  s = s\<lparr> hc_first_request := False \<rparr>
              in http_write client b s)"

subsection \<open>\<open>HttpEchoConnection\<close>\<close>

definition http_expected_disconnect :: "error_code \<Rightarrow> bool" where
  "http_expected_disconnect ec \<longleftrightarrow>
     ec = end_of_stream \<or> ec = eof \<or> ec = connection_reset \<or> ec = operation_aborted"

definition http_run :: "http_conn \<Rightarrow> http_conn" where
  "http_run s =
     http_read (http_say (http_client ''HTTP'' s @ '' connected ('' @ ci_remote_endpoint (hc_info s) @ '')'') s)"

definition http_write_done :: "(error_code \<Rightarrow> string) \<Rightarrow> beast \<Rightarrow> http_io \<Rightarrow> http_conn \<Rightarrow> http_conn" where
  "http_write_done message b io s =
     (let s = http_cancel_deadline (hi_cancel_throws io) s;
          complete = http_complete ''HTTP'' http_expected_disconnect message (hi_cancel_throws io)
      in if failed (hi_ec io) then complete (hi_ec io) s
         else if \<not> rs_keep_alive (hc_response s) then complete no_error s
         else http_read (s\<lparr> hc_request := empty_request b, hc_response := empty_response b \<rparr>))"

definition http_echo :: "beast \<Rightarrow> connection_info \<Rightarrow> http_conn" where
  "http_echo b info = http_run (new_http_conn b info)"

fun http_done :: "(error_code \<Rightarrow> string) \<Rightarrow> beast \<Rightarrow> http_op \<Rightarrow> http_io \<Rightarrow> http_conn \<Rightarrow> http_conn" where
  "http_done message b Http_reading io s =
     http_read_done ''HTTP'' http_expected_disconnect message b io s"
| "http_done message b Http_writing io s = http_write_done message b io s"
| "http_done message b _ io s = s"

subsection \<open>\<open>HttpsEchoConnection\<close>\<close>

definition https_expected_disconnect :: "error_code \<Rightarrow> bool" where
  "https_expected_disconnect ec \<longleftrightarrow>
     ec = end_of_stream \<or> ec = eof \<or> ec = connection_reset \<or> ec = operation_aborted \<or>
     ec = stream_truncated"

definition https_complete :: "(error_code \<Rightarrow> string) \<Rightarrow> bool \<Rightarrow> error_code \<Rightarrow> http_conn \<Rightarrow> http_conn" where
  "https_complete message throws ec s =
     (if hc_finished s then s
      else let s = s\<lparr> hc_finished := True \<rparr>;
               s = http_cancel_deadline throws s;
               s = http_say (http_client ''HTTPS'' s @ '' disconnected'' @
                     (if failed ec \<and> \<not> https_expected_disconnect ec then '': '' @ message ec else [])) s;
               ec = (if https_expected_disconnect ec then no_error else ec)
           in s\<lparr> hc_results := hc_results s @ [ec] \<rparr>)"

definition https_run :: "http_conn \<Rightarrow> http_conn" where
  "https_run s =
     (let s = http_say (http_client ''HTTPS'' s @ '' connected ('' @ ci_remote_endpoint (hc_info s) @ '')'') s;
          s = http_arm_deadline 10 s
      in s\<lparr> hc_pending := Some Http_handshaking \<rparr>)"

definition https_read :: "http_conn \<Rightarrow> http_conn" where
  "https_read s =
     (let s = http_arm_deadline (if hc_first_request s then 10 else 60) s;
          s = s\<lparr> hc_parser := Some (header_limit, body_limit) \<rparr>
      in s\<lparr> hc_pending := Some Http_reading \<rparr>)"

definition https_handshake_done :: "(error_code \<Rightarrow> string) \<Rightarrow> http_io \<Rightarrow> http_conn \<Rightarrow> http_conn" where
  "https_handshake_done message io s =
     (let s = http_cancel_deadline (hi_cancel_throws io) s
      in if failed (hi_ec io) then https_complete message (hi_cancel_throws io) (hi_ec io) s
         else https_read s)"

definition https_write :: "beast \<Rightarrow> http_conn \<Rightarrow> http_conn" where
  "https_write b s =
     (let s = http_say (http_client ''HTTPS'' s @ '': '' @ rq_method (hc_request s) @ '' '' @
                rq_target (hc_request s) @ '', '' @ nat_to_string (length (rq_body (hc_request s))) @
                '' body bytes'') s;
          s = s\<lparr> hc_response := http_fill_response b (hc_request s) (hc_response s) \<rparr>;
          s = http_arm_deadline 10 s
      in s\<lparr> hc_pending := Some Http_writing, hc_responses := hc_responses s @ [hc_response s] \<rparr>)"

definition https_read_done :: "(error_code \<Rightarrow> string) \<Rightarrow> beast \<Rightarrow> http_io \<Rightarrow> http_conn \<Rightarrow> http_conn" where
  "https_read_done message b io s =
     (let s = http_cancel_deadline (hi_cancel_throws io) s
      in if failed (hi_ec io) then https_complete message (hi_cancel_throws io) (hi_ec io) s
         else let s = s\<lparr> hc_request := hi_request io, hc_requests := hc_requests s @ [hi_request io] \<rparr>;
                  s = s\<lparr> hc_parser := None \<rparr>;
                  s = s\<lparr> hc_first_request := False \<rparr>
              in https_write b s)"

definition https_shutdown :: "http_conn \<Rightarrow> http_conn" where
  "https_shutdown s = (http_arm_deadline 10 s)\<lparr> hc_pending := Some Http_shutting_down \<rparr>"

definition https_shutdown_done :: "(error_code \<Rightarrow> string) \<Rightarrow> http_io \<Rightarrow> http_conn \<Rightarrow> http_conn" where
  "https_shutdown_done message io s =
     https_complete message (hi_cancel_throws io) (hi_ec io) (http_cancel_deadline (hi_cancel_throws io) s)"

definition https_write_done :: "(error_code \<Rightarrow> string) \<Rightarrow> beast \<Rightarrow> http_io \<Rightarrow> http_conn \<Rightarrow> http_conn" where
  "https_write_done message b io s =
     (let s = http_cancel_deadline (hi_cancel_throws io) s
      in if failed (hi_ec io) then https_complete message (hi_cancel_throws io) (hi_ec io) s
         else if \<not> rs_keep_alive (hc_response s) then https_shutdown s
         else https_read (s\<lparr> hc_request := empty_request b, hc_response := empty_response b \<rparr>))"

definition https_echo :: "beast \<Rightarrow> connection_info \<Rightarrow> http_conn" where
  "https_echo b info = https_run (new_http_conn b info)"

fun https_done :: "(error_code \<Rightarrow> string) \<Rightarrow> beast \<Rightarrow> http_op \<Rightarrow> http_io \<Rightarrow> http_conn \<Rightarrow> http_conn" where
  "https_done message b Http_handshaking io s = https_handshake_done message io s"
| "https_done message b Http_reading io s = https_read_done message b io s"
| "https_done message b Http_writing io s = https_write_done message b io s"
| "https_done message b Http_shutting_down io s = https_shutdown_done message io s"

subsection \<open>Runs\<close>

datatype http_action = Http_io http_io | Http_deadline nat error_code

fun http_enabled :: "http_action \<Rightarrow> http_conn \<Rightarrow> bool" where
  "http_enabled (Http_io io) s = (hc_pending s \<noteq> None)"
| "http_enabled (Http_deadline i ec) s =
     (i < length (hc_timers s) \<and> timer_delivers (fst (hc_timers s ! i)) ec)"

fun http_do ::
    "(http_op \<Rightarrow> http_io \<Rightarrow> http_conn \<Rightarrow> http_conn) \<Rightarrow> http_action \<Rightarrow> http_conn \<Rightarrow> http_conn" where
  "http_do handler (Http_io io) s =
     (case hc_pending s of None \<Rightarrow> s | Some op \<Rightarrow> handler op io (s\<lparr> hc_pending := None \<rparr>))"
| "http_do handler (Http_deadline i ec) s =
     http_deadline_expired ec
       (s\<lparr> hc_timers := take i (hc_timers s) @ drop (Suc i) (hc_timers s) \<rparr>)"

subsection \<open>Every operation has a deadline, every request its response\<close>

definition live_deadlines :: "http_conn \<Rightarrow> nat list" where
  "live_deadlines s = map snd (filter (\<lambda>t. \<not> fst t) (hc_timers s))"

definition http_seconds :: "http_conn \<Rightarrow> http_op \<Rightarrow> nat" where
  "http_seconds s op = (if op = Http_reading \<and> \<not> hc_first_request s then 60 else 10)"

definition deadline_ok :: "http_conn \<Rightarrow> bool" where
  "deadline_ok s \<longleftrightarrow>
     (case hc_pending s of
        None \<Rightarrow> True
      | Some op \<Rightarrow>
          live_deadlines s = [http_seconds s op] \<or> live_deadlines s = [] \<and> hc_expired s)"

definition completion_ok :: "(error_code \<Rightarrow> bool) \<Rightarrow> http_conn \<Rightarrow> bool" where
  "completion_ok expected s \<longleftrightarrow>
     (case hc_pending s of
        None \<Rightarrow> hc_finished s \<and> (\<exists>ec. hc_results s = [ec] \<and> \<not> expected ec)
      | Some op \<Rightarrow> \<not> hc_finished s \<and> hc_results s = [])"

text \<open>\<open>between\<close> holds when a session is about to read: all answered, none asked to close.\<close>

definition between :: "beast \<Rightarrow> http_conn \<Rightarrow> bool" where
  "between b s \<longleftrightarrow>
     (hc_first_request s \<longleftrightarrow> hc_requests s = []) \<and>
     hc_responses s = map (\<lambda>rq. http_fill_response b rq (empty_response b)) (hc_requests s) \<and>
     (\<forall>rq \<in> set (hc_requests s). rq_keep_alive rq)"

definition messages_ok :: "beast \<Rightarrow> http_conn \<Rightarrow> bool" where
  "messages_ok b s \<longleftrightarrow>
     (hc_first_request s \<longleftrightarrow> hc_requests s = []) \<and>
     hc_responses s = map (\<lambda>rq. http_fill_response b rq (empty_response b)) (hc_requests s) \<and>
     (\<forall>rq \<in> set (butlast (hc_requests s)). rq_keep_alive rq) \<and>
     (hc_pending s = Some Http_reading \<or> hc_pending s = Some Http_handshaking \<longrightarrow>
        between b s \<and> hc_response s = empty_response b) \<and>
     (hc_pending s = Some Http_writing \<longrightarrow>
        hc_requests s \<noteq> [] \<and> hc_response s = last (hc_responses s))"

definition http_inv :: "beast \<Rightarrow> (error_code \<Rightarrow> bool) \<Rightarrow> http_conn \<Rightarrow> bool" where
  "http_inv b expected s \<longleftrightarrow> deadline_ok s \<and> completion_ok expected s \<and> messages_ok b s"

text \<open>The HTTPS class repeats the HTTP one up to the stream, the log and the expected errors.\<close>

lemma https_same:
  "https_read = http_read" "https_write = http_write ''HTTPS''"
  "https_complete = http_complete ''HTTPS'' https_expected_disconnect"
  "https_read_done = http_read_done ''HTTPS'' https_expected_disconnect"
proof -
  show read: "https_read = http_read" and wr: "https_write = http_write ''HTTPS''"
    and complete: "https_complete = http_complete ''HTTPS'' https_expected_disconnect"
    by (simp_all only: fun_eq_iff https_read_def http_read_def https_write_def http_write_def
        https_complete_def http_complete_def simp_thms)
  show "https_read_done = http_read_done ''HTTPS'' https_expected_disconnect"
    by (simp only: fun_eq_iff https_read_done_def http_read_done_def wr complete simp_thms)
qed

lemma live_armed [simp]: "live_deadlines (http_arm_deadline n s) = [n]"
  by (auto simp: live_deadlines_def http_arm_deadline_def filter_map o_def case_prod_beta)

lemma http_helper_fields [simp]:
  "hc_pending (http_arm_deadline n s) = hc_pending s" "hc_pending (http_say line s) = hc_pending s"
  "hc_pending (http_cancel_deadline c s) = hc_pending s"
  "hc_finished (http_arm_deadline n s) = hc_finished s" "hc_finished (http_say line s) = hc_finished s"
  "hc_finished (http_cancel_deadline c s) = hc_finished s"
  "hc_results (http_arm_deadline n s) = hc_results s" "hc_results (http_say line s) = hc_results s"
  "hc_results (http_cancel_deadline c s) = hc_results s"
  "hc_requests (http_arm_deadline n s) = hc_requests s" "hc_requests (http_say line s) = hc_requests s"
  "hc_requests (http_cancel_deadline c s) = hc_requests s"
  "hc_responses (http_arm_deadline n s) = hc_responses s" "hc_responses (http_say line s) = hc_responses s"
  "hc_responses (http_cancel_deadline c s) = hc_responses s"
  "hc_response (http_arm_deadline n s) = hc_response s" "hc_response (http_say line s) = hc_response s"
  "hc_response (http_cancel_deadline c s) = hc_response s"
  "hc_request (http_arm_deadline n s) = hc_request s" "hc_request (http_say line s) = hc_request s"
  "hc_first_request (http_arm_deadline n s) = hc_first_request s"
  "hc_first_request (http_say line s) = hc_first_request s"
  "hc_first_request (http_cancel_deadline c s) = hc_first_request s"
  by (simp_all add: http_arm_deadline_def http_say_def http_cancel_deadline_def)

lemma live_of_update [simp]:
  "live_deadlines (s\<lparr> hc_pending := p \<rparr>) = live_deadlines s"
  "live_deadlines (s\<lparr> hc_parser := q \<rparr>) = live_deadlines s"
  "live_deadlines (s\<lparr> hc_responses := rs \<rparr>) = live_deadlines s"
  by (simp_all add: live_deadlines_def)

lemma inv_http_read:
  assumes "between b s" "hc_response s = empty_response b" "\<not> hc_finished s" "hc_results s = []"
  shows "http_inv b expected (http_read s)"
  using assms
  by (auto simp: http_inv_def deadline_ok_def completion_ok_def messages_ok_def between_def http_read_def
      Let_def http_seconds_def dest: in_set_butlastD)

lemma inv_http_write:
  assumes "\<not> hc_finished s" "hc_results s = []" "\<not> hc_first_request s" "hc_response s = empty_response b"
    and "hc_requests s = rqs @ [hc_request s]" "\<forall>rq \<in> set rqs. rq_keep_alive rq"
    and "hc_responses s = map (\<lambda>rq. http_fill_response b rq (empty_response b)) rqs"
  shows "http_inv b expected (http_write client b s)"
  using assms
  by (simp add: http_inv_def deadline_ok_def completion_ok_def messages_ok_def http_write_def
      Let_def http_seconds_def)

lemma inv_http_complete:
  assumes "hc_pending s = None" "\<not> hc_finished s" "hc_results s = []" "\<not> expected no_error"
    and "hc_first_request s \<longleftrightarrow> hc_requests s = []"
    and "hc_responses s = map (\<lambda>rq. http_fill_response b rq (empty_response b)) (hc_requests s)"
    and "\<forall>rq \<in> set (butlast (hc_requests s)). rq_keep_alive rq"
  shows "http_inv b expected (http_complete client expected message throws ec s)"
  using assms
  by (auto simp: http_inv_def deadline_ok_def completion_ok_def messages_ok_def http_complete_def Let_def)

lemma inv_pending:
  assumes "http_inv b expected s" and "hc_pending s = Some op"
  shows "\<not> hc_finished s" "hc_results s = []" "hc_first_request s \<longleftrightarrow> hc_requests s = []"
    "hc_responses s = map (\<lambda>rq. http_fill_response b rq (empty_response b)) (hc_requests s)"
    "\<forall>rq \<in> set (butlast (hc_requests s)). rq_keep_alive rq"
    "op = Http_reading \<or> op = Http_handshaking \<Longrightarrow> between b s \<and> hc_response s = empty_response b"
    "op = Http_writing \<Longrightarrow> hc_requests s \<noteq> [] \<and> hc_response s = last (hc_responses s)"
  using assms by (auto simp: http_inv_def completion_ok_def messages_ok_def)

lemma between_updates [simp]:
  "between b (s\<lparr> hc_pending := p \<rparr>) = between b s"
  "between b (s\<lparr> hc_request := q, hc_response := r \<rparr>) = between b s"
  "between b (http_cancel_deadline c s) = between b s"
  by (simp_all add: between_def)

lemma inv_complete_pending:
  assumes "http_inv b expected s" and "hc_pending s = Some op" and "\<not> expected no_error"
  shows "http_inv b expected (http_complete client expected message throws ec
    (http_cancel_deadline c (s\<lparr> hc_pending := None \<rparr>)))"
  using inv_pending [OF assms(1,2)] assms(3) by (intro inv_http_complete) simp_all

lemma inv_read_done:
  assumes inv: "http_inv b expected s" and op: "hc_pending s = Some Http_reading" and "\<not> expected no_error"
  shows "http_inv b expected (http_read_done client expected message b io (s\<lparr> hc_pending := None \<rparr>))"
proof (cases "failed (hi_ec io)")
  case True
  with inv_complete_pending [OF assms] show ?thesis by (simp add: http_read_done_def Let_def)
next
  case False
  let ?s = "(http_cancel_deadline (hi_cancel_throws io) (s\<lparr> hc_pending := None \<rparr>))"
  let ?s1 = "?s\<lparr> hc_request := hi_request io, hc_requests := hc_requests ?s @ [hi_request io],
    hc_parser := None, hc_first_request := False \<rparr>"
  have "http_inv b expected (http_write client b ?s1)"
    using inv_pending [OF inv op] by (intro inv_http_write) (simp_all add: between_def)
  with False show ?thesis by (simp add: http_read_done_def Let_def)
qed

lemma keep_alive_answered:
  assumes inv: "http_inv b expected s" and op: "hc_pending s = Some Http_writing" and "beast_ok b"
    and "rs_keep_alive (hc_response s)"
  shows "between b s"
proof -
  have rqs: "hc_requests s \<noteq> []" "hc_response s = last (hc_responses s)"
    using inv_pending(7) [OF inv op] by simp_all
  then have "hc_response s = http_fill_response b (last (hc_requests s)) (empty_response b)"
    using inv_pending(4) [OF inv op] by (simp add: last_map)
  then have "rq_keep_alive (last (hc_requests s))"
    using assms(3,4) by (simp add: http_fill_response_def beast_ok_def Let_def)
  moreover have "set (hc_requests s) = insert (last (hc_requests s)) (set (butlast (hc_requests s)))"
    using rqs(1) by (metis append_butlast_last_id list.simps(15) rotate1.simps(2) set_rotate1)
  ultimately show ?thesis
    using inv_pending(3,4,5) [OF inv op] by (simp add: between_def)
qed

lemma inv_next_read:
  assumes inv: "http_inv b expected s" and op: "hc_pending s = Some op" and "between b s"
  shows "http_inv b expected (http_read ((http_cancel_deadline c (s\<lparr> hc_pending := None \<rparr>))
    \<lparr> hc_request := empty_request b, hc_response := empty_response b \<rparr>))"
  using inv_pending [OF inv op] assms(3) by (intro inv_http_read) simp_all

lemma live_removed:
  assumes "i < length ts"
  shows "filter P (take i ts @ drop (Suc i) ts) = filter P (take i ts) @ filter P (drop (Suc i) ts)"
    and "filter P ts = filter P (take i ts) @ (if P (ts ! i) then [ts ! i] else []) @ filter P (drop (Suc i) ts)"
proof -
  have "filter P (take i ts @ ts ! i # drop (Suc i) ts) =
      filter P (take i ts) @ (if P (ts ! i) then [ts ! i] else []) @ filter P (drop (Suc i) ts)"
    by simp
  then show "filter P ts =
      filter P (take i ts) @ (if P (ts ! i) then [ts ! i] else []) @ filter P (drop (Suc i) ts)"
    unfolding id_take_nth_drop [OF assms, symmetric] .
qed simp

lemma inv_deadline:
  assumes inv: "http_inv b expected s" and en: "http_enabled (Http_deadline i ec) s"
  shows "http_inv b expected (http_do h (Http_deadline i ec) s)"
proof -
  let ?ts = "hc_timers s"
  let ?s = "s\<lparr> hc_timers := take i ?ts @ drop (Suc i) ?ts \<rparr>"
  have i: "i < length ?ts" and delivers: "timer_delivers (fst (?ts ! i)) ec" using en by simp_all
  note split = live_removed [OF i, of "\<lambda>t. \<not> fst t"]
  have "live_deadlines (http_deadline_expired ec ?s) = live_deadlines ?s"
    "hc_pending (http_deadline_expired ec ?s) = hc_pending s"
    "http_seconds (http_deadline_expired ec ?s) = http_seconds s"
    by (simp_all add: http_deadline_expired_def live_deadlines_def http_seconds_def fun_eq_iff)
  note same = this
  have "deadline_ok (http_deadline_expired ec ?s)"
  proof (cases "hc_pending s")
    case (Some op)
    with inv have ok: "live_deadlines s = [http_seconds s op] \<or> live_deadlines s = [] \<and> hc_expired s"
      by (simp add: http_inv_def deadline_ok_def)
    have "live_deadlines ?s = [http_seconds s op] \<or>
        live_deadlines ?s = [] \<and> hc_expired (http_deadline_expired ec ?s)"
    proof (cases "fst (?ts ! i)")
      case True
      with split have "live_deadlines ?s = live_deadlines s" by (simp add: live_deadlines_def)
      with ok show ?thesis by (auto simp: http_deadline_expired_def)
    next
      case False
      with split have "live_deadlines ?s = []"
        using ok by (auto simp: live_deadlines_def append_eq_Cons_conv)
      moreover have "ec = no_error" using delivers False by (simp add: timer_delivers_def)
      ultimately show ?thesis by (simp add: http_deadline_expired_def)
    qed
    then show ?thesis unfolding deadline_ok_def same Some by simp
  qed (simp add: deadline_ok_def same)
  moreover have "completion_ok expected (http_deadline_expired ec ?s)" "messages_ok b (http_deadline_expired ec ?s)"
    using inv by (simp_all add: http_inv_def completion_ok_def messages_ok_def between_def http_deadline_expired_def
        cong: option.case_cong)
  ultimately show ?thesis by (simp add: http_inv_def)
qed

lemma http_not_expected [simp]:
  "\<not> http_expected_disconnect no_error" "\<not> https_expected_disconnect no_error"
  by (simp_all add: http_expected_disconnect_def https_expected_disconnect_def)

text \<open>\<open>HttpEchoConnection\<close> only reads and writes.\<close>

definition http_ops :: "http_conn \<Rightarrow> bool" where
  "http_ops s \<longleftrightarrow> hc_pending s \<in> {None, Some Http_reading, Some Http_writing}"

lemma http_ops_pending:
  "hc_pending s = None \<Longrightarrow> http_ops (http_complete client expected message throws ec s)"
  "http_ops (http_read s)" "http_ops (http_write client b s)"
  by (simp_all add: http_ops_def http_complete_def http_read_def http_write_def Let_def)

lemma http_step:
  assumes b: "beast_ok b" and inv: "http_inv b http_expected_disconnect s \<and> http_ops s"
    and en: "http_enabled x s"
  shows "http_inv b http_expected_disconnect (http_do (http_done message b) x s) \<and>
    http_ops (http_do (http_done message b) x s)"
proof (cases x)
  case (Http_deadline i ec)
  have "http_ops (http_do (http_done message b) x s)"
    using inv Http_deadline by (simp add: http_ops_def http_deadline_expired_def)
  with inv_deadline [of b http_expected_disconnect s i ec] inv en Http_deadline show ?thesis by simp
next
  case (Http_io io)
  with en obtain op where op: "hc_pending s = Some op" by auto
  with inv have "op = Http_reading \<or> op = Http_writing" by (auto simp: http_ops_def)
  then show ?thesis
  proof
    assume r: "op = Http_reading"
    have "http_ops (http_read_done client expected message b io (s\<lparr> hc_pending := None \<rparr>))" for client expected
      by (simp add: http_read_done_def Let_def http_ops_pending)
    with inv_read_done [of b http_expected_disconnect s] inv op Http_io r show ?thesis by simp
  next
    assume w: "op = Http_writing"
    have "http_ops (http_write_done message b io (s\<lparr> hc_pending := None \<rparr>))"
      by (simp add: http_write_done_def Let_def http_ops_pending)
    moreover have "http_inv b http_expected_disconnect (http_write_done message b io (s\<lparr> hc_pending := None \<rparr>))"
      using inv op w inv_complete_pending [of b http_expected_disconnect s]
        inv_next_read [OF conjunct1 [OF inv] op]
        keep_alive_answered [OF conjunct1 [OF inv] _ b]
      by (auto simp: http_write_done_def Let_def)
    ultimately show ?thesis using op w Http_io by simp
  qed
qed

lemma https_step:
  assumes b: "beast_ok b" and inv: "http_inv b https_expected_disconnect s" and en: "http_enabled x s"
  shows "http_inv b https_expected_disconnect (http_do (https_done message b) x s)"
proof (cases x)
  case (Http_deadline i ec)
  with inv_deadline [OF inv] en show ?thesis by simp
next
  case (Http_io io)
  with en obtain op where op: "hc_pending s = Some op" by auto
  let ?s = "http_cancel_deadline (hi_cancel_throws io) (s\<lparr> hc_pending := None \<rparr>)"
  note fin = inv_complete_pending [OF inv op http_not_expected(2)]
  have "http_inv b https_expected_disconnect (https_done message b op io (s\<lparr> hc_pending := None \<rparr>))"
  proof (cases op)
    case Http_handshaking
    with fin inv_pending [OF inv op] show ?thesis
      by (auto simp: https_handshake_done_def https_same Let_def intro!: inv_http_read)
  next
    case Http_reading
    with inv_read_done [OF inv] op show ?thesis by (simp add: https_same)
  next
    case Http_writing
    have "http_inv b https_expected_disconnect (https_shutdown ?s)"
      using inv_pending [OF inv op]
      by (simp add: https_shutdown_def http_inv_def deadline_ok_def completion_ok_def messages_ok_def http_seconds_def)
    with Http_writing fin inv_next_read [OF inv op] keep_alive_answered [OF inv _ b] op show ?thesis
      by (auto simp: https_write_done_def https_same Let_def)
  next
    case Http_shutting_down
    with fin show ?thesis by (simp add: https_shutdown_done_def https_same)
  qed
  with op Http_io show ?thesis by simp
qed

lemma http_inv_summary:
  assumes "http_inv b expected s" and "beast_ok b"
  shows "map (\<lambda>r. (rs_version r, rs_result r, rs_keep_alive r, rs_body r)) (hc_responses s) =
      map (\<lambda>rq. (rq_version rq, 200, rq_keep_alive rq, rq_body rq)) (hc_requests s)
    \<and> (\<forall>rq \<in> set (butlast (hc_requests s)). rq_keep_alive rq)
    \<and> (case hc_pending s of
         None \<Rightarrow> \<exists>ec. hc_results s = [ec] \<and> \<not> expected ec
       | Some op \<Rightarrow> hc_results s = [] \<and>
           (live_deadlines s = [if op = Http_reading \<and> hc_requests s \<noteq> [] then 60 else 10] \<or>
            live_deadlines s = [] \<and> hc_expired s))"
  using assms
  by (auto simp: http_inv_def messages_ok_def completion_ok_def deadline_ok_def http_seconds_def
      http_fill_response_def beast_ok_def Let_def split: option.splits)

text \<open>
  C28: an HTTP session answers every request it reads with a response to it, in order, and
  reads no more after a request that asks to close.  While it reads or writes, exactly one
  deadline is armed, of ten seconds for the first request and for a response and of sixty for
  later requests, or the deadline has expired and the socket was cancelled.  It completes once,
  and an expected disconnect is not reported as an error.
\<close>

theorem http_echo_correct:
  assumes "beast_ok b"
    and "run_script http_enabled (http_do (http_done message b)) xs (http_echo b info) = Some s"
  shows "map (\<lambda>r. (rs_version r, rs_result r, rs_keep_alive r, rs_body r)) (hc_responses s) =
      map (\<lambda>rq. (rq_version rq, 200, rq_keep_alive rq, rq_body rq)) (hc_requests s)
    \<and> (\<forall>rq \<in> set (butlast (hc_requests s)). rq_keep_alive rq)
    \<and> (case hc_pending s of
         None \<Rightarrow> \<exists>ec. hc_results s = [ec] \<and> \<not> http_expected_disconnect ec
       | Some op \<Rightarrow> hc_results s = [] \<and>
           (live_deadlines s = [if op = Http_reading \<and> hc_requests s \<noteq> [] then 60 else 10] \<or>
            live_deadlines s = [] \<and> hc_expired s))"
proof -
  let ?P = "\<lambda>s. http_inv b http_expected_disconnect s \<and> http_ops s"
  have "?P (http_echo b info)"
    unfolding http_echo_def http_run_def
    by (intro conjI inv_http_read) (simp_all add: new_http_conn_def between_def http_say_def http_ops_pending)
  then have "?P s"
    using run_script_inv [OF assms(2), of ?P] http_step [OF assms(1)] by blast
  then show ?thesis using http_inv_summary [OF _ assms(1)] by blast
qed

definition plain_beast :: beast where
  "plain_beast =
     \<lparr> empty_request = \<lparr> rq_version = 11, rq_method = [], rq_target = [], rq_keep_alive = True, rq_body = [] \<rparr>,
       empty_response = \<lparr> rs_version = 11, rs_result = 200, rs_fields = Map.empty, rs_keep_alive = True, rs_body = [] \<rparr>,
       prepare_payload = (\<lambda>r. r\<lparr> rs_fields := (rs_fields r)(''Content-Length'' \<mapsto> nat_to_string (length (rs_body r))) \<rparr>) \<rparr>"

definition plain_info :: connection_info where
  "plain_info = \<lparr> ci_id = 1, ci_local_endpoint = ''tcp'', ci_remote_endpoint = ''tcp'' \<rparr>"

definition plain_request :: "bool \<Rightarrow> http_request" where
  "plain_request keep = \<lparr> rq_version = 11, rq_method = ''POST'', rq_target = ''/'', rq_keep_alive = keep, rq_body = ''hi'' \<rparr>"

definition plain_script :: "http_action list" where
  "plain_script =
     (let io = (\<lambda>keep. Http_io \<lparr> hi_ec = no_error, hi_request = plain_request keep, hi_cancel_throws = False \<rparr>)
      in [io True, Http_deadline 0 operation_aborted, io True, io False])"

lemma plain_beast_ok: "beast_ok plain_beast"
  by (simp add: beast_ok_def plain_beast_def)

lemmas plain_defs = plain_script_def plain_beast_def plain_info_def plain_request_def timer_delivers_def

lemmas http_defs = http_read_done_def http_write_done_def https_handshake_done_def https_write_done_def
  https_same http_read_def http_write_def http_fill_response_def http_arm_deadline_def http_cancel_deadline_def
  http_deadline_expired_def http_say_def Let_def

lemma http_echo_correct_witness:
  shows "\<exists>s. run_script http_enabled (http_do (http_done (\<lambda>ec. []) plain_beast)) (plain_script)
      (http_echo plain_beast plain_info) = Some s
    \<and> hc_requests s = [plain_request True, plain_request False]
    \<and> map rs_body (hc_responses s) = [''hi'', ''hi''] \<and> live_deadlines s = [10]"
proof -
  let ?run = "run_script http_enabled (http_do (http_done (\<lambda>ec. []) plain_beast)) (plain_script)
      (http_echo plain_beast plain_info)"
  obtain s where run: "?run = Some s" and s: "hc_requests s = [plain_request True, plain_request False]"
    "hc_pending s = Some Http_writing" "\<not> hc_expired s"
    by (simp add: plain_defs http_echo_def http_run_def new_http_conn_def http_defs)
  from http_echo_correct [OF plain_beast_ok run] s have "live_deadlines s = [10]"
    "map (\<lambda>r. (rs_version r, rs_result r, rs_keep_alive r, rs_body r)) (hc_responses s) =
      [(11, 200, True, ''hi''), (11, 200, False, ''hi'')]"
    by (simp_all add: plain_request_def)
  then have "live_deadlines s = [10]" "map rs_body (hc_responses s) = [''hi'', ''hi'']" by auto
  with run s show ?thesis by (intro exI [of _ s] conjI)
qed



end
