(* ===== verification/Spec2Isabelle.thy ===== *)
theory Spec2Isabelle
  imports
    Serveza_Acceptor_Trace
    Serveza_Acceptor_Ledger
    Serveza_Acceptor_Timers
    Serveza_Server_Inv
    Serveza_Program_Stop
    Serveza_Socket_Trace
    Serveza_Socket_Unarmed
    Serveza_Observers
    Serveza_Completion
    Serveza_Echo_Stream
    Serveza_Echo_Datagram
    Serveza_Echo_Http
begin

text \<open>
  \<^bold>\<open>Verification of serveza.\<close>  Serveza is a C++17 server library on Boost.Asio.  A \<open>server\<close> owns
  listeners.  An accepting listener (\<open>basic_acceptor_listener\<close>) accepts connections up to a
  limit and runs one session per connection; a bound listener (\<open>basic_socket_listener\<close>) runs
  one session on one datagram socket.  Each listener is serialised by a strand.  The server
  starts, awaits and stops its listeners as coordinated groups
  (\<open>listener_operation_group\<close>), keeps a lock-free lifecycle state (\<open>server_control\<close>), and
  reports events to observers kept in an \<open>observer_registry\<close>.

  \<^bold>\<open>How the code is modelled.\<close>  A C++ class is a record with the class's members.  A function
  object handed to Asio is a constructor of a task datatype, kept in the bag \<open>pending\<close> until
  it runs; so a listener is a transition system whose actions are the public calls, the
  pending function objects and the emission of cancellation signals.  What Asio, the
  operating system and user code answer is an argument \<open>asio\<close> of every handler: errors,
  exceptions, accepted sockets.  Exceptions and error codes are values.  64-bit counters are
  \<open>64 word\<close> and wrap around.

  \<^bold>\<open>Theories.\<close>
  \<^item> \<open>Serveza_Prelude\<close>: reachability, the interface \<open>inductive_invariant\<close>, executable runs
    (\<open>run_script\<close>), the interface \<open>drainable\<close> of a system that can be run until nothing is
    left to do, the interface \<open>exactly_once\<close> of a ledger of handlers, word lemmas.
  \<^item> \<open>Serveza_Errors\<close>: error codes and \<open>exception.cpp\<close>.
  \<^item> \<open>Serveza_Options\<close>: \<open>listener_options.h\<close> and the validation and retry delay of
    \<open>listener.cpp\<close>; the doubling loop terminates, does not overflow and equals a closed form.
  \<^item> \<open>Serveza_Endpoint\<close>: \<open>endpoint_string\<close> and that it can be read back.
  \<^item> \<open>Serveza_Status\<close>: the enumerations and structs of the public headers.
  \<^item> \<open>Serveza_Completion\<close>: \<open>complete_on\<close>, \<open>complete_on_associated\<close> and
    \<open>track_completion_work\<close> of \<open>listener.cpp\<close>.
  \<^item> \<open>Serveza_Observers\<close>: \<open>observer_registry.cpp\<close>, \<open>observer.cpp\<close>, \<open>server::observe\<close>; who owns
    a registration, and delivery of events.
  \<^item> \<open>Serveza_Listener\<close>: members and helpers the two listener classes share.
  \<^item> \<open>Serveza_Connection\<close>: \<open>connection_state\<close>, \<open>session_context\<close> and the three session
    adapters.
  \<^item> \<open>Serveza_Acceptor\<close>: every handler of \<open>basic_acceptor_listener\<close>.  \<open>Serveza_Acceptor_Inv\<close>
    has its invariant (session limit, one accept at a time, clean stop);
    \<open>Serveza_Acceptor_Ledger\<close> shows that every handler completes exactly once;
    \<open>Serveza_Acceptor_Heap\<close> that no session is lost; \<open>Serveza_Acceptor_Drain\<close> that a stop
    completes, with the measure \<open>drain_measure\<close> as the bound on the number of handlers it
    takes; \<open>Serveza_Acceptor_Timers\<close> that every armed timer has a delay within the options.
  \<^item> \<open>Serveza_Socket_Listener\<close>, \<open>Serveza_Socket_Inv\<close> and \<open>Serveza_Socket_Session\<close>: the same for
    the bound listener; a stop needs at most three function objects.
    \<open>Serveza_Socket_Unarmed\<close> has the stop whose shutdown timer cannot be armed.
  \<^item> \<open>Serveza_Lifecycle\<close>: an abstract machine of what a listener promises to its observers, with
    the interface \<open>listener_view\<close>; \<open>Serveza_Acceptor_Trace\<close> and \<open>Serveza_Socket_Trace\<close> show
    that the events of both listeners are the labels of one of its runs.
  \<^item> \<open>Serveza_Server_Control\<close>: \<open>server_control\<close>, its compare-exchange loops under interference
    and the legality of the events it posts.
  \<^item> \<open>Serveza_Operation_Group\<close>: the locked sections of \<open>listener_operation_group\<close>.
  \<^item> \<open>Serveza_Server\<close> and \<open>Serveza_Server_Inv\<close>: the public operations of \<open>server\<close> as lists of
    atomic instructions of threads, in any interleaving; every operation completes exactly
    once.
  \<^item> \<open>Serveza_System\<close>: a server together with its listeners.  Calls of the server reach the two
    listener models, and what these complete comes back to the groups in any order; a run of
    the whole is a run of the server alone.  \<open>Serveza_System_Status\<close>: \<open>status\<close>, \<open>is_ready\<close>,
    \<open>active_sessions\<close> and \<open>listeners\<close> of the server tell the truth about the listeners.
  \<^item> \<open>Serveza_Requests\<close>, \<open>Serveza_System_Live\<close>, \<open>Serveza_System_Shutdown\<close> and
    \<open>Serveza_System_Rest\<close>: the states of a server with its listeners are well formed; from each
    of them the server can be shut down without help of the sessions, in phases that each have
    a measure; what remains queued at stopped listeners can be run, after which the executor
    has nothing left to do.
  \<^item> \<open>Serveza_Echo_Stream\<close>, \<open>Serveza_Echo_Datagram\<close> and \<open>Serveza_Echo_Http\<close>: the sessions of the
    example programs as machines with one outstanding operation; which bytes, datagrams or
    responses they send, and that they complete at most once.  The callback, yield and
    coroutine variants of the echo session agree.
  \<^item> \<open>Serveza_Examples\<close>: the handlers of the examples' \<open>main\<close> functions and what they print.
    \<open>Serveza_Program\<close>: the eight programs as a whole.  The main thread executes the statements
    of \<open>main\<close>, the strand \<open>control\<close> runs the handlers and the coroutine, and the pool runs the
    server and its listeners, in any interleaving.  \<open>Serveza_Program_Inv\<close> has the invariants,
    \<open>Serveza_Program_Exit\<close> the exit status, \<open>Serveza_Program_Stop\<close> that one signal stops a program
    that waits in \<open>pool.join()\<close>, and a signal that comes too early and is lost.

  \<^bold>\<open>Assumptions.\<close>  Fewer than \<open>2\<^sup>6\<^sup>4\<close> connections, waits and listeners are created.  Where a
  property needs it, a listener outlives its connections (\<open>r_notify_owner\<close>).  Errors thrown
  by Asio carry a non-zero error code (\<open>asio_throws_errors\<close>).  A function object that was
  posted may run at any later time; no fairness is assumed, so progress is stated as a bound
  or as the existence of a run that needs no help from a session.  The example sessions assume
  what Asio documents of reads and writes (\<open>io_ok\<close>) and that Beast's \<open>prepare_payload\<close> changes
  header fields only (\<open>beast_ok\<close>); both are stated where they are used.  \<open>pool.join()\<close>
  returns when no work is outstanding, and a strand runs one function object at a time.  The status of a
  listener that the server puts into the events it posts is an answer of the environment.

  \<^bold>\<open>Bounds.\<close>  Loops are structural recursions or terminate by a measure; nothing runs on fuel.
  The compare-exchange loops recurse over the finite list of interferences they meet.

  \<^bold>\<open>Not modelled.\<close>  The memory management of shared pointers (lifetimes appear as the answer
  \<open>r_notify_owner\<close>), allocation failure, the choice of executors by \<open>strand_factory\<close>, Boost.Asio,
  Beast and OpenSSL themselves, and the build files and tests.  Of the example programs, the
  number of worker threads (it makes no difference to what can happen), signals that arrive
  before the signal set exists and end the process, and what pool threads still do while an
  exception unwinds \<open>main\<close>.
\<close>

end
